(* ===== verification/Prelude.thy ===== *)
theory Prelude
  imports Main "HOL-Library.Word"
begin

text \<open>
  Shared vocabulary of the development: the machine integers of the C code, the
  outcomes of operations that leave defined behaviour, the 32-bit byte-addressed
  memory that \<open>void *\<close> pointers range over, and the little-endian layout of packed
  structures. The locale \<open>fixed_codec\<close> is the interface of a structure with a fixed
  byte layout; its client lemmas lift a layout from one element to a C array of them.
\<close>

section \<open>Machine types and undefined behaviour\<close>

type_synonym byte = "8 word"
type_synonym u8 = "8 word"
type_synonym i8 = "8 word"
type_synonym u16 = "16 word"
type_synonym u32 = "32 word"

text \<open>
  What the compiled code does after one of these is not defined by C: an index past the
  end of an array, or a read of a variable that was never written. An operation that
  runs into one ends with \<open>Inl\<close> of it.
\<close>

datatype fault = OutOfBounds | Uninitialised

type_synonym 'a outcome = "fault + 'a"

definition bind_outcome :: "'a outcome \<Rightarrow> ('a \<Rightarrow> 'b outcome) \<Rightarrow> 'b outcome" where
  "bind_outcome x f = (case x of Inl e \<Rightarrow> Inl e | Inr a \<Rightarrow> f a)"

lemma bind_outcome_simps [simp]:
  "bind_outcome (Inl e) f = Inl e"
  "bind_outcome (Inr a) f = f a"
  by (simp_all add: bind_outcome_def)

lemma bind_outcome_Inr_iff:
  "bind_outcome x f = Inr b \<longleftrightarrow> (\<exists>a. x = Inr a \<and> f a = Inr b)"
  by (cases x) simp_all

text \<open>An operation with a loop that may not end: \<open>None\<close> is \<open>does not return\<close>.\<close>

type_synonym 'a run = "'a outcome option"

named_theorems layout_simps \<open>sizes and round trips of the byte layouts\<close>
named_theorems const_defs \<open>the preprocessor constants\<close>

section \<open>Words and naturals\<close>

lemma unat_of_nat32 [simp]: "n < 2 ^ 32 \<Longrightarrow> unat (of_nat n :: u32) = n"
  by (simp add: unat_of_nat take_bit_nat_eq_self)

lemma unat_u8_lt [simp]: "unat (b :: byte) < 256"
  using unsigned_less [of b] by simp

lemma unat_u16_lt [simp]: "unat (w :: u16) < 65536"
  using unsigned_less [of w] by simp

lemma unat_u32_lt [simp]: "unat (w :: u32) < 4294967296"
  using unsigned_less [of w] by simp

lemma unat_ucast_u8 [simp]: "unat (ucast (b :: u8) :: u32) = unat b"
proof -
  have "unat b < 2 ^ 32" by (rule less_trans [OF unat_u8_lt]) simp
  then show ?thesis by (simp add: unsigned_ucast_eq take_bit_nat_eq_self)
qed

lemma unat_ucast_u16 [simp]: "unat (ucast (b :: u16) :: u32) = unat b"
proof -
  have "unat b < 2 ^ 32" by (rule less_trans [OF unat_u16_lt]) simp
  then show ?thesis by (simp add: unsigned_ucast_eq take_bit_nat_eq_self)
qed

lemma of_nat_unat_word [simp]: "of_nat (unat w) = (w :: 'a::len word)"
  by simp

lemma of_nat_mod_word: "of_nat (n mod 2 ^ LENGTH('a)) = (of_nat n :: 'a::len word)"
  by (simp add: word_unat_eq_iff unat_of_nat)

lemma div_round_up:
  fixes v w :: nat
  assumes "0 < w"
  shows "(v + (w - 1)) div w = v div w + (if v mod w = 0 then 0 else 1)"
proof -
  have "v + (w - 1) = w * (v div w) + (v mod w + (w - 1))"
    using mult_div_mod_eq [of w v] by simp
  then have "(v + (w - 1)) div w = (w * (v div w) + (v mod w + (w - 1))) div w"
    by (rule arg_cong)
  also have "\<dots> = v div w + (v mod w + (w - 1)) div w"
    using assms by (intro div_mult_self4) simp
  finally have eq: "(v + (w - 1)) div w = v div w + (v mod w + (w - 1)) div w" .
  show ?thesis
  proof (cases "v mod w = 0")
    case True
    with eq assms show ?thesis by simp
  next
    case False
    then have m: "v mod w + (w - 1) = w + (v mod w - 1)" using assms by simp
    have "(w + (v mod w - 1)) div w = Suc ((v mod w - 1) div w)"
      using assms div_add_self1 [of w "v mod w - 1"] by simp
    moreover have "(v mod w - 1) div w = 0"
      using assms mod_less_divisor [OF assms, of v] by (intro div_less) simp
    ultimately show ?thesis using False unfolding eq m by (simp only:) simp
  qed
qed

lemma map_sum_Inr_iff: "map_sum id f x = Inr y \<longleftrightarrow> (\<exists>z. x = Inr z \<and> y = f z)"
  by (cases x) auto

section \<open>Lists\<close>

text \<open>Number of elements of a list with a property, as the C code counts them.\<close>

definition count_if :: "('a \<Rightarrow> bool) \<Rightarrow> 'a list \<Rightarrow> nat" where
  "count_if P xs = length (filter P xs)"

lemma count_if_simps [simp]:
  "count_if P [] = 0"
  "count_if P (x # xs) = (if P x then Suc (count_if P xs) else count_if P xs)"
  "count_if P (xs @ ys) = count_if P xs + count_if P ys"
  by (simp_all add: count_if_def)

lemma count_if_update:
  assumes "i < length xs"
  shows "count_if P (xs[i := y]) + (if P (xs ! i) then 1 else 0)
       = count_if P xs + (if P y then 1 else 0)"
proof -
  have "xs = take i xs @ xs ! i # drop (Suc i) xs"
    using assms by (rule id_take_nth_drop)
  then have "count_if P xs = count_if P (take i xs) + count_if P [xs ! i] + count_if P (drop (Suc i) xs)"
    by (metis append_Cons append_Nil count_if_simps(3) add.assoc)
  moreover have "count_if P (xs[i := y]) = count_if P (take i xs) + count_if P [y] + count_if P (drop (Suc i) xs)"
    using assms by (simp add: upd_conv_take_nth_drop)
  ultimately show ?thesis by simp
qed

lemma count_if_le_length: "count_if P xs \<le> length xs"
  by (simp add: count_if_def)

lemma count_if_replicate [simp]: "count_if P (replicate n x) = (if P x then n else 0)"
  by (induction n) auto

end
