(* ===== verification/Bytes.thy ===== *)
theory Bytes
  imports Prelude
begin

text \<open>
  Bytes in memory. A memory is a function from 32-bit addresses to bytes; a pointer is an
  address, and pointer arithmetic wraps at 2^32 as it does on the i386. Little-endian
  encodings give the packed structures of the file system their byte layout, and the
  locale \<open>fixed_codec\<close> lifts a layout to arrays: the file allocation table is an
  array of 4-byte words, a directory table an array of 32-byte entries.
\<close>

section \<open>The address space\<close>

type_synonym memory = "u32 \<Rightarrow> byte"

definition mem_read :: "memory \<Rightarrow> u32 \<Rightarrow> nat \<Rightarrow> byte list" where
  "mem_read m p n = map (\<lambda>i. m (p + of_nat i)) [0..<n]"

definition mem_write :: "memory \<Rightarrow> u32 \<Rightarrow> byte list \<Rightarrow> memory" where
  "mem_write m p bs = (\<lambda>a. let i = unat (a - p) in if i < length bs then bs ! i else m a)"

lemma length_mem_read [simp]: "length (mem_read m p n) = n"
  by (simp add: mem_read_def)

lemma nth_mem_read [simp]: "i < n \<Longrightarrow> mem_read m p n ! i = m (p + of_nat i)"
  by (simp add: mem_read_def)

lemma mem_read_add:
  "mem_read m p (a + b) = mem_read m p a @ mem_read m (p + of_nat a) b"
proof (rule nth_equalityI)
  fix i assume "i < length (mem_read m p (a + b))"
  then have i: "i < a + b" by simp
  show "mem_read m p (a + b) ! i = (mem_read m p a @ mem_read m (p + of_nat a) b) ! i"
  proof (cases "i < a")
    case True
    with i show ?thesis by (simp add: nth_append)
  next
    case False
    then obtain j where "i = a + j" using le_Suc_ex not_less by blast
    with i show ?thesis by (simp add: nth_append algebra_simps)
  qed
qed simp

lemma mem_read_0 [simp]: "mem_read m p 0 = []"
  by (simp add: mem_read_def)

lemma mem_read_Suc: "mem_read m p (Suc n) = m p # mem_read m (p + 1) n"
  using mem_read_add [of m p 1 n] by (simp add: mem_read_def)

lemma mem_write_Nil [simp]: "mem_write m p [] = m"
  by (simp add: mem_write_def)

lemma mem_write_same: "i < length bs \<Longrightarrow> length bs \<le> 2 ^ 32 \<Longrightarrow> mem_write m p bs (p + of_nat i) = bs ! i"
  by (simp add: mem_write_def)

lemma mem_write_other: "length bs \<le> unat (a - p) \<Longrightarrow> mem_write m p bs a = m a"
  by (simp add: mem_write_def)

lemma mem_read_write:
  assumes "n \<le> length bs" and "length bs \<le> 2 ^ 32"
  shows "mem_read (mem_write m p bs) p n = take n bs"
  using assms by (intro nth_equalityI) (simp_all add: mem_write_same)

text \<open>Writing two blocks one after the other is writing their concatenation.\<close>

lemma unat_minus_of_nat:
  fixes d :: u32
  assumes "l < 2 ^ 32"
  shows "unat (d - of_nat l) = (if l \<le> unat d then unat d - l else unat d + 2 ^ 32 - l)"
  using assms by (simp add: unat_sub_if')

lemma mem_write_append:
  assumes "length xs + length ys \<le> 2 ^ 32"
  shows "mem_write (mem_write m p xs) (p + of_nat (length xs)) ys = mem_write m p (xs @ ys)"
proof (cases "length xs = 2 ^ 32")
  case True
  with assms show ?thesis by simp
next
  case False
  with assms have len: "length xs < 2 ^ 32" by simp
  show ?thesis
  proof
    fix a :: u32
    have eq: "a - (p + of_nat (length xs)) = (a - p) - of_nat (length xs)"
      by (simp add: algebra_simps)
    have "unat (a - p) < 2 ^ 32" using unsigned_less [of "a - p"] by simp
    with assms show "mem_write (mem_write m p xs) (p + of_nat (length xs)) ys a = mem_write m p (xs @ ys) a"
      by (auto simp: mem_write_def Let_def eq unat_minus_of_nat [OF len] nth_append)
  qed
qed

section \<open>Little-endian layout\<close>

fun le_bytes :: "nat \<Rightarrow> nat \<Rightarrow> byte list" where
  "le_bytes 0 x = []"
| "le_bytes (Suc n) x = of_nat x # le_bytes n (x div 256)"

fun le_val :: "byte list \<Rightarrow> nat" where
  "le_val [] = 0"
| "le_val (b # bs) = unat b + 256 * le_val bs"

lemma length_le_bytes [simp]: "length (le_bytes n x) = n"
  by (induction n arbitrary: x) simp_all

lemma le_val_le_bytes: "le_val (le_bytes n x) = x mod 256 ^ n"
proof (induction n arbitrary: x)
  case 0
  then show ?case by simp
next
  case (Suc n)
  have "unat (of_nat x :: byte) = x mod 256"
    by (simp add: unat_of_nat)
  then show ?case
    by (simp add: Suc mod_mult2_eq)
qed

lemma le_val_less: "le_val bs < 256 ^ length bs"
proof (induction bs)
  case Nil
  then show ?case by simp
next
  case (Cons b bs)
  have "unat b < 256" by simp
  with Cons have "unat b + 256 * le_val bs < 256 * (le_val bs + 1)" by simp
  also have "\<dots> \<le> 256 * 256 ^ length bs" using Cons by (intro mult_le_mono2) simp
  finally show ?case by simp
qed

lemma le_bytes_le_val: "length bs = n \<Longrightarrow> le_bytes n (le_val bs) = bs"
proof (induction bs arbitrary: n)
  case Nil
  then show ?case by simp
next
  case (Cons b bs)
  have "of_nat (unat b + 256 * le_val bs) = b + 256 * (of_nat (le_val bs) :: byte)"
    by simp
  also have "(256 :: byte) = 0" by simp
  finally have "of_nat (unat b + 256 * le_val bs) = b" by simp
  moreover have "(unat b + 256 * le_val bs) div 256 = le_val bs"
    using unat_u8_lt [of b] by simp
  ultimately show ?case using Cons by auto
qed

definition enc16 :: "u16 \<Rightarrow> byte list" where "enc16 w = le_bytes 2 (unat w)"
definition dec16 :: "byte list \<Rightarrow> u16" where "dec16 bs = of_nat (le_val bs)"
definition enc32 :: "u32 \<Rightarrow> byte list" where "enc32 w = le_bytes 4 (unat w)"
definition dec32 :: "byte list \<Rightarrow> u32" where "dec32 bs = of_nat (le_val bs)"

lemma length_enc [simp]: "length (enc16 w) = 2" "length (enc32 v) = 4"
  by (simp_all add: enc16_def enc32_def)

lemma dec_enc16 [simp]: "dec16 (enc16 w) = w"
  by (simp add: enc16_def dec16_def le_val_le_bytes)

lemma dec_enc32 [simp]: "dec32 (enc32 w) = w"
  by (simp add: enc32_def dec32_def le_val_le_bytes)

lemma enc_dec16 [simp]: "length bs = 2 \<Longrightarrow> enc16 (dec16 bs) = bs"
  using le_val_less [of bs]
  by (simp add: enc16_def dec16_def unat_of_nat take_bit_nat_eq_self le_bytes_le_val)

lemma enc_dec32 [simp]: "length bs = 4 \<Longrightarrow> enc32 (dec32 bs) = bs"
  using le_val_less [of bs]
  by (simp add: enc32_def dec32_def unat_of_nat take_bit_nat_eq_self le_bytes_le_val)

section \<open>Arrays of a fixed layout\<close>

definition chunk :: "nat \<Rightarrow> nat \<Rightarrow> 'a list \<Rightarrow> 'a list" where
  "chunk i n xs = take n (drop i xs)"

lemma length_chunk [simp]: "i + n \<le> length xs \<Longrightarrow> length (chunk i n xs) = n"
  by (simp add: chunk_def)

lemma nth_chunk [simp]: "j < n \<Longrightarrow> i + n \<le> length xs \<Longrightarrow> chunk i n xs ! j = xs ! (i + j)"
  by (simp add: chunk_def)

definition encode_array :: "('a \<Rightarrow> byte list) \<Rightarrow> 'a list \<Rightarrow> byte list" where
  "encode_array enc xs = concat (map enc xs)"

definition decode_array :: "(byte list \<Rightarrow> 'a) \<Rightarrow> nat \<Rightarrow> nat \<Rightarrow> byte list \<Rightarrow> 'a list" where
  "decode_array dec w n bs = map (\<lambda>i. dec (chunk (w * i) w bs)) [0..<n]"

lemma length_decode_array [simp]: "length (decode_array dec w n bs) = n"
  by (simp add: decode_array_def)

lemma decode_array_Suc:
  "decode_array dec w (Suc n) bs = dec (take w bs) # decode_array dec w n (drop w bs)"
  unfolding decode_array_def
  by (simp add: upt_conv_Cons chunk_def map_Suc_upt [symmetric] add.commute del: upt_Suc)

locale fixed_codec =
  fixes enc :: "'a \<Rightarrow> byte list"
    and dec :: "byte list \<Rightarrow> 'a"
    and w :: nat
    and ok :: "'a \<Rightarrow> bool"
  assumes len_enc: "ok x \<Longrightarrow> length (enc x) = w"
    and dec_enc: "ok x \<Longrightarrow> dec (enc x) = x"
    and enc_dec: "length bs = w \<Longrightarrow> enc (dec bs) = bs"
    and ok_dec: "length bs = w \<Longrightarrow> ok (dec bs)"
begin

lemma length_encode: "list_all ok xs \<Longrightarrow> length (encode_array enc xs) = w * length xs"
  by (induction xs) (simp_all add: encode_array_def len_enc)

lemma decode_encode:
  "list_all ok xs \<Longrightarrow> length xs = n \<Longrightarrow> decode_array dec w n (encode_array enc xs) = xs"
proof (induction xs arbitrary: n)
  case Nil
  then show ?case by (simp add: decode_array_def)
next
  case (Cons x xs)
  then show ?case
    by (auto simp: decode_array_Suc encode_array_def len_enc dec_enc)
qed

lemma encode_decode:
  "length bs = w * n \<Longrightarrow> encode_array enc (decode_array dec w n bs) = bs"
proof (induction n arbitrary: bs)
  case 0
  then show ?case by (simp add: encode_array_def decode_array_def)
next
  case (Suc n)
  then have "encode_array enc (decode_array dec w n (drop w bs)) = drop w bs" by simp
  with Suc.prems show ?case
    by (simp add: decode_array_Suc encode_array_def enc_dec)
qed

lemma ok_decode: "length bs = w * n \<Longrightarrow> list_all ok (decode_array dec w n bs)"
proof (induction n arbitrary: bs)
  case 0
  then show ?case by (simp add: decode_array_def)
next
  case (Suc n)
  then show ?case by (simp add: decode_array_Suc ok_dec)
qed

lemma encode_inject:
  "list_all ok xs \<Longrightarrow> list_all ok ys \<Longrightarrow> length xs = length ys \<Longrightarrow>
   encode_array enc xs = encode_array enc ys \<Longrightarrow> xs = ys"
  by (metis decode_encode)

end

interpretation word32: fixed_codec enc32 dec32 4 "\<lambda>_. True"
  by unfold_locales simp_all

section \<open>Character strings\<close>

definition str :: "string \<Rightarrow> byte list" where
  "str s = map of_char s"

lemma length_str [simp]: "length (str s) = length s"
  by (simp add: str_def)

end
