(* ===== verification/Block_Store.thy ===== *)
theory Block_Store
  imports Bytes
begin

text \<open>
  The block device under the file system. \<open>fat32.c\<close> calls \<open>read_blocks\<close> and
  \<open>write_blocks\<close>; the build links it either with the ATA driver \<open>disk.c\<close> (kernel)
  or with the memory image of \<open>external-inserter.c\<close> (host tool). The functions here
  are those of the inserter: an image is a byte array, and a block address is scaled by
  \<open>BLOCK_SIZE\<close> in 32-bit arithmetic.

  The locale \<open>sector_store\<close> is the interface the file system relies on: a sector read
  returns what was last written to it and nothing else. Its client lemma gives the
  contents after any sequence of writes as the last write to each sector.
\<close>

section \<open>Blocks of a memory image\<close>

abbreviation (input) BLOCK_SIZE :: nat where "BLOCK_SIZE \<equiv> 512"

type_synonym image = "nat \<Rightarrow> byte"

definition image_read :: "image \<Rightarrow> nat \<Rightarrow> nat \<Rightarrow> byte list" where
  "image_read img off n = map (\<lambda>j. img (off + j)) [0..<n]"

definition image_write :: "image \<Rightarrow> nat \<Rightarrow> byte list \<Rightarrow> image" where
  "image_write img off bs = (\<lambda>a. if off \<le> a \<and> a < off + length bs then bs ! (a - off) else img a)"

text \<open>The offset \<open>BLOCK_SIZE*(logical_block_address+i)\<close>, an unsigned 32-bit product.\<close>

definition block_offset :: "u32 \<Rightarrow> nat \<Rightarrow> nat" where
  "block_offset lba i = unat (of_nat BLOCK_SIZE * (lba + of_nat i) :: u32)"

definition read_blocks :: "image \<Rightarrow> u32 \<Rightarrow> u8 \<Rightarrow> byte list" where
  "read_blocks img lba count =
     concat (map (\<lambda>i. image_read img (block_offset lba i) BLOCK_SIZE) [0..<unat count])"

definition write_blocks :: "image \<Rightarrow> byte list \<Rightarrow> u32 \<Rightarrow> u8 \<Rightarrow> image" where
  "write_blocks img src lba count =
     fold (\<lambda>i img. image_write img (block_offset lba i) (chunk (BLOCK_SIZE * i) BLOCK_SIZE src))
       [0..<unat count] img"

lemma length_image_read [simp]: "length (image_read img off n) = n"
  by (simp add: image_read_def)

lemma nth_image_read [simp]: "j < n \<Longrightarrow> image_read img off n ! j = img (off + j)"
  by (simp add: image_read_def)

lemma image_read_add: "image_read img off (a + b) = image_read img off a @ image_read img (off + a) b"
proof (rule nth_equalityI)
  fix i assume i: "i < length (image_read img off (a + b))"
  show "image_read img off (a + b) ! i = (image_read img off a @ image_read img (off + a) b) ! i"
  proof (cases "i < a")
    case True
    with i show ?thesis by (simp add: nth_append)
  next
    case False
    with i show ?thesis by (simp add: nth_append)
  qed
qed simp

lemma image_write_append: "image_write (image_write img off xs) (off + length xs) ys = image_write img off (xs @ ys)"
  by (rule ext) (auto simp: image_write_def nth_append)

lemma image_write_Nil [simp]: "image_write img off [] = img"
  by (rule ext) (auto simp: image_write_def)

lemma image_read_write: "length bs = n \<Longrightarrow> image_read (image_write img off bs) off n = bs"
  by (rule nth_equalityI) (simp_all add: image_write_def)

lemma image_read_other:
  "off' + n \<le> off \<or> off + length bs \<le> off' \<Longrightarrow>
   image_read (image_write img off bs) off' n = image_read img off' n"
  by (rule nth_equalityI) (auto simp: image_write_def)

section \<open>A run of blocks is one range of the image\<close>

text \<open>Below the 4 GiB bound of the 32-bit offset a transfer touches one contiguous range.\<close>

definition blocks_fit :: "u32 \<Rightarrow> nat \<Rightarrow> bool" where
  "blocks_fit lba n \<longleftrightarrow> BLOCK_SIZE * (unat lba + n) \<le> 2 ^ 32"

lemma block_offset_fit: "blocks_fit lba n \<Longrightarrow> i < n \<Longrightarrow> block_offset lba i = BLOCK_SIZE * unat lba + BLOCK_SIZE * i"
proof -
  assume a: "blocks_fit lba n" "i < n"
  then have i: "unat lba + i < 2 ^ 23" by (simp add: blocks_fit_def)
  then have "unat (lba + of_nat i) = unat lba + i"
    by (simp add: unat_word_ariths)
  with i show ?thesis
    by (simp add: block_offset_def unat_word_ariths)
qed

lemma read_blocks_fit:
  assumes "blocks_fit lba (unat count)"
  shows "read_blocks img lba count = image_read img (BLOCK_SIZE * unat lba) (BLOCK_SIZE * unat count)"
proof -
  have "n \<le> unat count \<Longrightarrow>
      concat (map (\<lambda>i. image_read img (block_offset lba i) BLOCK_SIZE) [0..<n])
      = image_read img (BLOCK_SIZE * unat lba) (BLOCK_SIZE * n)" for n
  proof (induction n)
    case 0
    then show ?case by (simp add: image_read_def)
  next
    case (Suc n)
    with block_offset_fit [OF assms, of n] show ?case
      using image_read_add [of img "BLOCK_SIZE * unat lba" "BLOCK_SIZE * n" BLOCK_SIZE]
      by (simp add: algebra_simps)
  qed
  then show ?thesis by (simp add: read_blocks_def)
qed

lemma write_blocks_fit:
  assumes "blocks_fit lba (unat count)" and "BLOCK_SIZE * unat count \<le> length src"
  shows "write_blocks img src lba count
       = image_write img (BLOCK_SIZE * unat lba) (take (BLOCK_SIZE * unat count) src)"
proof -
  let ?w = "\<lambda>i img. image_write img (block_offset lba i) (chunk (BLOCK_SIZE * i) BLOCK_SIZE src)"
  have "n \<le> unat count \<Longrightarrow>
      fold ?w [0..<n] img = image_write img (BLOCK_SIZE * unat lba) (take (BLOCK_SIZE * n) src)" for n
  proof (induction n)
    case 0
    then show ?case by simp
  next
    case (Suc n)
    have "take (BLOCK_SIZE * Suc n) src = take (BLOCK_SIZE * n) src @ chunk (BLOCK_SIZE * n) BLOCK_SIZE src"
      by (simp add: chunk_def take_add [symmetric] add.commute)
    with Suc block_offset_fit [OF assms(1), of n] assms(2) show ?case
      using image_write_append [of img "BLOCK_SIZE * unat lba" "take (BLOCK_SIZE * n) src"
          "chunk (BLOCK_SIZE * n) BLOCK_SIZE src"]
      by simp
  qed
  then show ?thesis by (simp add: write_blocks_def)
qed

lemma length_read_blocks [simp]: "length (read_blocks img lba count) = BLOCK_SIZE * unat count"
  by (simp add: read_blocks_def length_concat comp_def sum_list_triv)

section \<open>The interface of a sector store\<close>

locale sector_store =
  fixes get :: "'s \<Rightarrow> 'a \<Rightarrow> byte list"
    and put :: "'s \<Rightarrow> 'a \<Rightarrow> byte list \<Rightarrow> 's"
    and sector_size :: nat
    and valid :: "'a \<Rightarrow> bool"
  assumes get_put_same: "valid a \<Longrightarrow> length bs = sector_size \<Longrightarrow> get (put s a bs) a = bs"
    and get_put_other: "valid a \<Longrightarrow> valid b \<Longrightarrow> a \<noteq> b \<Longrightarrow> length bs = sector_size \<Longrightarrow>
                        get (put s a bs) b = get s b"
    and length_get: "length (get s a) = sector_size"
begin

lemma get_put:
  "valid a \<Longrightarrow> valid b \<Longrightarrow> length bs = sector_size \<Longrightarrow>
   get (put s a bs) b = (if a = b then bs else get s b)"
  by (simp add: get_put_same get_put_other)

lemma put_put_get:
  "valid a \<Longrightarrow> valid b \<Longrightarrow> length x = sector_size \<Longrightarrow> length y = sector_size \<Longrightarrow>
   get (put (put s a x) a y) b = get (put s a y) b"
  by (simp add: get_put)

lemma put_commute_get:
  "valid a \<Longrightarrow> valid b \<Longrightarrow> valid c \<Longrightarrow> a \<noteq> b \<Longrightarrow> length x = sector_size \<Longrightarrow> length y = sector_size \<Longrightarrow>
   get (put (put s a x) b y) c = get (put (put s b y) a x) c"
  by (auto simp: get_put)

text \<open>After a sequence of writes a sector holds the last block written to it.\<close>

lemma get_puts:
  "\<forall>(a, bs) \<in> set ws. valid a \<and> length bs = sector_size \<Longrightarrow> valid c \<Longrightarrow>
   get (fold (\<lambda>(a, bs) s. put s a bs) ws s) c
     = (case map_of (rev ws) c of None \<Rightarrow> get s c | Some bs \<Rightarrow> bs)"
proof (induction ws rule: rev_induct)
  case Nil
  then show ?case by simp
next
  case (snoc w ws)
  then show ?case by (cases w) (auto simp: get_put)
qed

end

text \<open>Single blocks of the image are such a store, below the bound of the offset.\<close>

definition block_valid :: "u32 \<Rightarrow> bool" where
  "block_valid lba \<longleftrightarrow> unat lba < 2 ^ 23"

lemma block_valid_fit: "block_valid lba \<Longrightarrow> blocks_fit lba 1"
  by (simp add: block_valid_def blocks_fit_def)

interpretation blocks: sector_store "\<lambda>img lba. read_blocks img lba 1"
  "\<lambda>img lba bs. write_blocks img bs lba 1" BLOCK_SIZE block_valid
proof unfold_locales
  fix a b :: u32 and bs :: "byte list" and s :: image
  assume bs: "length bs = BLOCK_SIZE" and a: "block_valid a"
  have w: "write_blocks s bs a 1 = image_write s (BLOCK_SIZE * unat a) bs"
    using write_blocks_fit [of a 1 bs s] block_valid_fit [OF a] bs by simp
  show "read_blocks (write_blocks s bs a 1) a 1 = bs"
    using read_blocks_fit [of a 1] block_valid_fit [OF a] bs by (simp add: w image_read_write)
  assume b: "block_valid b" and "a \<noteq> b"
  then have "unat a < unat b \<or> unat b < unat a" using word_unat_eq_iff nat_neq_iff by blast
  then show "read_blocks (write_blocks s bs a 1) b 1 = read_blocks s b 1"
    using read_blocks_fit [of b 1] block_valid_fit [OF b] bs by (auto simp: w image_read_other)
qed simp

end
