(* ===== verification/String_C.thy ===== *)
theory String_C
  imports Bytes
begin

text \<open>
  The freestanding string routines of \<open>src/stdlib/string.c\<close>, as the loops they are, on
  the byte-addressed memory. \<open>size_t\<close> is 32 bits wide; a loop counter runs from 0 to
  \<open>n\<close> at most and is a natural number here. Each loop is shown equal to a single block
  write (\<open>mem_write\<close>) or to a comparison of the two ranges. The copy lemmas state
  exactly which overlaps each direction tolerates.
\<close>

section \<open>memset\<close>

function memset_loop :: "memory \<Rightarrow> u32 \<Rightarrow> byte \<Rightarrow> nat \<Rightarrow> nat \<Rightarrow> memory" where
  "memset_loop m s c n i =
     (if i < n then memset_loop (m(s + of_nat i := c)) s c n (Suc i) else m)"
  by pat_completeness auto
termination
  by (relation "measure (\<lambda>(m, s, c, n, i). n - i)") auto

declare memset_loop.simps [simp del]

definition memset :: "memory \<Rightarrow> u32 \<Rightarrow> u32 \<Rightarrow> u32 \<Rightarrow> memory" where
  "memset m s c n = memset_loop m s (ucast c) (unat n) 0"

section \<open>memcpy and memmove\<close>

text \<open>The two loops: upwards from index 0, downwards from index \<open>n\<close>.\<close>

function copy_up :: "memory \<Rightarrow> u32 \<Rightarrow> u32 \<Rightarrow> nat \<Rightarrow> nat \<Rightarrow> memory" where
  "copy_up m d s n i =
     (if i < n then copy_up (m(d + of_nat i := m (s + of_nat i))) d s n (Suc i) else m)"
  by pat_completeness auto
termination
  by (relation "measure (\<lambda>(m, d, s, n, i). n - i)") auto

declare copy_up.simps [simp del]

fun copy_down :: "memory \<Rightarrow> u32 \<Rightarrow> u32 \<Rightarrow> nat \<Rightarrow> memory" where
  "copy_down m d s 0 = m"
| "copy_down m d s (Suc i) = copy_down (m(d + of_nat i := m (s + of_nat i))) d s i"

definition memcpy :: "memory \<Rightarrow> u32 \<Rightarrow> u32 \<Rightarrow> u32 \<Rightarrow> memory" where
  "memcpy m dest src n = copy_up m dest src (unat n) 0"

definition memmove :: "memory \<Rightarrow> u32 \<Rightarrow> u32 \<Rightarrow> u32 \<Rightarrow> memory" where
  "memmove m dest src n =
     (if dest < src then copy_up m dest src (unat n) 0
      else copy_down m dest src (unat n))"

section \<open>memcmp\<close>

text \<open>
  The comparison reads its operands only, so it is stated on the two byte sequences
  \<open>buf1[i]\<close>, \<open>buf2[i]\<close>; \<open>memcmp\<close> instantiates them with memory, and
  \<open>memcmp_bytes\<close> with C arrays held as lists.
\<close>

function memcmp_loop :: "(nat \<Rightarrow> byte) \<Rightarrow> (nat \<Rightarrow> byte) \<Rightarrow> nat \<Rightarrow> nat \<Rightarrow> int" where
  "memcmp_loop buf1 buf2 n i =
     (if i < n then
        (if buf1 i < buf2 i then -1
         else if buf1 i > buf2 i then 1
         else memcmp_loop buf1 buf2 n (Suc i))
      else 0)"
  by pat_completeness auto
termination
  by (relation "measure (\<lambda>(b1, b2, n, i). n - i)") auto

declare memcmp_loop.simps [simp del]

definition memcmp :: "memory \<Rightarrow> u32 \<Rightarrow> u32 \<Rightarrow> u32 \<Rightarrow> int" where
  "memcmp m s1 s2 n =
     memcmp_loop (\<lambda>i. m (s1 + of_nat i)) (\<lambda>i. m (s2 + of_nat i)) (unat n) 0"

definition memcmp_bytes :: "byte list \<Rightarrow> byte list \<Rightarrow> nat \<Rightarrow> int" where
  "memcmp_bytes xs ys n = memcmp_loop (\<lambda>i. xs ! i) (\<lambda>i. ys ! i) n 0"

section \<open>Correctness\<close>

lemma mem_write_snoc:
  assumes "length bs < 2 ^ 32"
  shows "(mem_write m p bs)(p + of_nat (length bs) := b) = mem_write m p (bs @ [b])"
proof -
  have "(mem_write m p bs)(p + of_nat (length bs) := b)
      = mem_write (mem_write m p bs) (p + of_nat (length bs)) [b]"
    by (rule ext) (auto simp: mem_write_def Let_def unat_eq_zero)
  also have "\<dots> = mem_write m p (bs @ [b])"
    using assms by (intro mem_write_append) simp
  finally show ?thesis .
qed

lemma memset_loop_eq:
  assumes "i \<le> n" and "n < 2 ^ 32"
  shows "memset_loop (mem_write m s (replicate i c)) s c n i = mem_write m s (replicate n c)"
  using assms
proof (induction "n - i" arbitrary: i)
  case 0
  then show ?case by (simp add: memset_loop.simps)
next
  case (Suc k)
  then have "i < n" by simp
  have "(mem_write m s (replicate i c))(s + of_nat i := c) = mem_write m s (replicate (Suc i) c)"
    using mem_write_snoc [of "replicate i c" m s c] Suc.prems \<open>i < n\<close>
    by (simp add: replicate_append_same)
  with \<open>i < n\<close> Suc(1) [of "Suc i"] Suc(2,4) show ?case by (subst memset_loop.simps) simp
qed

lemma memset_eq: "memset m s c n = mem_write m s (replicate (unat n) (ucast c))"
  using memset_loop_eq [of 0 "unat n" m s "ucast c"] by (simp add: memset_def)

text \<open>
  An upward copy is right when no byte is overwritten before it is read: byte \<open>i\<close> of
  the source lies at least \<open>i\<close> bytes past the start of the destination.
\<close>

definition up_safe :: "u32 \<Rightarrow> u32 \<Rightarrow> nat \<Rightarrow> bool" where
  "up_safe d s n \<longleftrightarrow> (\<forall>i<n. i \<le> unat (s + of_nat i - d))"

lemma copy_up_eq:
  assumes "up_safe d s n" and "i \<le> n" and "n < 2 ^ 32"
  shows "copy_up (mem_write m d (mem_read m s i)) d s n i = mem_write m d (mem_read m s n)"
  using assms(2,3)
proof (induction "n - i" arbitrary: i)
  case 0
  then show ?case by (simp add: copy_up.simps)
next
  case (Suc k)
  then have "i < n" by simp
  with assms(1) have "mem_write m d (mem_read m s i) (s + of_nat i) = m (s + of_nat i)"
    by (intro mem_write_other) (simp add: up_safe_def)
  moreover have "(mem_write m d (mem_read m s i))(d + of_nat i := m (s + of_nat i))
      = mem_write m d (mem_read m s (Suc i))"
    using mem_write_snoc [of "mem_read m s i" m d "m (s + of_nat i)"] mem_read_add [of m s i 1]
      Suc.prems \<open>i < n\<close> by (simp add: mem_read_def)
  ultimately show ?case using \<open>i < n\<close> Suc by (subst copy_up.simps) simp
qed

lemma copy_up_start:
  "up_safe d s (unat (n :: u32)) \<Longrightarrow> copy_up m d s (unat n) 0 = mem_write m d (mem_read m s (unat n))"
  using copy_up_eq [of d s "unat n" 0 m] by (simp add: mem_read_def)

lemma unat_offset:
  fixes s d :: u32
  assumes "unat (s - d) + i < 2 ^ 32"
  shows "unat (s + of_nat i - d) = unat (s - d) + i"
proof -
  have "s + of_nat i - d = (s - d) + of_nat i" by (simp add: algebra_simps)
  moreover have "unat (of_nat i :: u32) = i" using assms by simp
  moreover have "unat ((s - d) + of_nat i) = unat (s - d) + unat (of_nat i :: u32)"
    using assms by (subst unat_add_lem [symmetric]) simp
  ultimately show ?thesis by (simp only:)
qed

lemma up_safe_disjoint: "n \<le> unat (s - d) \<Longrightarrow> unat (s - d) + n \<le> 2 ^ 32 \<Longrightarrow> up_safe d s n"
proof -
  assume a: "n \<le> unat (s - d)" and b: "unat (s - d) + n \<le> 2 ^ 32"
  show ?thesis unfolding up_safe_def
  proof (intro allI impI)
    fix i assume "i < n"
    show "i \<le> unat (s + of_nat i - d)"
      using unat_offset [of s d i] a b \<open>i < n\<close> by simp
  qed
qed

lemma up_safe_below:
  assumes "d < s" and "unat s + n \<le> 2 ^ 32"
  shows "up_safe d s n"
  unfolding up_safe_def
proof (intro allI impI)
  fix i assume "i < n"
  have "unat (s - d) = unat s - unat d"
    using assms(1) by (simp add: unat_sub_if' word_less_nat_alt)
  then show "i \<le> unat (s + of_nat i - d)"
    using unat_offset [of s d i] assms(2) \<open>i < n\<close> by simp
qed

text \<open>A downward copy, dually: what lies above index \<open>i\<close> is written, what lies below is not.\<close>

lemma unat_minus1_32: "unat (- 1 :: u32) = 2 ^ 32 - 1"
  by (simp add: unsigned_minus_1_eq_mask mask_eq_exp_minus_1)

lemma unat_gap:
  fixes s d :: u32
  assumes "s \<le> d"
  shows "unat (s - (d + 1)) = 2 ^ 32 - 1 - (unat d - unat s)"
proof -
  have "s - (d + 1) = - 1 - (d - s)" by (simp add: algebra_simps)
  moreover have "unat (d - s) = unat d - unat s"
    using assms by (simp add: unat_sub_if' word_le_nat_alt)
  moreover have "unat (- 1 - (d - s)) = unat (- 1 :: u32) - unat (d - s)"
    by (intro unat_sub) simp
  ultimately show ?thesis by (simp only: unat_minus1_32)
qed

lemma mem_write_Cons:
  assumes "length bs < 2 ^ 32"
  shows "(mem_write m (p + 1) bs)(p := b) = mem_write m p (b # bs)"
proof -
  have "mem_write m p ([b] @ bs) = mem_write (mem_write m p [b]) (p + 1) bs"
    using assms mem_write_append [of "[b]" bs m p] by simp
  moreover have "(mem_write m (p + 1) bs)(p := b) = mem_write (mem_write m p [b]) (p + 1) bs"
  proof
    fix a
    have "mem_write (mem_write m p [b]) (p + 1) bs p = b"
      using assms by (simp add: mem_write_def unat_minus1_32)
    then show "((mem_write m (p + 1) bs)(p := b)) a = mem_write (mem_write m p [b]) (p + 1) bs a"
      by (auto simp: mem_write_def Let_def unat_eq_zero)
  qed
  ultimately show ?thesis by simp
qed

lemma copy_down_eq:
  assumes "s \<le> d" and "unat d + n \<le> 2 ^ 32" and "i \<le> n" and "n < 2 ^ 32"
  shows "copy_down (mem_write m (d + of_nat i) (mem_read m (s + of_nat i) (n - i))) d s i
       = mem_write m d (mem_read m s n)"
  using assms(3)
proof (induction i)
  case 0
  then show ?case by simp
next
  case (Suc i)
  let ?d = "d + of_nat i" and ?s = "s + of_nat i"
  let ?m = "mem_write m (?d + 1) (mem_read m (?s + 1) (n - Suc i))"
  have "?s - (?d + 1) = s - (d + 1)" by (simp add: algebra_simps)
  moreover have "n - Suc i \<le> unat (s - (d + 1))"
    unfolding unat_gap [OF assms(1)] using assms(2,4) Suc.prems by simp
  ultimately have "n - Suc i \<le> unat (?s - (?d + 1))" by (simp only:)
  then have rd: "?m ?s = m ?s" by (intro mem_write_other) simp
  have "?m(?d := m ?s) = mem_write m ?d (m ?s # mem_read m (?s + 1) (n - Suc i))"
    using assms(4) by (intro mem_write_Cons) simp
  also have "m ?s # mem_read m (?s + 1) (n - Suc i) = mem_read m ?s (n - i)"
    using mem_read_Suc [of m ?s "n - Suc i"] Suc.prems by (simp add: Suc_diff_Suc)
  finally have step: "?m(?d := m ?s) = mem_write m ?d (mem_read m ?s (n - i))" .
  have "copy_down ?m d s (Suc i) = copy_down (mem_write m ?d (mem_read m ?s (n - i))) d s i"
    by (simp only: copy_down.simps rd step)
  also have "\<dots> = mem_write m d (mem_read m s n)"
    using Suc by simp
  also have "?m = mem_write m (d + of_nat (Suc i)) (mem_read m (s + of_nat (Suc i)) (n - Suc i))"
    by (simp add: ac_simps)
  finally show ?case .
qed

lemma memcpy_eq:
  assumes "unat n \<le> unat (src - dest)" and "unat (src - dest) + unat n \<le> 2 ^ 32"
  shows "memcpy m dest src n = mem_write m dest (mem_read m src (unat n))"
  using assms by (simp add: memcpy_def copy_up_start up_safe_disjoint)

lemma memmove_eq:
  assumes "unat src + unat n \<le> 2 ^ 32" and "unat dest + unat n \<le> 2 ^ 32"
  shows "memmove m dest src n = mem_write m dest (mem_read m src (unat n))"
proof (cases "dest < src")
  case True
  with assms(1) show ?thesis by (simp add: memmove_def copy_up_start up_safe_below)
next
  case False
  then have "src \<le> dest" by simp
  with False assms(2) copy_down_eq [of src dest "unat n" "unat n" m]
  show ?thesis by (simp add: memmove_def mem_read_def)
qed

lemma memcmp_loop_range: "memcmp_loop b1 b2 n i \<in> {-1, 0, 1}"
proof (induction b1 b2 n i rule: memcmp_loop.induct)
  case (1 b1 b2 n i)
  then show ?case by (subst memcmp_loop.simps) auto
qed

lemma memcmp_loop_0_iff: "memcmp_loop b1 b2 n i = 0 \<longleftrightarrow> (\<forall>j. i \<le> j \<and> j < n \<longrightarrow> b1 j = b2 j)"
proof (induction b1 b2 n i rule: memcmp_loop.induct)
  case (1 b1 b2 n i)
  show ?case
  proof (cases "i < n \<and> b1 i = b2 i")
    case True
    then have "memcmp_loop b1 b2 n i = memcmp_loop b1 b2 n (Suc i)"
      by (subst memcmp_loop.simps) simp
    moreover have "(\<forall>j. i \<le> j \<and> j < n \<longrightarrow> b1 j = b2 j)
        \<longleftrightarrow> (\<forall>j. Suc i \<le> j \<and> j < n \<longrightarrow> b1 j = b2 j)"
      using True by (metis Suc_leD le_antisym not_less_eq_eq)
    ultimately show ?thesis using 1 True by simp
  next
    case False
    then show ?thesis by (subst memcmp_loop.simps) auto
  qed
qed

lemma memcmp_loop_less_iff:
  "memcmp_loop b1 b2 n i = -1 \<longleftrightarrow>
     (\<exists>k. i \<le> k \<and> k < n \<and> b1 k < b2 k \<and> (\<forall>j. i \<le> j \<and> j < k \<longrightarrow> b1 j = b2 j))"
  (is "_ \<longleftrightarrow> ?less i")
proof (induction b1 b2 n i rule: memcmp_loop.induct)
  case (1 b1 b2 n i)
  let ?L = "\<lambda>i. \<exists>k. i \<le> k \<and> k < n \<and> b1 k < b2 k \<and> (\<forall>j. i \<le> j \<and> j < k \<longrightarrow> b1 j = b2 j)"
  consider (stop) "\<not> i < n" | (less) "i < n" "b1 i < b2 i" | (gr) "i < n" "b2 i < b1 i"
    | (eq) "i < n" "b1 i = b2 i" by fastforce
  then show ?case
  proof cases
    case stop
    then show ?thesis by (subst memcmp_loop.simps) auto
  next
    case less
    then show ?thesis by (subst memcmp_loop.simps) auto
  next
    case gr
    have "\<not> ?L i"
    proof
      assume "?L i"
      then obtain k where k: "i \<le> k" "k < n" "b1 k < b2 k" "\<forall>j. i \<le> j \<and> j < k \<longrightarrow> b1 j = b2 j"
        by blast
      with gr(2) have "i < k" by (metis le_neq_implies_less less_asym)
      with k(4) gr(2) show False by auto
    qed
    with gr show ?thesis by (subst memcmp_loop.simps) auto
  next
    case eq
    then have "memcmp_loop b1 b2 n i = memcmp_loop b1 b2 n (Suc i)"
      by (subst memcmp_loop.simps) simp
    moreover have "?L i \<longleftrightarrow> ?L (Suc i)"
      using eq(2) by (metis Suc_leD le_antisym less_irrefl not_less_eq_eq)
    ultimately show ?thesis using 1 eq by simp
  qed
qed

lemma memcmp_loop_swap: "memcmp_loop b2 b1 n i = - memcmp_loop b1 b2 n i"
proof (induction b1 b2 n i rule: memcmp_loop.induct)
  case (1 b1 b2 n i)
  then show ?case
    by (subst (1 2) memcmp_loop.simps) auto
qed

lemma memcmp_bytes_0_iff:
  assumes "n \<le> length xs" and "n \<le> length ys"
  shows "memcmp_bytes xs ys n = 0 \<longleftrightarrow> take n xs = take n ys"
  using assms by (auto simp: memcmp_bytes_def memcmp_loop_0_iff list_eq_iff_nth_eq)

lemma memcmp_bytes_eq [simp]:
  "length xs = n \<Longrightarrow> length ys = n \<Longrightarrow> memcmp_bytes xs ys n = 0 \<longleftrightarrow> xs = ys"
  by (simp add: memcmp_bytes_0_iff)

end
