(* ===== verification/Fat_Layout.thy ===== *)
theory Fat_Layout
  imports Block_Store String_C
begin

unbundle bit_operations_syntax

text \<open>
  The on-disk data of the FAT32 edition of the course (\<open>header/filesystem/fat32.h\<close>):
  the constants, the packed 32-byte directory entry, the directory table and the file
  allocation table that fill one cluster each, and the driver request. A cluster is four
  blocks; \<open>read_clusters\<close> and \<open>write_clusters\<close> are the wrappers of \<open>fat32.c\<close> over
  the block operations. Single clusters form a \<open>sector_store\<close>, and entries and tables
  are \<open>fixed_codec\<close>s, so what is written to a cluster as a table is read back as it.
\<close>

section \<open>Constants\<close>

abbreviation (input) BOOT_SECTOR :: u32 where "BOOT_SECTOR \<equiv> 0"
abbreviation (input) CLUSTER_BLOCK_COUNT :: nat where "CLUSTER_BLOCK_COUNT \<equiv> 4"
abbreviation (input) CLUSTER_SIZE :: nat where "CLUSTER_SIZE \<equiv> 2048"
abbreviation (input) CLUSTER_MAP_SIZE :: nat where "CLUSTER_MAP_SIZE \<equiv> 512"
abbreviation (input) CLUSTER_0_VALUE :: u32 where "CLUSTER_0_VALUE \<equiv> 0x0FFFFFF0"
abbreviation (input) CLUSTER_1_VALUE :: u32 where "CLUSTER_1_VALUE \<equiv> 0x0FFFFFFF"
abbreviation (input) FAT32_FAT_END_OF_FILE :: u32 where "FAT32_FAT_END_OF_FILE \<equiv> 0x0FFFFFFF"
abbreviation (input) FAT32_FAT_EMPTY_ENTRY :: u32 where "FAT32_FAT_EMPTY_ENTRY \<equiv> 0"
abbreviation (input) FAT_CLUSTER_NUMBER :: u32 where "FAT_CLUSTER_NUMBER \<equiv> 1"
abbreviation (input) ROOT_CLUSTER_NUMBER :: u32 where "ROOT_CLUSTER_NUMBER \<equiv> 2"
abbreviation (input) ATTR_SUBDIRECTORY :: byte where "ATTR_SUBDIRECTORY \<equiv> 0x10"
abbreviation (input) UATTR_NOT_EMPTY :: byte where "UATTR_NOT_EMPTY \<equiv> 0xAA"
abbreviation (input) DIR_ENTRIES :: nat where "DIR_ENTRIES \<equiv> 64"

section \<open>Clusters\<close>

definition cluster_to_lba :: "u32 \<Rightarrow> u32" where
  "cluster_to_lba cluster = of_nat CLUSTER_BLOCK_COUNT * cluster"

definition write_clusters :: "image \<Rightarrow> byte list \<Rightarrow> u32 \<Rightarrow> u8 \<Rightarrow> image" where
  "write_clusters img ptr cluster_number cluster_count =
     write_blocks img ptr (cluster_to_lba cluster_number) (cluster_count * of_nat CLUSTER_BLOCK_COUNT)"

definition read_clusters :: "image \<Rightarrow> u32 \<Rightarrow> u8 \<Rightarrow> byte list" where
  "read_clusters img cluster_number cluster_count =
     read_blocks img (cluster_to_lba cluster_number) (cluster_count * of_nat CLUSTER_BLOCK_COUNT)"

text \<open>A cluster whose four blocks lie below the bound of the 32-bit image offset.\<close>

definition cluster_valid :: "u32 \<Rightarrow> bool" where
  "cluster_valid c \<longleftrightarrow> unat c < 2 ^ 21"

lemma cluster_to_lba_valid: "cluster_valid c \<Longrightarrow> unat (cluster_to_lba c) = 4 * unat c"
  by (simp add: cluster_valid_def cluster_to_lba_def unat_word_ariths)

lemma cluster_fit: "cluster_valid c \<Longrightarrow> blocks_fit (cluster_to_lba c) 4"
  by (simp add: blocks_fit_def cluster_to_lba_valid) (simp add: cluster_valid_def)

lemma read_cluster_image:
  "cluster_valid c \<Longrightarrow> read_clusters img c 1 = image_read img (CLUSTER_SIZE * unat c) CLUSTER_SIZE"
  using read_blocks_fit [of "cluster_to_lba c" 4 img] cluster_fit [of c]
  by (simp add: read_clusters_def cluster_to_lba_valid)

lemma write_cluster_image:
  "cluster_valid c \<Longrightarrow> length bs = CLUSTER_SIZE \<Longrightarrow>
   write_clusters img bs c 1 = image_write img (CLUSTER_SIZE * unat c) bs"
  using write_blocks_fit [of "cluster_to_lba c" 4 bs img] cluster_fit [of c]
  by (simp add: write_clusters_def cluster_to_lba_valid)

lemma length_read_cluster [simp]: "length (read_clusters img c 1) = CLUSTER_SIZE"
  by (simp add: read_clusters_def)

interpretation clusters: sector_store "\<lambda>img c. read_clusters img c 1"
  "\<lambda>img c bs. write_clusters img bs c 1" CLUSTER_SIZE cluster_valid
proof unfold_locales
  fix a b :: u32 and bs :: "byte list" and s :: image
  assume bs: "length bs = CLUSTER_SIZE" and a: "cluster_valid a"
  then show "read_clusters (write_clusters s bs a 1) a 1 = bs"
    by (simp add: read_cluster_image write_cluster_image image_read_write)
  assume b: "cluster_valid b" and "a \<noteq> b"
  then have "unat a < unat b \<or> unat b < unat a" using word_unat_eq_iff nat_neq_iff by blast
  then show "read_clusters (write_clusters s bs a 1) b 1 = read_clusters s b 1"
    using a b bs by (auto simp: read_cluster_image write_cluster_image image_read_other)
qed simp

section \<open>Directory entries and requests\<close>

record dirent =
  name :: "byte list"
  ext :: "byte list"
  attribute :: byte
  user_attribute :: byte
  undelete :: byte
  create_time :: u16
  create_date :: u16
  access_date :: u16
  cluster_high :: u16
  modified_time :: u16
  modified_date :: u16
  cluster_low :: u16
  filesize :: u32

record request =
  buf :: u32
  rname :: "byte list"
  rext :: "byte list"
  parent_cluster_number :: u32
  buffer_size :: u32

text \<open>The array lengths that C fixes by type.\<close>

definition wf_dirent :: "dirent \<Rightarrow> bool" where
  "wf_dirent e \<longleftrightarrow> length (name e) = 8 \<and> length (ext e) = 3"

definition wf_request :: "request \<Rightarrow> bool" where
  "wf_request r \<longleftrightarrow> length (rname r) = 8 \<and> length (rext r) = 3"

definition zero_dirent :: dirent where
  "zero_dirent = \<lparr>name = replicate 8 0, ext = replicate 3 0, attribute = 0, user_attribute = 0,
     undelete = 0, create_time = 0, create_date = 0, access_date = 0, cluster_high = 0,
     modified_time = 0, modified_date = 0, cluster_low = 0, filesize = 0\<rparr>"

lemma zero_dirent_sel [simp]:
  "name zero_dirent = replicate 8 0" "ext zero_dirent = replicate 3 0"
  "attribute zero_dirent = 0" "user_attribute zero_dirent = 0"
  "cluster_low zero_dirent = 0" "cluster_high zero_dirent = 0" "filesize zero_dirent = 0"
  by (simp_all add: zero_dirent_def)

definition encode_dirent :: "dirent \<Rightarrow> byte list" where
  "encode_dirent e = name e @ ext e @ [attribute e, user_attribute e, undelete e]
     @ enc16 (create_time e) @ enc16 (create_date e) @ enc16 (access_date e)
     @ enc16 (cluster_high e) @ enc16 (modified_time e) @ enc16 (modified_date e)
     @ enc16 (cluster_low e) @ enc32 (filesize e)"

definition decode_dirent :: "byte list \<Rightarrow> dirent" where
  "decode_dirent bs = \<lparr>name = chunk 0 8 bs, ext = chunk 8 3 bs, attribute = bs ! 11,
     user_attribute = bs ! 12, undelete = bs ! 13,
     create_time = dec16 (chunk 14 2 bs), create_date = dec16 (chunk 16 2 bs),
     access_date = dec16 (chunk 18 2 bs), cluster_high = dec16 (chunk 20 2 bs),
     modified_time = dec16 (chunk 22 2 bs), modified_date = dec16 (chunk 24 2 bs),
     cluster_low = dec16 (chunk 26 2 bs), filesize = dec32 (chunk 28 4 bs)\<rparr>"

text \<open>\<open>(cluster_high << 16) | cluster_low\<close>, and the two halves an entry is given.\<close>

definition entry_cluster :: "dirent \<Rightarrow> u32" where
  "entry_cluster e = push_bit 16 (ucast (cluster_high e)) OR ucast (cluster_low e)"

definition low_half :: "u32 \<Rightarrow> u16" where
  "low_half c = ucast (c AND 0xFFFF)"

definition high_half :: "u32 \<Rightarrow> u16" where
  "high_half c = ucast (drop_bit 16 c AND 0xFFFF)"

lemma halves_join: "push_bit 16 (ucast (high_half c)) OR ucast (low_half c) = c"
proof -
  have m: "(0xFFFF :: u32) = mask 16" by (simp add: mask_eq_exp_minus_1)
  show ?thesis unfolding low_half_def high_half_def m
    by (rule bit_word_eqI) (auto simp: bit_simps)
qed

lemma entry_cluster_halves [simp]:
  "cluster_low e = low_half c \<Longrightarrow> cluster_high e = high_half c \<Longrightarrow> entry_cluster e = c"
  by (simp add: entry_cluster_def halves_join)

section \<open>Layouts\<close>

lemma length_encode_dirent: "wf_dirent e \<Longrightarrow> length (encode_dirent e) = 32"
  by (simp add: encode_dirent_def wf_dirent_def)

lemma wf_zero_dirent [simp]: "wf_dirent zero_dirent"
  by (simp add: wf_dirent_def)

lemma chunk_append_l: "i + n \<le> length xs \<Longrightarrow> chunk i n (xs @ ys) = chunk i n xs"
  by (simp add: chunk_def)

lemma chunk_append_r: "length xs \<le> i \<Longrightarrow> chunk i n (xs @ ys) = chunk (i - length xs) n ys"
  by (simp add: chunk_def)

lemma chunk_Cons: "0 < i \<Longrightarrow> chunk i n (x # xs) = chunk (i - 1) n xs"
  by (cases i) (simp_all add: chunk_def)

lemma chunk_all: "length xs = n \<Longrightarrow> chunk 0 n xs = xs"
  by (simp add: chunk_def)

lemma decode_encode_dirent: "wf_dirent e \<Longrightarrow> decode_dirent (encode_dirent e) = e"
  by (cases e)
    (simp add: decode_dirent_def encode_dirent_def wf_dirent_def nth_append
      chunk_append_l chunk_append_r chunk_Cons chunk_all)

lemma encode_decode_dirent:
  assumes "length bs = 32"
  shows "encode_dirent (decode_dirent bs) = bs"
proof -
  have split: "chunk i a bs @ chunk (i + a) b bs = chunk i (a + b) bs" for i a b
    by (simp add: chunk_def take_add add.commute)
  have one: "[bs ! 11, bs ! 12, bs ! 13] = chunk 11 3 bs"
    using assms by (intro nth_equalityI) (auto simp: less_Suc_eq numeral_3_eq_3)
  have "encode_dirent (decode_dirent bs) = chunk 0 8 bs @ chunk 8 3 bs @ chunk 11 3 bs
      @ chunk 14 2 bs @ chunk 16 2 bs @ chunk 18 2 bs @ chunk 20 2 bs @ chunk 22 2 bs
      @ chunk 24 2 bs @ chunk 26 2 bs @ chunk 28 4 bs"
    using assms by (simp add: encode_dirent_def decode_dirent_def one)
  also have "\<dots> = chunk 0 32 bs"
    using split [of 26 2 4] split [of 24 2 6] split [of 22 2 8] split [of 20 2 10] split [of 18 2 12]
      split [of 16 2 14] split [of 14 2 16] split [of 11 3 18] split [of 8 3 21] split [of 0 8 24]
    by simp
  finally show ?thesis using assms by (simp add: chunk_def)
qed

lemma wf_decode_dirent: "length bs = 32 \<Longrightarrow> wf_dirent (decode_dirent bs)"
  by (simp add: wf_dirent_def decode_dirent_def)

interpretation entries: fixed_codec encode_dirent decode_dirent 32 wf_dirent
  by unfold_locales
    (simp_all add: length_encode_dirent decode_encode_dirent encode_decode_dirent wf_decode_dirent)

definition encode_table :: "dirent list \<Rightarrow> byte list" where
  "encode_table es = encode_array encode_dirent es"

definition decode_table :: "byte list \<Rightarrow> dirent list" where
  "decode_table bs = decode_array decode_dirent 32 DIR_ENTRIES bs"

definition encode_fat :: "u32 list \<Rightarrow> byte list" where
  "encode_fat fat = encode_array enc32 fat"

definition decode_fat :: "byte list \<Rightarrow> u32 list" where
  "decode_fat bs = decode_array dec32 4 CLUSTER_MAP_SIZE bs"

definition wf_table :: "dirent list \<Rightarrow> bool" where
  "wf_table es \<longleftrightarrow> length es = DIR_ENTRIES \<and> list_all wf_dirent es"

lemma length_encode_table [simp]: "wf_table es \<Longrightarrow> length (encode_table es) = CLUSTER_SIZE"
  by (simp add: encode_table_def wf_table_def entries.length_encode)

lemma decode_encode_table [simp]: "wf_table es \<Longrightarrow> decode_table (encode_table es) = es"
  by (simp add: encode_table_def decode_table_def wf_table_def entries.decode_encode)

lemma encode_decode_table [simp]: "length bs = CLUSTER_SIZE \<Longrightarrow> encode_table (decode_table bs) = bs"
  by (simp add: encode_table_def decode_table_def entries.encode_decode)

lemma wf_decode_table [simp]: "length bs = CLUSTER_SIZE \<Longrightarrow> wf_table (decode_table bs)"
  by (simp add: wf_table_def decode_table_def entries.ok_decode)

lemma wf_table_update [simp]: "wf_table es \<Longrightarrow> wf_dirent e \<Longrightarrow> wf_table (es[i := e])"
  by (cases "i < length es") (auto simp: wf_table_def list_all_length nth_list_update)

lemma length_encode_fat [simp]: "length fat = CLUSTER_MAP_SIZE \<Longrightarrow> length (encode_fat fat) = CLUSTER_SIZE"
  by (simp add: encode_fat_def word32.length_encode list_all_iff)

lemma decode_encode_fat [simp]: "length fat = CLUSTER_MAP_SIZE \<Longrightarrow> decode_fat (encode_fat fat) = fat"
  by (simp add: encode_fat_def decode_fat_def word32.decode_encode list_all_iff)

lemma encode_decode_fat [simp]: "length bs = CLUSTER_SIZE \<Longrightarrow> encode_fat (decode_fat bs) = bs"
  by (simp add: encode_fat_def decode_fat_def word32.encode_decode)

end
