(* ===== verification/Fat_Chain.thy ===== *)
theory Fat_Chain
  imports Fat_Layout
begin

text \<open>
  Cluster chains of the file allocation table. \<open>chain fat c cs\<close> says that following
  the table from cluster \<open>c\<close> visits exactly the clusters \<open>cs\<close> and then meets the
  end-of-file mark, inside the table throughout. A chain is unique and never repeats a
  cluster; it depends on the entries of its own clusters only. \<open>closed_set\<close> is the
  opposite situation, a set of clusters that following the table never leaves.

  \<open>cluster_map[i]\<close> is an array access without a bounds check in C: \<open>fat_get\<close> and
  \<open>fat_set\<close> end with a fault past the 512 entries.
\<close>

definition fat_get :: "u32 list \<Rightarrow> u32 \<Rightarrow> u32 outcome" where
  "fat_get fat c = (if unat c < length fat then Inr (fat ! unat c) else Inl OutOfBounds)"

definition fat_set :: "u32 list \<Rightarrow> u32 \<Rightarrow> u32 \<Rightarrow> u32 list outcome" where
  "fat_set fat c v = (if unat c < length fat then Inr (fat[unat c := v]) else Inl OutOfBounds)"

lemma fat_get_in [simp]: "unat c < length fat \<Longrightarrow> fat_get fat c = Inr (fat ! unat c)"
  by (simp add: fat_get_def)

lemma fat_set_in [simp]: "unat c < length fat \<Longrightarrow> fat_set fat c v = Inr (fat[unat c := v])"
  by (simp add: fat_set_def)

lemma fat_get_Inr_iff: "fat_get fat c = Inr v \<longleftrightarrow> unat c < length fat \<and> v = fat ! unat c"
  by (auto simp: fat_get_def)

lemma nth_update_word:
  "fat[unat c := v] ! unat d = (if c = d \<and> unat c < length fat then v else fat ! unat d)"
proof (cases "c = d")
  case True
  then show ?thesis by (cases "unat c < length fat") (simp_all add: list_update_beyond)
next
  case False
  then have "unat c \<noteq> unat d" by (simp add: word_unat_eq_iff)
  with False show ?thesis by simp
qed

section \<open>Chains\<close>

fun chain :: "u32 list \<Rightarrow> u32 \<Rightarrow> u32 list \<Rightarrow> bool" where
  "chain fat c [] \<longleftrightarrow> c = FAT32_FAT_END_OF_FILE"
| "chain fat c (d # ds) \<longleftrightarrow>
     c = d \<and> c \<noteq> FAT32_FAT_END_OF_FILE \<and> unat c < length fat \<and> chain fat (fat ! unat c) ds"

lemma chain_EOF [simp]: "chain fat FAT32_FAT_END_OF_FILE cs \<longleftrightarrow> cs = []"
  by (cases cs) auto

lemma chain_not_EOF: "c \<noteq> FAT32_FAT_END_OF_FILE \<Longrightarrow>
  chain fat c cs \<longleftrightarrow> (\<exists>ds. cs = c # ds \<and> unat c < length fat \<and> chain fat (fat ! unat c) ds)"
  by (cases cs) auto

lemma chain_unique: "chain fat c cs \<Longrightarrow> chain fat c ds \<Longrightarrow> cs = ds"
proof (induction cs arbitrary: c ds)
  case Nil
  then show ?case by simp
next
  case (Cons d cs)
  then show ?case by (auto simp: chain_not_EOF)
qed

lemma chain_split: "chain fat c (xs @ d # ys) \<Longrightarrow> chain fat d (d # ys)"
  by (induction xs arbitrary: c) auto

lemma chain_distinct: "chain fat c cs \<Longrightarrow> distinct cs"
proof (induction cs arbitrary: c)
  case Nil
  then show ?case by simp
next
  case (Cons d cs)
  have "d \<notin> set cs"
  proof
    assume "d \<in> set cs"
    then obtain xs ys where cs: "cs = xs @ d # ys" by (meson split_list)
    with Cons.prems have "chain fat (fat ! unat d) (xs @ d # ys)" by auto
    then have "chain fat d (d # ys)" by (rule chain_split)
    moreover have "chain fat d (d # xs @ d # ys)" using Cons.prems cs by auto
    ultimately have "d # ys = d # xs @ d # ys" by (rule chain_unique)
    then show False by simp
  qed
  with Cons show ?case by auto
qed

lemma chain_bounds: "chain fat c cs \<Longrightarrow> d \<in> set cs \<Longrightarrow> unat d < length fat"
  by (induction cs arbitrary: c) auto

lemma chain_no_EOF: "chain fat c cs \<Longrightarrow> FAT32_FAT_END_OF_FILE \<notin> set cs"
  by (induction cs arbitrary: c) auto

text \<open>A chain reads only the entries of its own clusters.\<close>

lemma chain_cong:
  assumes "length fat' = length fat" and "\<forall>d \<in> set cs. fat' ! unat d = fat ! unat d"
  shows "chain fat' c cs = chain fat c cs"
  using assms(2)
proof (induction cs arbitrary: c)
  case Nil
  then show ?case by simp
next
  case (Cons d cs)
  then show ?case using assms(1) by auto
qed

lemma chain_update_other:
  "d \<notin> set cs \<Longrightarrow> chain (fat[unat d := v]) c cs = chain fat c cs"
  by (rule chain_cong) (auto simp: nth_update_word)

lemma chain_length: "chain fat c cs \<Longrightarrow> length cs \<le> length fat"
proof -
  assume a: "chain fat c cs"
  have "unat ` set cs \<subseteq> {..<length fat}" using chain_bounds [OF a] by auto
  then have "card (unat ` set cs) \<le> length fat"
    by (metis card_mono card_lessThan finite_lessThan)
  moreover have "card (unat ` set cs) = card (set cs)"
    by (intro card_image inj_onI) (simp add: word_unat_eq_iff)
  ultimately show ?thesis
    using chain_distinct [OF a] by (simp add: distinct_card)
qed

text \<open>
  Every cluster of a chain is in use when entry 0 does not lead into one: following the
  table out of a free entry means following it to cluster 0.
\<close>

lemma chain_in_use:
  assumes "chain fat c cs" and "d \<in> set cs"
    and "\<not> (\<exists>ds. chain fat 0 ds)"
  shows "fat ! unat d \<noteq> 0"
proof
  assume free: "fat ! unat d = 0"
  obtain xs ys where "cs = xs @ d # ys" using assms(2) by (meson split_list)
  with assms(1) have "chain fat d (d # ys)" by (auto dest: chain_split)
  with free have "chain fat 0 ys" by simp
  with assms(3) show False by blast
qed

lemma no_chain_from_0:
  assumes "length fat = CLUSTER_MAP_SIZE" and "fat ! 0 = CLUSTER_0_VALUE"
  shows "\<not> chain fat 0 ds"
proof
  assume "chain fat 0 ds"
  then have "\<exists>es. chain fat CLUSTER_0_VALUE es"
    using assms by (auto simp: chain_not_EOF)
  then show False using assms(1) by (auto simp: chain_not_EOF)
qed

section \<open>Clusters that are never left\<close>

definition closed_set :: "u32 list \<Rightarrow> u32 set \<Rightarrow> bool" where
  "closed_set fat S \<longleftrightarrow>
     (\<forall>c \<in> S. unat c < length fat \<and> c \<noteq> FAT32_FAT_END_OF_FILE \<and> fat ! unat c \<in> S)"

lemma closed_set_no_chain: "closed_set fat S \<Longrightarrow> c \<in> S \<Longrightarrow> \<not> chain fat c cs"
  by (induction cs arbitrary: c) (auto simp: closed_set_def)

end
