(* ===== verification/Fat32.thy ===== *)
theory Fat32
  imports Complex_Main Fat_Chain
begin

unbundle bit_operations_syntax

text \<open>
  The driver operations of \<open>src/fat32.c\<close>, branch by branch. The state \<open>fs\<close> holds
  the storage device, the driver's cached allocation table and directory buffer
  (\<open>fat32_driverstate\<close>), and the memory that \<open>request.buf\<close> points into. Stack
  variables are values: a directory table read from a cluster is \<open>decode_table\<close> of
  its bytes, and one written to a cluster is \<open>encode_table\<close> of it.

  Every operation returns the C return code with the new state. An access past the end
  of \<open>cluster_map\<close>, or a read of a slot buffer of length zero, ends with a \<open>fault\<close>;
  the two loops that follow a chain may also not return (\<open>None\<close>).
\<close>

section \<open>State\<close>

record fs =
  storage :: image
  fat_table :: "u32 list"
  dir_table_buf :: "dirent list"
  memory :: memory

abbreviation rd where "rd \<equiv> \<lambda>img c. read_clusters img c 1"
abbreviation wr where "wr \<equiv> \<lambda>img c bs. write_clusters img bs c 1"
abbreviation dir_at where "dir_at \<equiv> \<lambda>img c. decode_table (read_clusters img c 1)"

section \<open>Formatting and mounting\<close>

definition fs_signature :: "byte list" where
  "fs_signature =
     str ''Course          '' @ str ''Designed by     '' @ str ''Lab Sister ITB  ''
     @ str ''Made with <3    '' @ str ''-----------2024'' @ [10]
     @ replicate 430 0 @ str ''Ok''"

fun copy_name :: "byte list \<Rightarrow> nat \<Rightarrow> byte list \<Rightarrow> byte list" where
  "copy_name dst i [] = dst"
| "copy_name dst i (c # cs) =
     (if c \<noteq> 0 \<and> i < 8 then copy_name (dst[i := c]) (Suc i) cs else dst)"

definition init_directory_table :: "image \<Rightarrow> dirent list \<Rightarrow> byte list \<Rightarrow> u32 \<Rightarrow> dirent list" where
  "init_directory_table img dir_table nm parent_dir_cluster =
     (let current_dir = (dir_table ! 0)\<lparr>name := copy_name (replicate 8 0) 0 nm,
            attribute := ATTR_SUBDIRECTORY, user_attribute := UATTR_NOT_EMPTY\<rparr>;
          t = dir_at img parent_dir_cluster;
          parent_dir = (dir_table ! 1)\<lparr>name := name (t ! 0),
            attribute := ATTR_SUBDIRECTORY, user_attribute := UATTR_NOT_EMPTY,
            cluster_low := low_half parent_dir_cluster,
            cluster_high := high_half parent_dir_cluster\<rparr>
      in dir_table[0 := current_dir, 1 := parent_dir])"

definition is_empty_storage :: "fs \<Rightarrow> bool" where
  "is_empty_storage st \<longleftrightarrow>
     memcmp_bytes (read_blocks (storage st) BOOT_SECTOR 1) fs_signature BLOCK_SIZE \<noteq> 0"

definition create_fat32 :: "fs \<Rightarrow> fs" where
  "create_fat32 st =
     (let s1 = write_blocks (storage st) fs_signature BOOT_SECTOR 1;
          fat = (replicate CLUSTER_MAP_SIZE 0)
            [0 := CLUSTER_0_VALUE, 1 := CLUSTER_1_VALUE, 2 := FAT32_FAT_END_OF_FILE];
          s2 = wr s1 FAT_CLUSTER_NUMBER (encode_fat fat);
          b = str ''root'' @ replicate 508 0;
          s3 = write_blocks s2 b (cluster_to_lba 2) 1;
          dir = init_directory_table s3 (replicate DIR_ENTRIES zero_dirent)
            (str ''root'' @ [0]) ROOT_CLUSTER_NUMBER;
          s4 = wr s3 ROOT_CLUSTER_NUMBER (encode_table dir)
      in st\<lparr>storage := s4, fat_table := fat, dir_table_buf := dir\<rparr>)"

definition initialize_filesystem_fat32 :: "fs \<Rightarrow> fs" where
  "initialize_filesystem_fat32 st =
     (if is_empty_storage st then create_fat32 st
      else st\<lparr>fat_table := decode_fat (rd (storage st) FAT_CLUSTER_NUMBER)\<rparr>)"

section \<open>Free clusters and cluster counts\<close>

function count_slots_loop :: "u32 list \<Rightarrow> u8 \<Rightarrow> u8 \<Rightarrow> nat \<Rightarrow> u32 list \<Rightarrow> u8 \<times> u32 list" where
  "count_slots_loop fat required count i slots =
     (if count < required \<and> i < CLUSTER_MAP_SIZE then
        (if fat ! i = FAT32_FAT_EMPTY_ENTRY
         then count_slots_loop fat required (count + 1) (Suc i) (slots @ [of_nat i])
         else count_slots_loop fat required count (Suc i) slots)
      else (count, slots))"
  by pat_completeness auto
termination
  by (relation "measure (\<lambda>(fat, required, count, i, slots). CLUSTER_MAP_SIZE - i)") auto

declare count_slots_loop.simps [simp del]

definition count_empty_fat_slots :: "u32 list \<Rightarrow> u8 \<Rightarrow> u8 \<times> u32 list" where
  "count_empty_fat_slots fat required = count_slots_loop fat required 0 0 []"

text \<open>
  \<open>(int)n\<close> drops the fraction; a comparison of the integer with the float is exact for
  the values that arise. The result is converted to \<open>uint8_t\<close>, so it wraps at 256.
\<close>

definition c_int :: "rat \<Rightarrow> int" where
  "c_int n = (if 0 \<le> n then \<lfloor>n\<rfloor> else \<lceil>n\<rceil>)"

definition ceil :: "rat \<Rightarrow> u8" where
  "ceil n = (if of_int (c_int n) = n then of_int (c_int n) else of_int (c_int n + 1))"

definition c_floor :: "rat \<Rightarrow> u8" where
  "c_floor n = (if of_int (c_int n) = n then of_int (c_int n) else of_int (c_int n - 1))"

text \<open>
  The conversion of a \<open>uint32_t\<close> to \<open>float\<close>: 24 significant bits, ties to even. The
  division by the power of two 2048 is exact.
\<close>

fun f32_exponent :: "nat \<Rightarrow> nat" where
  "f32_exponent n = (if n < 2 ^ 24 then 0 else Suc (f32_exponent (n div 2)))"

declare f32_exponent.simps [simp del]

definition round_f32 :: "nat \<Rightarrow> nat" where
  "round_f32 n =
     (let u = 2 ^ f32_exponent n; q = n div u; r = n mod u
      in if 2 * r < u \<or> (2 * r = u \<and> even q) then q * u else (q + 1) * u)"

definition size_in_clusters :: "u32 \<Rightarrow> rat" where
  "size_in_clusters n = of_nat (round_f32 (unat n)) / of_nat CLUSTER_SIZE"

section \<open>Scanning a directory table\<close>

definition entry_matches :: "request \<Rightarrow> dirent \<Rightarrow> bool" where
  "entry_matches r e \<longleftrightarrow>
     memcmp_bytes (name e) (rname r) 8 = 0 \<and> memcmp_bytes (ext e) (rext r) 3 = 0"

text \<open>The first entry with a property, with its index: the \<open>for\<close> loops that return on a match.\<close>

fun find_entry :: "(dirent \<Rightarrow> bool) \<Rightarrow> nat \<Rightarrow> dirent list \<Rightarrow> (nat \<times> dirent) option" where
  "find_entry P i [] = None"
| "find_entry P i (e # es) = (if P e then Some (i, e) else find_entry P (Suc i) es)"

section \<open>read_directory and read\<close>

definition fat32_read_directory :: "request \<Rightarrow> fs \<Rightarrow> i8 \<times> fs" where
  "fat32_read_directory r st =
     (case find_entry (\<lambda>e. user_attribute e = UATTR_NOT_EMPTY \<and> entry_matches r e) 0
             (dir_at (storage st) (parent_cluster_number r)) of
        None \<Rightarrow> (2, st)
      | Some (i, e) \<Rightarrow>
          if attribute e = ATTR_SUBDIRECTORY then
            if buffer_size r < 32 then (-1, st)
            else (0, st\<lparr>memory := mem_write (memory st) (buf r) (rd (storage st) (entry_cluster e))\<rparr>)
          else (1, st))"

partial_function (option) read_loop :: "u32 \<Rightarrow> u32 \<Rightarrow> u32 \<Rightarrow> fs \<Rightarrow> fs run" where
  "read_loop dest current_cluster clusters_read st =
     (if current_cluster = FAT32_FAT_END_OF_FILE then Some (Inr st)
      else
        (let st' = st\<lparr>memory := mem_write (memory st)
               (dest + clusters_read * of_nat CLUSTER_SIZE) (rd (storage st) current_cluster)\<rparr>
         in case fat_get (fat_table st') current_cluster of
              Inl e \<Rightarrow> Some (Inl e)
            | Inr next \<Rightarrow> read_loop dest next (clusters_read + 1) st'))"

definition fat32_read :: "request \<Rightarrow> fs \<Rightarrow> (i8 \<times> fs) run" where
  "fat32_read r st =
     (case fat_get (fat_table st) (parent_cluster_number r) of
        Inl e \<Rightarrow> Some (Inl e)
      | Inr v \<Rightarrow>
          if v \<noteq> FAT32_FAT_END_OF_FILE then Some (Inr (2, st))
          else case find_entry (entry_matches r) 0 (dir_at (storage st) (parent_cluster_number r)) of
            None \<Rightarrow> Some (Inr (2, st))
          | Some (i, e) \<Rightarrow>
              if attribute e = 0x10 then Some (Inr (1, st))
              else if buffer_size r div of_nat CLUSTER_SIZE < ucast (ceil (size_in_clusters (filesize e)))
              then Some (Inr (-1, st))
              else map_option (map_sum id (Pair 0)) (read_loop (buf r) (entry_cluster e) 0 st))"

section \<open>write\<close>

text \<open>The scan of the parent table: \<open>None\<close> when the name exists, else the empty slot found (0 for none).\<close>

fun write_scan :: "request \<Rightarrow> nat \<Rightarrow> nat \<Rightarrow> dirent list \<Rightarrow> nat option" where
  "write_scan r i dirtable_empty_slot [] = Some dirtable_empty_slot"
| "write_scan r i dirtable_empty_slot (e # es) =
     (let slot = (if user_attribute e \<noteq> UATTR_NOT_EMPTY \<and> dirtable_empty_slot = 0
                  then i else dirtable_empty_slot)
      in if entry_matches r e then None else write_scan r (Suc i) slot es)"

definition write_folder :: "request \<Rightarrow> u32 \<Rightarrow> fs \<Rightarrow> fs" where
  "write_folder r c st =
     (let child_dir = init_directory_table (storage st) (replicate DIR_ENTRIES zero_dirent)
            (rname r) (parent_cluster_number r);
          child = (child_dir ! 0)\<lparr>cluster_low := low_half c, cluster_high := high_half c\<rparr>;
          s1 = wr (storage st) c (encode_table (child_dir[0 := child]));
          fat = (fat_table st)[unat c := FAT32_FAT_END_OF_FILE];
          s2 = wr s1 FAT_CLUSTER_NUMBER (encode_fat fat)
      in st\<lparr>storage := s2, fat_table := fat\<rparr>)"

text \<open>The loop over \<open>slot_buf\<close>: link the cluster, write the table, write one cluster of data.\<close>

fun write_file_loop :: "u32 \<Rightarrow> u32 list \<Rightarrow> fs \<Rightarrow> fs" where
  "write_file_loop src [] st = st"
| "write_file_loop src (cluster_num # rest) st =
     (let next_cluster = (case rest of [] \<Rightarrow> FAT32_FAT_END_OF_FILE | n # _ \<Rightarrow> n);
          fat = (fat_table st)[unat cluster_num := next_cluster];
          s1 = wr (storage st) FAT_CLUSTER_NUMBER (encode_fat fat);
          s2 = wr s1 cluster_num (mem_read (memory st) src CLUSTER_SIZE)
      in write_file_loop (src + of_nat CLUSTER_SIZE) rest (st\<lparr>storage := s2, fat_table := fat\<rparr>))"

definition new_entry :: "request \<Rightarrow> bool \<Rightarrow> u32 \<Rightarrow> dirent" where
  "new_entry r isFolder c = zero_dirent\<lparr>name := rname r, ext := rext r,
     attribute := (if isFolder then ATTR_SUBDIRECTORY else 0),
     user_attribute := UATTR_NOT_EMPTY,
     cluster_low := low_half c, cluster_high := high_half c,
     filesize := buffer_size r\<rparr>"

definition clusters_required :: "u32 \<Rightarrow> u8" where
  "clusters_required n = (if n = 0 then ceil (size_in_clusters n) + 1 else ceil (size_in_clusters n))"

text \<open>
  The part of \<open>write\<close> after its checks: fill the clusters of \<open>slot_buf\<close>, then store the new
  entry in the parent table read before. With an empty slot buffer \<open>slot_buf[0]\<close> is read
  uninitialised.
\<close>

definition write_commit :: "request \<Rightarrow> dirent list \<Rightarrow> nat \<Rightarrow> u32 list \<Rightarrow> fs \<Rightarrow> (i8 \<times> fs) outcome" where
  "write_commit r dir_table slot slot_buf st =
     (case slot_buf of
        [] \<Rightarrow> Inl Uninitialised
      | c # _ \<Rightarrow>
          let isFolder = (buffer_size r = 0);
              st1 = (if isFolder then write_folder r c st
                     else write_file_loop (buf r) slot_buf st);
              entry = new_entry r isFolder c
          in Inr (0, st1\<lparr>storage := wr (storage st1) (parent_cluster_number r)
                (encode_table (dir_table[slot := entry]))\<rparr>))"

definition fat32_write :: "request \<Rightarrow> fs \<Rightarrow> (i8 \<times> fs) outcome" where
  "fat32_write r st =
     bind_outcome (fat_get (fat_table st) (parent_cluster_number r)) (\<lambda>v.
       if v \<noteq> FAT32_FAT_END_OF_FILE then Inr (2, st)
       else
         let dir_table = dir_at (storage st) (parent_cluster_number r)
         in case write_scan r 0 0 dir_table of
              None \<Rightarrow> Inr (1, st)
            | Some slot \<Rightarrow>
                if slot = 0 then Inr (-1, st)
                else
                  let required = clusters_required (buffer_size r)
                  in case count_empty_fat_slots (fat_table st) required of
                       (empty_slots, slot_buf) \<Rightarrow>
                         if empty_slots < required then Inr (-1, st)
                         else write_commit r dir_table slot slot_buf st)"

section \<open>delete\<close>

fun folder_empty :: "dirent list \<Rightarrow> bool" where
  "folder_empty [] = True"
| "folder_empty (e # es) = (if user_attribute e = UATTR_NOT_EMPTY then False else folder_empty es)"

partial_function (option) delete_loop :: "u32 \<Rightarrow> fs \<Rightarrow> fs run" where
  "delete_loop current_cluster st =
     (case fat_get (fat_table st) current_cluster of
        Inl e \<Rightarrow> Some (Inl e)
      | Inr next_cluster \<Rightarrow>
          (let st' = st\<lparr>fat_table := (fat_table st)[unat current_cluster := FAT32_FAT_EMPTY_ENTRY],
                 storage := wr (storage st) current_cluster (replicate CLUSTER_SIZE 0)\<rparr>
           in if next_cluster \<noteq> FAT32_FAT_END_OF_FILE then delete_loop next_cluster st'
              else Some (Inr st')))"

definition fat32_delete :: "request \<Rightarrow> fs \<Rightarrow> (i8 \<times> fs) run" where
  "fat32_delete r st =
     (case fat_get (fat_table st) (parent_cluster_number r) of
        Inl e \<Rightarrow> Some (Inl e)
      | Inr v \<Rightarrow>
          if v \<noteq> FAT32_FAT_END_OF_FILE then Some (Inr (2, st))
          else
            let dir_table = dir_at (storage st) (parent_cluster_number r)
            in case find_entry (entry_matches r) 0 dir_table of
                 None \<Rightarrow> Some (Inr (1, st))
               | Some (i, e) \<Rightarrow>
                   if attribute e = ATTR_SUBDIRECTORY
                      \<and> \<not> folder_empty (drop 2 (dir_at (storage st) (entry_cluster e)))
                   then Some (Inr (2, st))
                   else
                     let st1 = st\<lparr>storage := wr (storage st) (parent_cluster_number r)
                           (encode_table (dir_table[i := zero_dirent]))\<rparr>
                     in map_option (map_sum id (\<lambda>st2. (0, st2\<lparr>storage :=
                            wr (storage st2) FAT_CLUSTER_NUMBER (encode_fat (fat_table st2))\<rparr>)))
                          (delete_loop (entry_cluster e) st1))"

end
