(* ===== verification/Fat32_Scans.thy ===== *)
theory Fat32_Scans
  imports Fat32
begin

unbundle bit_operations_syntax

text \<open>
  What the loops of \<open>fat32.c\<close> that only look compute: the directory scans return the
  first matching entry and the first empty slot past entry 0, the slot count returns the
  first free clusters in order, and the cluster count of a size is its quotient by the
  cluster size rounded up, reduced modulo 256 by the \<open>uint8_t\<close> it is held in.
\<close>

section \<open>Directory scans\<close>

lemma find_entry_Some_iff:
  "find_entry P i es = Some (j, e) \<longleftrightarrow>
     i \<le> j \<and> j < i + length es \<and> e = es ! (j - i) \<and> P e \<and> (\<forall>k < j - i. \<not> P (es ! k))"
proof (induction es arbitrary: i)
  case Nil
  then show ?case by simp
next
  case (Cons a es)
  show ?case
  proof (cases "P a")
    case True
    then show ?thesis by (auto simp: nth_Cons split: nat.splits)
  next
    case False
    show ?thesis
    proof (cases "j \<le> i")
      case True
      with False Cons show ?thesis by (auto simp: nth_Cons split: nat.splits)
    next
      case nle: False
      then obtain d where d: "j - i = Suc d" "j - Suc i = d" by (metis Suc_diff_Suc not_le)
      with False Cons nle show ?thesis
        by (auto simp: All_less_Suc2)
    qed
  qed
qed

lemma find_entry_0_Some_iff:
  "find_entry P 0 es = Some (j, e) \<longleftrightarrow> j < length es \<and> e = es ! j \<and> P e \<and> (\<forall>k < j. \<not> P (es ! k))"
  by (auto simp: find_entry_Some_iff)

lemma find_entry_None_iff: "find_entry P i es = None \<longleftrightarrow> (\<forall>e \<in> set es. \<not> P e)"
  by (induction es arbitrary: i) auto

lemma find_entry_0_unique:
  assumes "j < length es" and "P (es ! j)" and "\<And>k. k < length es \<Longrightarrow> P (es ! k) \<Longrightarrow> k = j"
  shows "find_entry P 0 es = Some (j, es ! j)"
  unfolding find_entry_0_Some_iff using assms by (metis less_irrefl less_trans)

lemma entry_matches_iff:
  "wf_dirent e \<Longrightarrow> wf_request r \<Longrightarrow> entry_matches r e \<longleftrightarrow> name e = rname r \<and> ext e = rext r"
  by (simp add: entry_matches_def wf_dirent_def wf_request_def)

text \<open>An index that the slot scan may return.\<close>

definition dead_slot :: "dirent list \<Rightarrow> nat \<Rightarrow> bool" where
  "dead_slot es j \<longleftrightarrow> 0 < j \<and> j < length es \<and> user_attribute (es ! j) \<noteq> UATTR_NOT_EMPTY"

lemma write_scan_None_iff: "write_scan r i s es = None \<longleftrightarrow> (\<exists>e \<in> set es. entry_matches r e)"
  by (induction es arbitrary: i s) (auto simp: Let_def)

lemma write_scan_taken: "write_scan r i (Suc s) es = Some slot \<Longrightarrow> slot = Suc s"
  by (induction es arbitrary: i) (auto simp: Let_def split: if_splits)

lemma write_scan_Suc:
  "write_scan r (Suc i) 0 es = Some slot \<Longrightarrow>
   if \<exists>e \<in> set es. user_attribute e \<noteq> UATTR_NOT_EMPTY
   then Suc i \<le> slot \<and> slot < Suc i + length es \<and> user_attribute (es ! (slot - Suc i)) \<noteq> UATTR_NOT_EMPTY
     \<and> (\<forall>k < slot - Suc i. user_attribute (es ! k) = UATTR_NOT_EMPTY)
   else slot = 0"
proof (induction es arbitrary: i)
  case Nil
  then show ?case by simp
next
  case (Cons e es)
  show ?case
  proof (cases "user_attribute e = UATTR_NOT_EMPTY")
    case False
    with Cons.prems have "write_scan r (Suc (Suc i)) (Suc i) es = Some slot"
      by (auto simp: Let_def split: if_splits)
    then have "slot = Suc i" by (rule write_scan_taken)
    with False show ?thesis by simp
  next
    case True
    with Cons.prems have "write_scan r (Suc (Suc i)) 0 es = Some slot"
      by (auto simp: Let_def split: if_splits)
    note IH = Cons.IH [OF this]
    show ?thesis
    proof (cases "\<exists>e \<in> set es. user_attribute e \<noteq> UATTR_NOT_EMPTY")
      case some: True
      with IH obtain d where "slot - Suc i = Suc d" "slot - Suc (Suc i) = d" "Suc (Suc i) \<le> slot"
        by (metis Suc_diff_Suc Suc_le_eq)
      with IH some True show ?thesis by (auto simp: All_less_Suc2)
    next
      case False
      with IH True show ?thesis by auto
    qed
  qed
qed

text \<open>The scan of a whole table: no match, and the first dead slot past entry 0 if there is one.\<close>

lemma write_scan_Some:
  assumes "write_scan r 0 0 es = Some slot"
  shows "\<forall>e \<in> set es. \<not> entry_matches r e"
    and "slot = 0 \<longleftrightarrow> (\<forall>j. \<not> dead_slot es j)"
    and "slot \<noteq> 0 \<Longrightarrow> dead_slot es slot \<and> (\<forall>j. dead_slot es j \<longrightarrow> slot \<le> j)"
proof -
  show "\<forall>e \<in> set es. \<not> entry_matches r e"
    using assms write_scan_None_iff [of r 0 0 es] by auto
  have main: "(slot = 0 \<longleftrightarrow> (\<forall>j. \<not> dead_slot es j)) \<and>
      (slot \<noteq> 0 \<longrightarrow> dead_slot es slot \<and> (\<forall>j. dead_slot es j \<longrightarrow> slot \<le> j))"
  proof (cases es)
    case Nil
    with assms show ?thesis by (auto simp: dead_slot_def)
  next
    case (Cons e tl)
    have dead: "dead_slot es j \<longleftrightarrow> (\<exists>k. j = Suc k \<and> k < length tl \<and> user_attribute (tl ! k) \<noteq> UATTR_NOT_EMPTY)" for j
      by (cases j) (auto simp: dead_slot_def Cons)
    from assms Cons have sc: "write_scan r (Suc 0) 0 tl = Some slot"
      by (auto simp: Let_def split: if_splits)
    show ?thesis
    proof (cases "\<exists>e \<in> set tl. user_attribute e \<noteq> UATTR_NOT_EMPTY")
      case True
      with write_scan_Suc [OF sc] have s: "Suc 0 \<le> slot" "slot < Suc 0 + length tl"
        "user_attribute (tl ! (slot - 1)) \<noteq> UATTR_NOT_EMPTY"
        "\<forall>k < slot - 1. user_attribute (tl ! k) = UATTR_NOT_EMPTY" by auto
      then have "dead_slot es slot" by (auto simp: dead intro!: exI [of _ "slot - 1"])
      moreover have "slot \<le> j" if "dead_slot es j" for j
      proof (rule ccontr)
        assume "\<not> slot \<le> j"
        moreover obtain k where "j = Suc k" "user_attribute (tl ! k) \<noteq> UATTR_NOT_EMPTY"
          using \<open>dead_slot es j\<close> by (auto simp: dead)
        ultimately show False using s(4) by auto
      qed
      ultimately show ?thesis using s(1) by auto
    next
      case False
      with write_scan_Suc [OF sc] have "slot = 0" by simp
      with False show ?thesis by (auto simp: dead)
    qed
  qed
  then show "slot = 0 \<longleftrightarrow> (\<forall>j. \<not> dead_slot es j)"
    and "slot \<noteq> 0 \<Longrightarrow> dead_slot es slot \<and> (\<forall>j. dead_slot es j \<longrightarrow> slot \<le> j)" by blast+
qed

lemma folder_empty_iff: "folder_empty es \<longleftrightarrow> (\<forall>e \<in> set es. user_attribute e \<noteq> UATTR_NOT_EMPTY)"
  by (induction es) auto

section \<open>Free clusters\<close>

definition free_clusters :: "u32 list \<Rightarrow> u32 list" where
  "free_clusters fat = map of_nat (filter (\<lambda>i. fat ! i = FAT32_FAT_EMPTY_ENTRY) [0..<CLUSTER_MAP_SIZE])"

lemma count_slots_loop_eq:
  assumes "i \<le> CLUSTER_MAP_SIZE" and "unat count = length slots" and "unat count \<le> unat required"
  shows "count_slots_loop fat required count i slots =
    (let rest = map of_nat (filter (\<lambda>i. fat ! i = FAT32_FAT_EMPTY_ENTRY) [i..<CLUSTER_MAP_SIZE]);
         all = slots @ take (unat required - unat count) rest
     in (of_nat (length all), all))"
  using assms
proof (induction fat required count i slots rule: count_slots_loop.induct)
  case (1 fat required count i slots)
  have cnt: "(of_nat (length slots) :: u8) = count" using "1.prems"(2) by (metis of_nat_unat_word)
  show ?case
  proof (cases "count < required \<and> i < CLUSTER_MAP_SIZE")
    case False
    have "count = required \<or> i = CLUSTER_MAP_SIZE"
      using False "1.prems" by (auto simp: word_less_nat_alt word_unat_eq_iff)
    with False cnt show ?thesis
      by (subst count_slots_loop.simps) auto
  next
    case True
    then have lt: "unat count < unat required" by (simp add: word_less_nat_alt)
    have "unat (count + 1) = Suc (unat count)"
    proof -
      have "Suc (unat count) < 256" using lt unat_u8_lt [of required] by linarith
      then show ?thesis by (simp add: unat_word_ariths)
    qed
    moreover have "unat required - unat count = Suc (unat required - Suc (unat count))"
      using lt by simp
    moreover have "[i..<CLUSTER_MAP_SIZE] = i # [Suc i..<CLUSTER_MAP_SIZE]"
      using True by (simp add: upt_conv_Cons)
    ultimately show ?thesis
      using "1.IH" "1.prems" True lt by (subst count_slots_loop.simps) (auto simp: Let_def)
  qed
qed

lemma count_empty_fat_slots_eq:
  "count_empty_fat_slots fat required =
     (let slots = take (unat required) (free_clusters fat) in (of_nat (length slots), slots))"
  using count_slots_loop_eq [of 0 0 "[]" required fat]
  by (simp add: count_empty_fat_slots_def free_clusters_def)

lemma distinct_free_clusters: "distinct (free_clusters fat)"
proof -
  have "inj_on (of_nat :: nat \<Rightarrow> u32) {..<CLUSTER_MAP_SIZE}"
    by (rule inj_onI) (drule arg_cong [where f = unat], simp)
  then show ?thesis
    by (auto simp: free_clusters_def distinct_map intro: inj_on_subset)
qed

lemma set_free_clusters:
  "length fat = CLUSTER_MAP_SIZE \<Longrightarrow>
   set (free_clusters fat) = {c. unat c < CLUSTER_MAP_SIZE \<and> fat ! unat c = FAT32_FAT_EMPTY_ENTRY}"
  by (auto simp: free_clusters_def image_iff) (metis of_nat_unat_word)

lemma length_free_clusters:
  assumes "length fat = CLUSTER_MAP_SIZE"
  shows "length (free_clusters fat) = count_if (\<lambda>v. v = FAT32_FAT_EMPTY_ENTRY) fat"
proof -
  have "count_if (\<lambda>v. v = FAT32_FAT_EMPTY_ENTRY) (map (\<lambda>i. fat ! i) [0..<CLUSTER_MAP_SIZE])
      = length (free_clusters fat)"
    unfolding count_if_def free_clusters_def filter_map by (simp add: o_def)
  then show ?thesis using map_nth [of fat] assms by simp
qed

end
