(* ===== verification/Fat32_Loops.thy ===== *)
theory Fat32_Loops
  imports Fat32_Scans
begin

unbundle bit_operations_syntax

text \<open>
  The loops of \<open>fat32.c\<close> that move data: on a chain, \<open>read_loop\<close> and
  \<open>delete_loop\<close> return (total correctness), and on clusters that following the table
  never leaves they do not. \<open>write_file_loop\<close> turns the slots into a chain that holds
  the request's bytes and keeps the table on disk equal to the one in memory.
\<close>

section \<open>Cluster counts\<close>

lemma round_f32_exact: "n < 2 ^ 24 \<Longrightarrow> round_f32 n = n"
  by (simp add: round_f32_def f32_exponent.simps)

lemma ceil_quotient: "ceil (of_nat v / of_nat CLUSTER_SIZE) = of_nat ((v + 2047) div CLUSTER_SIZE)"
proof -
  have qr: "v div CLUSTER_SIZE * CLUSTER_SIZE + v mod CLUSTER_SIZE = v" "v mod CLUSTER_SIZE < CLUSTER_SIZE"
    by simp_all
  have fl: "c_int (of_nat v / of_nat CLUSTER_SIZE :: rat) = int (v div CLUSTER_SIZE)"
    using floor_divide_of_nat_eq [of v CLUSTER_SIZE, where 'a = rat] by (simp add: c_int_def)
  have frac: "(of_int (int k) = (of_nat v / of_nat w :: rat)) \<longleftrightarrow> k * w = v" if "w \<noteq> 0" for k w
  proof -
    have "(of_int (int k) = (of_nat v / of_nat w :: rat)) \<longleftrightarrow> of_nat k * of_nat w = (of_nat v :: rat)"
      using that by (simp add: eq_divide_eq)
    also have "\<dots> \<longleftrightarrow> of_nat (k * w) = (of_nat v :: rat)"
      by (subst of_nat_mult) (rule refl)
    also have "\<dots> \<longleftrightarrow> k * w = v" by (rule of_nat_eq_iff)
    finally show ?thesis .
  qed
  have iff: "(of_int (int (v div CLUSTER_SIZE)) = (of_nat v / of_nat CLUSTER_SIZE :: rat))
      \<longleftrightarrow> v mod CLUSTER_SIZE = 0"
    using qr by (subst frac) (simp, linarith)
  show ?thesis
  proof (cases "v mod CLUSTER_SIZE = 0")
    case True
    then have "(v + 2047) div CLUSTER_SIZE = v div CLUSTER_SIZE"
      using div_round_up [of CLUSTER_SIZE v] by simp
    with True show ?thesis unfolding ceil_def fl iff by simp
  next
    case False
    then have "(v + 2047) div CLUSTER_SIZE = v div CLUSTER_SIZE + 1"
      using div_round_up [of CLUSTER_SIZE v] by simp
    with False show ?thesis unfolding ceil_def fl iff by simp
  qed
qed

lemma ceil_size_in_clusters:
  "unat n < 2 ^ 24 \<Longrightarrow> ceil (size_in_clusters n) = of_nat ((unat n + 2047) div CLUSTER_SIZE)"
  by (simp only: size_in_clusters_def round_f32_exact ceil_quotient)

lemma unat_ceil_size:
  assumes "unat n < 2 ^ 24"
  shows "unat (ceil (size_in_clusters n)) = (unat n + 2047) div CLUSTER_SIZE mod 256"
  by (simp add: ceil_size_in_clusters [OF assms] unat_of_nat)

section \<open>Reading a chain\<close>

definition chain_data :: "image \<Rightarrow> u32 list \<Rightarrow> byte list" where
  "chain_data img cs = concat (map (\<lambda>c. rd img c) cs)"

lemma length_chain_data [simp]: "length (chain_data img cs) = CLUSTER_SIZE * length cs"
  by (induction cs) (simp_all add: chain_data_def)

lemma chain_data_cong: "(\<And>c. c \<in> set cs \<Longrightarrow> rd img c = rd img' c) \<Longrightarrow> chain_data img cs = chain_data img' cs"
  by (simp add: chain_data_def cong: map_cong)

lemma read_loop_chain:
  assumes "chain (fat_table st) c cs" and "CLUSTER_SIZE * length cs \<le> 2 ^ 32"
  shows "read_loop dest c k st = Some (Inr (st\<lparr>memory :=
           mem_write (memory st) (dest + k * of_nat CLUSTER_SIZE) (chain_data (storage st) cs)\<rparr>))"
  using assms
proof (induction cs arbitrary: c k st)
  case Nil
  then show ?case by (simp add: read_loop.simps chain_data_def)
next
  case (Cons d cs)
  let ?p = "dest + k * of_nat CLUSTER_SIZE"
  let ?st = "st\<lparr>memory := mem_write (memory st) ?p (rd (storage st) c)\<rparr>"
  from Cons.prems have c: "c = d" "c \<noteq> FAT32_FAT_END_OF_FILE" "unat c < length (fat_table st)"
    and ch: "chain (fat_table ?st) (fat_table st ! unat c) cs" by auto
  have "read_loop dest c k st = read_loop dest (fat_table st ! unat c) (k + 1) ?st"
    using c by (subst read_loop.simps) (simp add: Let_def)
  also have "\<dots> = Some (Inr (?st\<lparr>memory := mem_write (memory ?st)
      (dest + (k + 1) * of_nat CLUSTER_SIZE) (chain_data (storage ?st) cs)\<rparr>))"
    using Cons.prems(2) by (intro Cons.IH [OF ch]) simp
  also have "dest + (k + 1) * of_nat CLUSTER_SIZE = ?p + of_nat (length (rd (storage st) c))"
    by (simp add: algebra_simps)
  also have "mem_write (memory ?st) \<dots> (chain_data (storage ?st) cs)
      = mem_write (memory st) ?p (rd (storage st) c @ chain_data (storage st) cs)"
    using mem_write_append [of "rd (storage st) c" "chain_data (storage st) cs" "memory st" ?p] Cons.prems(2)
    by simp
  finally show ?case using c(1) by (simp add: chain_data_def)
qed

lemma read_loop_closed:
  assumes "closed_set (fat_table st) S" and "c \<in> S"
  shows "read_loop dest c k st = None"
proof (rule ccontr)
  assume "read_loop dest c k st \<noteq> None"
  then obtain y where y: "read_loop dest c k st = Some y" by blast
  have "\<forall>S. closed_set (fat_table st) S \<longrightarrow> c \<notin> S"
  proof (rule read_loop.raw_induct
      [where P = "\<lambda>dest c k st y. \<forall>S. closed_set (fat_table st) S \<longrightarrow> c \<notin> S", OF _ y])
    fix f dest c k st y
    assume IH: "\<And>dest c k st y. f dest c k st = Some y \<Longrightarrow> \<forall>S. closed_set (fat_table st) S \<longrightarrow> c \<notin> S"
      and eq: "(if c = FAT32_FAT_END_OF_FILE then Some (Inr st)
        else let st' = st\<lparr>memory := mem_write (memory st) (dest + k * of_nat CLUSTER_SIZE) (rd (storage st) c)\<rparr>
          in case fat_get (fat_table st') c of Inl e \<Rightarrow> Some (Inl e)
             | Inr next \<Rightarrow> f dest next (k + 1) st') = Some y"
    show "\<forall>S. closed_set (fat_table st) S \<longrightarrow> c \<notin> S"
    proof (intro allI impI notI)
      fix S assume S: "closed_set (fat_table st) S" and c: "c \<in> S"
      then have "unat c < length (fat_table st)" "c \<noteq> FAT32_FAT_END_OF_FILE" "fat_table st ! unat c \<in> S"
        by (auto simp: closed_set_def)
      with eq have "f dest (fat_table st ! unat c) (k + 1)
          (st\<lparr>memory := mem_write (memory st) (dest + k * of_nat CLUSTER_SIZE) (rd (storage st) c)\<rparr>) = Some y"
        by (simp add: Let_def)
      from IH [OF this] S \<open>fat_table st ! unat c \<in> S\<close> show False by auto
    qed
  qed
  with assms show False by blast
qed

lemma read_loop_frame:
  assumes "read_loop dest c k st = Some (Inr st')"
  shows "storage st' = storage st \<and> fat_table st' = fat_table st \<and> dir_table_buf st' = dir_table_buf st"
proof -
  have "\<forall>s. y = Inr s \<longrightarrow> storage s = storage st \<and> fat_table s = fat_table st \<and> dir_table_buf s = dir_table_buf st"
    if "read_loop dest c k st = Some y" for y
  proof (rule read_loop.raw_induct [where P = "\<lambda>dest c k st y. \<forall>s. y = Inr s \<longrightarrow> storage s = storage st
      \<and> fat_table s = fat_table st \<and> dir_table_buf s = dir_table_buf st", OF _ that])
    fix f :: "u32 \<Rightarrow> u32 \<Rightarrow> u32 \<Rightarrow> fs \<Rightarrow> fs run" and dest c k :: u32 and st :: fs and y :: "fs outcome"
    assume IH: "\<And>dest c k st y. f dest c k st = Some y \<Longrightarrow> \<forall>s. y = Inr s \<longrightarrow> storage s = storage st
      \<and> fat_table s = fat_table st \<and> dir_table_buf s = dir_table_buf st"
      and eq: "(if c = FAT32_FAT_END_OF_FILE then Some (Inr st)
        else let st' = st\<lparr>memory := mem_write (memory st) (dest + k * of_nat CLUSTER_SIZE) (rd (storage st) c)\<rparr>
          in case fat_get (fat_table st') c of Inl e \<Rightarrow> Some (Inl e)
             | Inr next \<Rightarrow> f dest next (k + 1) st') = Some y"
    show "\<forall>s. y = Inr s \<longrightarrow> storage s = storage st \<and> fat_table s = fat_table st \<and> dir_table_buf s = dir_table_buf st"
    proof (cases "c = FAT32_FAT_END_OF_FILE")
      case True
      with eq show ?thesis by auto
    next
      case False
      let ?st = "st\<lparr>memory := mem_write (memory st) (dest + k * of_nat CLUSTER_SIZE) (rd (storage st) c)\<rparr>"
      show ?thesis
      proof (cases "fat_get (fat_table st) c")
        case (Inl e)
        with eq False show ?thesis by (auto simp: Let_def)
      next
        case (Inr v)
        with eq False have "f dest v (k + 1) ?st = Some y" by (simp add: Let_def)
        from IH [OF this, simplified] show ?thesis .
      qed
    qed
  qed
  with assms show ?thesis by blast
qed

section \<open>Clearing a chain\<close>

definition zero_cluster :: "byte list" where
  "zero_cluster = replicate CLUSTER_SIZE 0"

lemma length_zero_cluster [simp]: "length zero_cluster = CLUSTER_SIZE"
  by (simp add: zero_cluster_def)

definition fat_clear :: "u32 list \<Rightarrow> u32 list \<Rightarrow> u32 list" where
  "fat_clear cs fat = fold (\<lambda>c fat. fat[unat c := FAT32_FAT_EMPTY_ENTRY]) cs fat"

definition storage_clear :: "u32 list \<Rightarrow> image \<Rightarrow> image" where
  "storage_clear cs img = fold (\<lambda>(c, bs) img. wr img c bs) (map (\<lambda>c. (c, zero_cluster)) cs) img"

lemma length_fat_clear [simp]: "length (fat_clear cs fat) = length fat"
  by (induction cs arbitrary: fat) (simp_all add: fat_clear_def)

lemma nth_fat_clear:
  "unat c < length fat \<Longrightarrow> fat_clear cs fat ! unat c = (if c \<in> set cs then 0 else fat ! unat c)"
proof (induction cs arbitrary: fat)
  case Nil
  then show ?case by (simp add: fat_clear_def)
next
  case (Cons d cs)
  then have "fat_clear cs (fat[unat d := 0]) ! unat c
      = (if c \<in> set cs then 0 else fat[unat d := 0] ! unat c)" by simp
  then show ?case
    using Cons.prems by (auto simp: fat_clear_def nth_update_word)
qed

lemma rd_storage_clear:
  assumes "\<forall>d \<in> set cs. cluster_valid d" and "cluster_valid c"
  shows "rd (storage_clear cs img) c = (if c \<in> set cs then zero_cluster else rd img c)"
proof -
  let ?ws = "map (\<lambda>c. (c, zero_cluster)) cs"
  have mo: "map_of (rev ?ws) c = (if c \<in> set cs then Some zero_cluster else None)"
    by (simp add: rev_map map_of_map_keys o_def map_of_map_restrict restrict_map_def)
  have "rd (storage_clear cs img) c = (case map_of (rev ?ws) c of None \<Rightarrow> rd img c | Some bs \<Rightarrow> bs)"
    unfolding storage_clear_def using assms by (intro clusters.get_puts) auto
  then show ?thesis by (simp add: mo)
qed

lemma delete_loop_chain:
  assumes "chain (fat_table st) c cs" and "cs \<noteq> []"
  shows "delete_loop c st = Some (Inr (st\<lparr>fat_table := fat_clear cs (fat_table st),
           storage := storage_clear cs (storage st)\<rparr>))"
  using assms
proof (induction cs arbitrary: c st)
  case Nil
  then show ?case by simp
next
  case (Cons d cs)
  let ?st = "st\<lparr>fat_table := (fat_table st)[unat c := FAT32_FAT_EMPTY_ENTRY],
                 storage := wr (storage st) c (replicate CLUSTER_SIZE 0)\<rparr>"
  let ?next = "fat_table st ! unat c"
  from Cons.prems have c: "c = d" "unat c < length (fat_table st)" and ch: "chain (fat_table st) ?next cs"
    by auto
  have "c \<notin> set cs" using chain_distinct [OF Cons.prems(1)] c by simp
  then have ch': "chain (fat_table ?st) ?next cs" using ch by (simp add: chain_update_other)
  show ?case
  proof (cases cs)
    case Nil
    with ch c show ?thesis
      by (subst delete_loop.simps) (simp add: Let_def fat_clear_def storage_clear_def zero_cluster_def)
  next
    case (Cons d' cs')
    with ch have "?next \<noteq> FAT32_FAT_END_OF_FILE" by auto
    with c have "delete_loop c st = delete_loop ?next ?st"
      by (subst delete_loop.simps) (simp add: Let_def)
    also have "\<dots> = Some (Inr (?st\<lparr>fat_table := fat_clear cs (fat_table ?st),
           storage := storage_clear cs (storage ?st)\<rparr>))"
      using Cons by (intro Cons.IH [OF ch']) simp
    finally show ?thesis
      using c(1) by (simp add: fat_clear_def storage_clear_def zero_cluster_def)
  qed
qed

section \<open>Writing a chain\<close>

fun link_fat :: "u32 list \<Rightarrow> u32 list \<Rightarrow> u32 list" where
  "link_fat [] fat = fat"
| "link_fat (c # rest) fat =
     link_fat rest (fat[unat c := (case rest of [] \<Rightarrow> FAT32_FAT_END_OF_FILE | n # _ \<Rightarrow> n)])"

lemma length_link_fat [simp]: "length (link_fat cs fat) = length fat"
  by (induction cs fat rule: link_fat.induct) simp_all

lemma nth_link_fat_other: "c \<notin> set cs \<Longrightarrow> link_fat cs fat ! unat c = fat ! unat c"
  by (induction cs fat rule: link_fat.induct) (auto simp: nth_update_word)

lemma chain_link_fat:
  assumes "distinct cs" and "cs \<noteq> []" and "\<forall>c \<in> set cs. unat c < length fat \<and> c \<noteq> FAT32_FAT_END_OF_FILE"
  shows "chain (link_fat cs fat) (hd cs) cs"
  using assms
proof (induction cs arbitrary: fat)
  case Nil
  then show ?case by simp
next
  case (Cons c rest)
  let ?fat = "fat[unat c := (case rest of [] \<Rightarrow> FAT32_FAT_END_OF_FILE | n # _ \<Rightarrow> n)]"
  have at_c: "link_fat rest ?fat ! unat c = (case rest of [] \<Rightarrow> FAT32_FAT_END_OF_FILE | n # _ \<Rightarrow> n)"
    using Cons.prems by (simp add: nth_link_fat_other nth_update_word)
  show ?case
  proof (cases rest)
    case Nil
    with at_c Cons.prems show ?thesis by simp
  next
    case (Cons n ns)
    then have "chain (link_fat rest ?fat) (hd rest) rest" using Cons.prems Cons.IH [of ?fat] by auto
    with at_c Cons Cons.prems show ?thesis by simp
  qed
qed

lemma write_file_loop_fat: "fat_table (write_file_loop src cs st) = link_fat cs (fat_table st)"
  by (induction src cs st rule: write_file_loop.induct) (simp_all add: Let_def)

lemma write_file_loop_memory [simp]:
  "memory (write_file_loop src cs st) = memory st"
  "dir_table_buf (write_file_loop src cs st) = dir_table_buf st"
  by (induction src cs st rule: write_file_loop.induct) (simp_all add: Let_def)

definition plain_slots :: "u32 list \<Rightarrow> bool" where
  "plain_slots cs \<longleftrightarrow> distinct cs \<and> FAT_CLUSTER_NUMBER \<notin> set cs \<and> (\<forall>c \<in> set cs. unat c < CLUSTER_MAP_SIZE)"

lemma small_cluster_valid: "unat c < CLUSTER_MAP_SIZE \<Longrightarrow> cluster_valid c"
  by (simp add: cluster_valid_def)

lemma fat_cluster_valid [simp]: "cluster_valid FAT_CLUSTER_NUMBER" "cluster_valid ROOT_CLUSTER_NUMBER"
  by (simp_all add: cluster_valid_def)

lemma write_file_loop_other:
  assumes "plain_slots cs" and "length (fat_table st) = CLUSTER_MAP_SIZE"
    and "cluster_valid d" and "d \<notin> set cs" and "d \<noteq> FAT_CLUSTER_NUMBER"
  shows "rd (storage (write_file_loop src cs st)) d = rd (storage st) d"
  using assms
proof (induction src cs st rule: write_file_loop.induct)
  case (1 src st)
  then show ?case by simp
next
  case (2 src c rest st)
  then have "cluster_valid c" "c \<noteq> d" by (auto simp: plain_slots_def small_cluster_valid)
  with 2 show ?case by (auto simp: Let_def plain_slots_def clusters.get_put)
qed

lemma write_file_loop_data:
  assumes "plain_slots cs" and "length (fat_table st) = CLUSTER_MAP_SIZE"
  shows "chain_data (storage (write_file_loop src cs st)) cs
       = mem_read (memory st) src (CLUSTER_SIZE * length cs)"
  using assms
proof (induction src cs st rule: write_file_loop.induct)
  case (1 src st)
  then show ?case by (simp add: chain_data_def)
next
  case (2 src c rest st)
  define fat where "fat = (fat_table st)[unat c := (case rest of [] \<Rightarrow> FAT32_FAT_END_OF_FILE | n # _ \<Rightarrow> n)]"
  define st' where "st' = st\<lparr>storage := wr (wr (storage st) FAT_CLUSTER_NUMBER (encode_fat fat)) c
      (mem_read (memory st) src CLUSTER_SIZE), fat_table := fat\<rparr>"
  have step: "write_file_loop src (c # rest) st = write_file_loop (src + of_nat CLUSTER_SIZE) rest st'"
    by (simp add: Let_def fat_def st'_def)
  have c: "cluster_valid c" "c \<noteq> FAT_CLUSTER_NUMBER" "c \<notin> set rest" and rest: "plain_slots rest"
    using 2 by (auto simp: plain_slots_def small_cluster_valid)
  have len: "length (fat_table st') = CLUSTER_MAP_SIZE" using 2 by (simp add: st'_def fat_def)
  have "rd (storage (write_file_loop (src + of_nat CLUSTER_SIZE) rest st')) c = rd (storage st') c"
    by (rule write_file_loop_other [OF rest len c(1) c(3) c(2)])
  also have "\<dots> = mem_read (memory st) src CLUSTER_SIZE"
    using c by (simp add: st'_def clusters.get_put)
  finally have hd: "rd (storage (write_file_loop src (c # rest) st)) c = mem_read (memory st) src CLUSTER_SIZE"
    by (simp only: step)
  have "chain_data (storage (write_file_loop (src + of_nat CLUSTER_SIZE) rest st')) rest
      = mem_read (memory st') (src + of_nat CLUSTER_SIZE) (CLUSTER_SIZE * length rest)"
    using 2(1) [OF refl _ _ _ rest] len by (simp add: st'_def fat_def)
  with hd step show ?case
    using mem_read_add [of "memory st" src CLUSTER_SIZE "CLUSTER_SIZE * length rest"]
    by (simp add: chain_data_def st'_def)
qed

lemma write_file_loop_synced:
  assumes "plain_slots cs" and "cs \<noteq> []" and "length (fat_table st) = CLUSTER_MAP_SIZE"
  shows "rd (storage (write_file_loop src cs st)) FAT_CLUSTER_NUMBER
       = encode_fat (fat_table (write_file_loop src cs st))"
  using assms
proof (induction src cs st rule: write_file_loop.induct)
  case (1 src st)
  then show ?case by simp
next
  case (2 src c rest st)
  then have "cluster_valid c" "c \<noteq> FAT_CLUSTER_NUMBER" "plain_slots rest"
    by (auto simp: plain_slots_def small_cluster_valid)
  with 2 show ?case by (cases rest) (auto simp: Let_def clusters.get_put)
qed

end
