(* ===== verification/Fat32_Mount.thy ===== *)
theory Fat32_Mount
  imports Fat32_Loops
begin

unbundle bit_operations_syntax

text \<open>
  Formatting and mounting (\<open>create_fat32\<close>, \<open>initialize_filesystem_fat32\<close>). The
  driver's basic invariant \<open>driver_ok\<close> says that the cached table has its reserved
  entries, that cluster 1 of the device holds exactly the cached table, and that the boot
  sector carries the signature. Formatting establishes it, and mounting a device that
  satisfies it recovers the cached table whatever the driver state was before.
\<close>

definition fat_ok :: "u32 list \<Rightarrow> bool" where
  "fat_ok fat \<longleftrightarrow> length fat = CLUSTER_MAP_SIZE \<and> fat ! 0 = CLUSTER_0_VALUE
     \<and> fat ! 1 = CLUSTER_1_VALUE \<and> fat ! 2 = FAT32_FAT_END_OF_FILE"

definition synced :: "fs \<Rightarrow> bool" where
  "synced st \<longleftrightarrow> rd (storage st) FAT_CLUSTER_NUMBER = encode_fat (fat_table st)"

definition signed :: "image \<Rightarrow> bool" where
  "signed img \<longleftrightarrow> take BLOCK_SIZE (rd img 0) = fs_signature"

definition driver_ok :: "fs \<Rightarrow> bool" where
  "driver_ok st \<longleftrightarrow> fat_ok (fat_table st) \<and> synced st \<and> signed (storage st)"

lemma fat_ok_reserved:
  assumes "fat_ok fat" and "n \<le> 2"
  shows "fat ! n \<noteq> 0"
proof -
  from assms(2) consider "n = 0" | "n = 1" | "n = 2" by linarith
  then show ?thesis using assms(1) by cases (simp_all add: fat_ok_def)
qed

lemma length_fs_signature [simp]: "length fs_signature = BLOCK_SIZE"
  by (simp add: fs_signature_def)

text \<open>A block write inside a cluster, seen through the cluster.\<close>

lemma boot_block: "read_blocks img BOOT_SECTOR 1 = take BLOCK_SIZE (rd img 0)"
  using read_blocks_fit [of 0 1 img] read_cluster_image [of 0 img]
    image_read_add [of img 0 BLOCK_SIZE "CLUSTER_SIZE - BLOCK_SIZE"]
  by (simp add: blocks_fit_def cluster_valid_def)

lemma write_boot_signature:
  "signed (write_blocks img fs_signature BOOT_SECTOR 1)"
proof -
  have "read_blocks (write_blocks img fs_signature BOOT_SECTOR 1) BOOT_SECTOR 1 = fs_signature"
    by (rule blocks.get_put_same) (simp_all add: block_valid_def)
  then show ?thesis by (simp add: boot_block signed_def)
qed

lemma write_block_image:
  assumes "cluster_valid c" and "length bs = BLOCK_SIZE"
  shows "write_blocks img bs (cluster_to_lba c) 1 = image_write img (CLUSTER_SIZE * unat c) bs"
proof -
  have "blocks_fit (cluster_to_lba c) 1"
    using cluster_fit [OF assms(1)] by (simp add: blocks_fit_def)
  then show ?thesis
    using write_blocks_fit [of "cluster_to_lba c" 1 bs img] assms
    by (simp add: cluster_to_lba_valid)
qed

lemma rd_write_first_block:
  assumes "cluster_valid c" and "cluster_valid d" and "length bs = BLOCK_SIZE"
  shows "rd (write_blocks img bs (cluster_to_lba c) 1) d
       = (if c = d then bs @ drop BLOCK_SIZE (rd img c) else rd img d)"
proof -
  let ?img = "image_write img (CLUSTER_SIZE * unat c) bs"
  have w: "write_blocks img bs (cluster_to_lba c) 1 = ?img"
    using assms by (simp add: write_block_image)
  have sp: "image_read img' (CLUSTER_SIZE * unat c) CLUSTER_SIZE
      = image_read img' (CLUSTER_SIZE * unat c) BLOCK_SIZE
        @ image_read img' (CLUSTER_SIZE * unat c + BLOCK_SIZE) (CLUSTER_SIZE - BLOCK_SIZE)" for img'
    using image_read_add [of img' "CLUSTER_SIZE * unat c" BLOCK_SIZE "CLUSTER_SIZE - BLOCK_SIZE"] by simp
  have "image_read ?img (CLUSTER_SIZE * unat c + BLOCK_SIZE) (CLUSTER_SIZE - BLOCK_SIZE)
      = image_read img (CLUSTER_SIZE * unat c + BLOCK_SIZE) (CLUSTER_SIZE - BLOCK_SIZE)"
    using assms(3) by (intro image_read_other) simp
  then have same: "rd ?img c = bs @ drop BLOCK_SIZE (rd img c)"
    using assms sp [of ?img] sp [of img] by (simp add: read_cluster_image image_read_write)
  show ?thesis
  proof (cases "c = d")
    case True
    from same True show ?thesis unfolding w by simp
  next
    case False
    then have "unat c < unat d \<or> unat d < unat c" using word_unat_eq_iff nat_neq_iff by blast
    then show ?thesis
      using False assms by (auto simp: w read_cluster_image image_read_other)
  qed
qed

section \<open>Formatting\<close>

definition format_fat :: "u32 list" where
  "format_fat = (replicate CLUSTER_MAP_SIZE 0)
     [0 := CLUSTER_0_VALUE, 1 := CLUSTER_1_VALUE, 2 := FAT32_FAT_END_OF_FILE]"

definition root_name :: "byte list" where
  "root_name = str ''root'' @ replicate 4 0"

definition root_table :: "dirent list" where
  "root_table = (replicate DIR_ENTRIES zero_dirent)
     [0 := zero_dirent\<lparr>name := root_name, attribute := ATTR_SUBDIRECTORY,
        user_attribute := UATTR_NOT_EMPTY\<rparr>,
      1 := zero_dirent\<lparr>name := root_name, attribute := ATTR_SUBDIRECTORY,
        user_attribute := UATTR_NOT_EMPTY, cluster_low := 2\<rparr>]"

lemma length_format_fat [simp]: "length format_fat = CLUSTER_MAP_SIZE"
  by (simp add: format_fat_def)

lemma fat_ok_format: "fat_ok format_fat"
  by (simp add: fat_ok_def format_fat_def nth_list_update)

lemma length_root_name [simp]: "length root_name = 8"
  by (simp add: root_name_def)

lemma wf_root_table [simp]: "wf_table root_table"
proof -
  have "wf_table (replicate DIR_ENTRIES zero_dirent)"
    by (simp add: wf_table_def list_all_iff)
  then show ?thesis
    unfolding root_table_def by (intro wf_table_update) (simp_all add: wf_dirent_def zero_dirent_def)
qed

lemma copy_name_root: "copy_name (replicate 8 0) 0 (str ''root'' @ [0]) = root_name"
  by code_simp

text \<open>Entry 0 of the table that \<open>init_directory_table\<close> reads back has the name just written.\<close>

lemma name_of_first_block:
  assumes "length bs = CLUSTER_SIZE - BLOCK_SIZE"
  shows "name (decode_table (str ''root'' @ replicate 508 0 @ bs) ! 0) = root_name"
  by (simp add: decode_table_def decode_array_def decode_dirent_def chunk_def root_name_def nth_append)

lemma create_fat32_eq:
  "\<exists>s. create_fat32 st = st\<lparr>storage := s, fat_table := format_fat, dir_table_buf := root_table\<rparr>
     \<and> signed s \<and> rd s FAT_CLUSTER_NUMBER = encode_fat format_fat
     \<and> rd s ROOT_CLUSTER_NUMBER = encode_table root_table
     \<and> rd s 0 = fs_signature @ drop BLOCK_SIZE (rd (storage st) 0)"
proof -
  define s1 where "s1 = write_blocks (storage st) fs_signature BOOT_SECTOR 1"
  define s2 where "s2 = wr s1 FAT_CLUSTER_NUMBER (encode_fat format_fat)"
  define s3 where "s3 = write_blocks s2 (str ''root'' @ replicate 508 0) (cluster_to_lba 2) 1"
  define s4 where "s4 = wr s3 ROOT_CLUSTER_NUMBER (encode_table root_table)"
  have v0: "cluster_valid 0" by (simp add: cluster_valid_def)
  have nm: "name (dir_at s3 ROOT_CLUSTER_NUMBER ! 0) = root_name"
    by (simp add: s3_def rd_write_first_block name_of_first_block)
  have dir: "init_directory_table s3 (replicate DIR_ENTRIES zero_dirent) (str ''root'' @ [0])
      ROOT_CLUSTER_NUMBER = root_table"
    unfolding init_directory_table_def Let_def copy_name_root nm root_table_def
    by (simp add: zero_dirent_def low_half_def high_half_def)
  have "create_fat32 st = st\<lparr>storage := s4, fat_table := format_fat, dir_table_buf := root_table\<rparr>"
    unfolding create_fat32_def Let_def
    by (simp only: s1_def [symmetric] format_fat_def [symmetric] s2_def [symmetric]
        s3_def [symmetric] dir s4_def [symmetric])
  moreover have s4: "rd s4 0 = rd s1 0"
    using v0 by (simp add: s4_def s3_def s2_def clusters.get_put rd_write_first_block)
  moreover have "rd s1 0 = fs_signature @ drop BLOCK_SIZE (rd (storage st) 0)"
    using rd_write_first_block [of 0 0 fs_signature "storage st"] v0 by (simp add: s1_def cluster_to_lba_def)
  moreover have "signed s4"
    using write_boot_signature [of "storage st"] s4 by (simp add: signed_def s1_def)
  moreover have "rd s4 FAT_CLUSTER_NUMBER = encode_fat format_fat"
    by (simp add: s4_def s3_def s2_def clusters.get_put rd_write_first_block)
  moreover have "rd s4 ROOT_CLUSTER_NUMBER = encode_table root_table"
    by (simp add: s4_def clusters.get_put)
  ultimately show ?thesis by metis
qed

lemma create_fat32_driver_ok: "driver_ok (create_fat32 st)"
  and create_fat32_root: "dir_at (storage (create_fat32 st)) ROOT_CLUSTER_NUMBER = root_table"
  and create_fat32_fat: "fat_table (create_fat32 st) = format_fat"
  and create_fat32_memory: "memory (create_fat32 st) = memory st"
  and create_fat32_boot: "rd (storage (create_fat32 st)) 0 = fs_signature @ drop BLOCK_SIZE (rd (storage st) 0)"
  using create_fat32_eq [of st] fat_ok_format by (auto simp: driver_ok_def synced_def)

section \<open>Mounting\<close>

lemma is_empty_storage_iff: "is_empty_storage st \<longleftrightarrow> \<not> signed (storage st)"
  by (simp add: is_empty_storage_def boot_block signed_def)

lemma mount_signed:
  "signed (storage st) \<Longrightarrow>
   initialize_filesystem_fat32 st = st\<lparr>fat_table := decode_fat (rd (storage st) FAT_CLUSTER_NUMBER)\<rparr>"
  by (simp add: initialize_filesystem_fat32_def is_empty_storage_iff)

lemma mount_unsigned: "\<not> signed (storage st) \<Longrightarrow> initialize_filesystem_fat32 st = create_fat32 st"
  by (simp add: initialize_filesystem_fat32_def is_empty_storage_iff)

lemma mount_recovers:
  assumes "driver_ok st" and "storage st' = storage st"
  shows "initialize_filesystem_fat32 st' = st'\<lparr>fat_table := fat_table st\<rparr>"
  using assms by (simp add: driver_ok_def synced_def fat_ok_def mount_signed)

end
