(* ===== verification/Fat32_Effects.thy ===== *)
theory Fat32_Effects
  imports Fat32_Mount
begin

unbundle bit_operations_syntax

text \<open>
  What one call does to the state, without reference to how it does it. \<open>fat32_write_eq\<close>,
  \<open>fat32_read_eq\<close> and \<open>fat32_delete_eq\<close> give every return code with its exact
  condition; \<open>wrote\<close> and \<open>deleted\<close> are the relations between the states before and
  after a successful call: which table entries, clusters and directory slot change, to
  what, and that everything else is as before.
\<close>

section \<open>write\<close>

definition child_table :: "fs \<Rightarrow> request \<Rightarrow> u32 \<Rightarrow> dirent list" where
  "child_table st r c =
     (let t = init_directory_table (storage st) (replicate DIR_ENTRIES zero_dirent)
            (rname r) (parent_cluster_number r)
      in t[0 := (t ! 0)\<lparr>cluster_low := low_half c, cluster_high := high_half c\<rparr>])"

definition wrote :: "request \<Rightarrow> nat \<Rightarrow> u32 list \<Rightarrow> fs \<Rightarrow> fs \<Rightarrow> bool" where
  "wrote r slot slots st st' \<longleftrightarrow>
     fat_table st' = link_fat slots (fat_table st) \<and> memory st' = memory st
     \<and> synced st'
     \<and> dir_at (storage st') (parent_cluster_number r)
         = (dir_at (storage st) (parent_cluster_number r))[slot := new_entry r (buffer_size r = 0) (hd slots)]
     \<and> (\<forall>d. cluster_valid d \<and> d \<notin> set slots \<and> d \<noteq> FAT_CLUSTER_NUMBER \<and> d \<noteq> parent_cluster_number r
           \<longrightarrow> rd (storage st') d = rd (storage st) d)
     \<and> (if buffer_size r = 0 then slots = [hd slots] \<and> dir_at (storage st') (hd slots) = child_table st r (hd slots)
        else chain_data (storage st') slots = mem_read (memory st) (buf r) (CLUSTER_SIZE * length slots))"

lemma length_copy_name [simp]: "length (copy_name dst i cs) = length dst"
  by (induction dst i cs rule: copy_name.induct) auto

lemma wf_table_nth: "wf_table t \<Longrightarrow> i < DIR_ENTRIES \<Longrightarrow> wf_dirent (t ! i)"
  by (simp add: wf_table_def list_all_length)

lemma wf_dir_at [simp]: "wf_table (dir_at img c)"
  by simp

lemma length_dir_at [simp]: "length (dir_at img c) = DIR_ENTRIES"
  using wf_dir_at [of img c] unfolding wf_table_def by blast

lemma wf_zero_table [simp]: "wf_table (replicate DIR_ENTRIES zero_dirent)"
  by (simp add: wf_table_def list_all_iff)

lemma wf_init_directory_table [simp]: "wf_table (init_directory_table img (replicate DIR_ENTRIES zero_dirent) nm p)"
proof -
  have "wf_dirent (dir_at img p ! 0)" by (rule wf_table_nth) simp_all
  then show ?thesis
    unfolding init_directory_table_def Let_def
    by (intro wf_table_update) (simp_all add: wf_dirent_def)
qed

lemma wf_child_table [simp]: "wf_table (child_table st r c)"
proof -
  let ?t = "init_directory_table (storage st) (replicate DIR_ENTRIES zero_dirent) (rname r) (parent_cluster_number r)"
  have "wf_dirent (?t ! 0)" by (rule wf_table_nth) simp_all
  then have "wf_dirent ((?t ! 0)\<lparr>cluster_low := low_half c, cluster_high := high_half c\<rparr>)"
    by (simp add: wf_dirent_def)
  then show ?thesis unfolding child_table_def Let_def by (intro wf_table_update) simp_all
qed

lemma wf_new_entry [simp]: "wf_request r \<Longrightarrow> wf_dirent (new_entry r f c)"
  by (simp add: wf_request_def wf_dirent_def new_entry_def)

lemma entry_cluster_new [simp]: "entry_cluster (new_entry r f c) = c"
  by (intro entry_cluster_halves) (simp_all add: new_entry_def)

lemma child_table_eq: "child_table st r c =
   (init_directory_table (storage st) (replicate DIR_ENTRIES zero_dirent) (rname r) (parent_cluster_number r))
     [0 := (init_directory_table (storage st) (replicate DIR_ENTRIES zero_dirent) (rname r)
        (parent_cluster_number r) ! 0)\<lparr>cluster_low := low_half c, cluster_high := high_half c\<rparr>]"
  by (simp add: child_table_def Let_def)

lemma write_folder_eq:
  "write_folder r c st =
     (let fat = (fat_table st)[unat c := FAT32_FAT_END_OF_FILE]
      in st\<lparr>storage := wr (wr (storage st) c (encode_table (child_table st r c))) FAT_CLUSTER_NUMBER (encode_fat fat),
            fat_table := fat\<rparr>)"
  by (simp add: write_folder_def child_table_def Let_def)

lemma write_commit_file:
  assumes "plain_slots slots" and "slots \<noteq> []" and "length (fat_table st) = CLUSTER_MAP_SIZE"
    and p: "cluster_valid (parent_cluster_number r)" "parent_cluster_number r \<notin> set slots"
      "parent_cluster_number r \<noteq> FAT_CLUSTER_NUMBER"
    and "wf_request r" and "buffer_size r \<noteq> 0"
  shows "\<exists>st'. write_commit r (dir_at (storage st) (parent_cluster_number r)) slot slots st = Inr (0, st')
     \<and> wrote r slot slots st st'"
proof -
  let ?p = "parent_cluster_number r"
  let ?st1 = "write_file_loop (buf r) slots st"
  let ?t = "(dir_at (storage st) ?p)[slot := new_entry r False (hd slots)]"
  let ?s = "wr (storage ?st1) ?p (encode_table ?t)"
  let ?st' = "?st1\<lparr>storage := ?s\<rparr>"
  have wf: "wf_table ?t" using assms(7) by (intro wf_table_update) simp_all
  have com: "write_commit r (dir_at (storage st) ?p) slot slots st = Inr (0, ?st')"
    using assms(2,8) by (cases slots) (simp_all add: write_commit_def Let_def)
  have rdp: "cluster_valid d \<Longrightarrow> rd ?s d = (if d = ?p then encode_table ?t else rd (storage ?st1) d)" for d
    using p(1) wf by (auto simp: clusters.get_put)
  have "chain_data ?s slots = chain_data (storage ?st1) slots"
    using assms(1) p(2) rdp by (intro chain_data_cong) (auto simp: plain_slots_def small_cluster_valid)
  then have data: "chain_data ?s slots = mem_read (memory st) (buf r) (CLUSTER_SIZE * length slots)"
    using write_file_loop_data [OF assms(1,3)] by simp
  have fr: "rd ?s d = rd (storage st) d"
    if "cluster_valid d" "d \<notin> set slots" "d \<noteq> FAT_CLUSTER_NUMBER" "d \<noteq> ?p" for d
    using that rdp write_file_loop_other [OF assms(1,3)] by simp
  have "synced ?st'"
    using rdp [of FAT_CLUSTER_NUMBER] p(3) write_file_loop_synced [OF assms(1,2,3)]
    by (simp add: synced_def)
  moreover have "dir_at ?s ?p = ?t" using rdp [OF p(1)] wf by simp
  ultimately have "wrote r slot slots st ?st'"
    using data fr assms(8) by (simp add: wrote_def write_file_loop_fat)
  with com show ?thesis by blast
qed

lemma write_commit_folder:
  assumes "plain_slots [c]" and "length (fat_table st) = CLUSTER_MAP_SIZE"
    and p: "cluster_valid (parent_cluster_number r)" "parent_cluster_number r \<noteq> c"
      "parent_cluster_number r \<noteq> FAT_CLUSTER_NUMBER"
    and "wf_request r" and "buffer_size r = 0"
  shows "\<exists>st'. write_commit r (dir_at (storage st) (parent_cluster_number r)) slot [c] st = Inr (0, st')
     \<and> wrote r slot [c] st st'"
proof -
  let ?p = "parent_cluster_number r"
  let ?fat = "(fat_table st)[unat c := FAT32_FAT_END_OF_FILE]"
  let ?st1 = "write_folder r c st"
  let ?t = "(dir_at (storage st) ?p)[slot := new_entry r True c]"
  let ?s = "wr (storage ?st1) ?p (encode_table ?t)"
  let ?st' = "?st1\<lparr>storage := ?s\<rparr>"
  have wf: "wf_table ?t" using assms(6) by (intro wf_table_update) simp_all
  have c: "cluster_valid c" "c \<noteq> FAT_CLUSTER_NUMBER"
    using assms(1) by (auto simp: plain_slots_def small_cluster_valid)
  have com: "write_commit r (dir_at (storage st) ?p) slot [c] st = Inr (0, ?st')"
    using assms(7) by (simp add: write_commit_def Let_def)
  have rd1: "cluster_valid d \<Longrightarrow> rd (storage ?st1) d =
      (if d = FAT_CLUSTER_NUMBER then encode_fat ?fat else if d = c then encode_table (child_table st r c)
       else rd (storage st) d)" for d
    using c assms(2) by (simp add: write_folder_eq Let_def clusters.get_put)
  have rdp: "cluster_valid d \<Longrightarrow> rd ?s d = (if d = ?p then encode_table ?t else rd (storage ?st1) d)" for d
    using p(1) wf by (auto simp: clusters.get_put)
  have fat: "fat_table ?st1 = ?fat" "memory ?st1 = memory st"
    by (simp_all add: write_folder_eq Let_def)
  have "wrote r slot [c] st ?st'"
    unfolding wrote_def synced_def
    using assms(7) p c rdp rd1 wf fat by simp
  with com show ?thesis by blast
qed

text \<open>The return code of \<open>write\<close>, case by case.\<close>

lemma clusters_required_le: "unat (clusters_required n) < 256"
  by simp

lemma fat32_write_eq:
  assumes "length (fat_table st) = CLUSTER_MAP_SIZE"
  shows "fat32_write r st =
    (let p = parent_cluster_number r; t = dir_at (storage st) p;
         n = unat (clusters_required (buffer_size r)); free = free_clusters (fat_table st)
     in if CLUSTER_MAP_SIZE \<le> unat p then Inl OutOfBounds
        else if fat_table st ! unat p \<noteq> FAT32_FAT_END_OF_FILE then Inr (2, st)
        else if \<exists>e \<in> set t. entry_matches r e then Inr (1, st)
        else if \<forall>j. \<not> dead_slot t j then Inr (-1, st)
        else if length free < n then Inr (-1, st)
        else write_commit r t (LEAST j. dead_slot t j) (take n free) st)"
proof -
  let ?p = "parent_cluster_number r" let ?t = "dir_at (storage st) ?p"
  let ?req = "clusters_required (buffer_size r)" let ?free = "free_clusters (fat_table st)"
  have cnt: "(of_nat (length (take (unat ?req) ?free)) :: u8) < ?req \<longleftrightarrow> length ?free < unat ?req"
  proof -
    have "min (length ?free) (unat ?req) < 256" using unat_u8_lt [of ?req] by linarith
    then have "unat (of_nat (length (take (unat ?req) ?free)) :: u8) = min (length ?free) (unat ?req)"
      by (simp add: unat_of_nat)
    then show ?thesis by (auto simp: word_less_nat_alt)
  qed
  show ?thesis
  proof (cases "write_scan r 0 0 ?t")
    case None
    then have "\<exists>e \<in> set ?t. entry_matches r e" by (simp add: write_scan_None_iff)
    with None assms show ?thesis by (simp add: fat32_write_def fat_get_def)
  next
    case (Some slot)
    note sc = write_scan_Some [OF Some]
    show ?thesis
    proof (cases "slot = 0")
      case True
      with Some sc assms show ?thesis by (auto simp: fat32_write_def fat_get_def)
    next
      case False
      with sc(3) have dead: "dead_slot ?t slot" and least: "(LEAST j. dead_slot ?t j) = slot"
        by (auto intro: Least_equality)
      then have ex: "\<not> (\<forall>j. \<not> dead_slot ?t j)" by blast
      show ?thesis
        using Some sc(1) False least ex assms cnt
        by (auto simp: fat32_write_def fat_get_def count_empty_fat_slots_eq Let_def)
    qed
  qed
qed

section \<open>read\<close>

lemma fat32_read_eq:
  assumes "length (fat_table st) = CLUSTER_MAP_SIZE"
  shows "fat32_read r st =
    (let p = parent_cluster_number r; t = dir_at (storage st) p
     in if CLUSTER_MAP_SIZE \<le> unat p then Some (Inl OutOfBounds)
        else if fat_table st ! unat p \<noteq> FAT32_FAT_END_OF_FILE then Some (Inr (2, st))
        else case find_entry (entry_matches r) 0 t of
          None \<Rightarrow> Some (Inr (2, st))
        | Some (i, e) \<Rightarrow>
            if attribute e = ATTR_SUBDIRECTORY then Some (Inr (1, st))
            else if unat (buffer_size r) div CLUSTER_SIZE < unat (ceil (size_in_clusters (filesize e)))
            then Some (Inr (-1, st))
            else map_option (map_sum id (Pair 0)) (read_loop (buf r) (entry_cluster e) 0 st))"
proof -
  have cmp: "(buffer_size r div 2048 < (ucast b :: u32)) \<longleftrightarrow>
      unat (buffer_size r) div CLUSTER_SIZE < unat b" for b :: u8
    by (simp add: word_less_nat_alt unat_div)
  show ?thesis
    using assms by (simp add: fat32_read_def fat_get_def Let_def cmp split: option.splits)
qed

lemma fat32_read_file:
  assumes "length (fat_table st) = CLUSTER_MAP_SIZE" and "unat (parent_cluster_number r) < CLUSTER_MAP_SIZE"
    and "fat_table st ! unat (parent_cluster_number r) = FAT32_FAT_END_OF_FILE"
    and "find_entry (entry_matches r) 0 (dir_at (storage st) (parent_cluster_number r)) = Some (i, e)"
    and "attribute e \<noteq> ATTR_SUBDIRECTORY"
    and "unat (ceil (size_in_clusters (filesize e))) \<le> unat (buffer_size r) div CLUSTER_SIZE"
    and "chain (fat_table st) (entry_cluster e) cs"
  shows "fat32_read r st = Some (Inr (0, st\<lparr>memory := mem_write (memory st) (buf r) (chain_data (storage st) cs)\<rparr>))"
proof -
  have "CLUSTER_SIZE * length cs \<le> 2 ^ 32"
    using chain_length [OF assms(7)] assms(1) by simp
  from read_loop_chain [OF assms(7) this, of "buf r" 0]
  show ?thesis using assms by (simp add: fat32_read_eq Let_def)
qed

lemma fat32_read_returns:
  "fat32_read r st = Some (Inr (c, st')) \<Longrightarrow>
   st' = st \<or> (\<exists>e. read_loop (buf r) (entry_cluster e) 0 st = Some (Inr st'))"
  by (auto simp: fat32_read_def map_sum_Inr_iff split: sum.splits option.splits prod.splits if_splits)

lemma write_commit_code: "write_commit r t slot slots st = Inr (c, st') \<Longrightarrow> c = 0"
  by (cases slots) (simp_all add: write_commit_def Let_def)

lemma fat32_write_returns:
  assumes "fat32_write r st = Inr (c, st')"
  shows "c = 0 \<or> st' = st"
proof -
  let ?t = "dir_at (storage st) (parent_cluster_number r)"
  obtain v where "fat_get (fat_table st) (parent_cluster_number r) = Inr v"
    using assms by (cases "fat_get (fat_table st) (parent_cluster_number r)") (auto simp: fat32_write_def bind_outcome_def)
  moreover obtain n slots where "count_empty_fat_slots (fat_table st) (clusters_required (buffer_size r)) = (n, slots)"
    by fastforce
  ultimately show ?thesis
    using assms write_commit_code [of r ?t _ slots st c st']
    by (cases "write_scan r 0 0 ?t") (auto simp: fat32_write_def bind_outcome_def Let_def split: if_splits)
qed

section \<open>delete\<close>

definition deleted :: "request \<Rightarrow> nat \<Rightarrow> u32 list \<Rightarrow> fs \<Rightarrow> fs \<Rightarrow> bool" where
  "deleted r i cs st st' \<longleftrightarrow>
     fat_table st' = fat_clear cs (fat_table st) \<and> memory st' = memory st
     \<and> synced st'
     \<and> dir_at (storage st') (parent_cluster_number r)
         = (dir_at (storage st) (parent_cluster_number r))[i := zero_dirent]
     \<and> (\<forall>d \<in> set cs. rd (storage st') d = zero_cluster)
     \<and> (\<forall>d. cluster_valid d \<and> d \<notin> set cs \<and> d \<noteq> FAT_CLUSTER_NUMBER \<and> d \<noteq> parent_cluster_number r
           \<longrightarrow> rd (storage st') d = rd (storage st) d)"

lemma fat32_delete_ok:
  assumes "length (fat_table st) = CLUSTER_MAP_SIZE" and "unat (parent_cluster_number r) < CLUSTER_MAP_SIZE"
    and "fat_table st ! unat (parent_cluster_number r) = FAT32_FAT_END_OF_FILE"
    and "find_entry (entry_matches r) 0 (dir_at (storage st) (parent_cluster_number r)) = Some (i, e)"
    and "attribute e = ATTR_SUBDIRECTORY \<Longrightarrow> folder_empty (drop 2 (dir_at (storage st) (entry_cluster e)))"
    and "chain (fat_table st) (entry_cluster e) cs" and "cs \<noteq> []"
    and p: "parent_cluster_number r \<notin> set cs" "parent_cluster_number r \<noteq> FAT_CLUSTER_NUMBER"
    and "FAT_CLUSTER_NUMBER \<notin> set cs"
  shows "\<exists>st'. fat32_delete r st = Some (Inr (0, st')) \<and> deleted r i cs st st'"
proof -
  let ?p = "parent_cluster_number r"
  let ?t = "(dir_at (storage st) ?p)[i := zero_dirent]"
  let ?s1 = "wr (storage st) ?p (encode_table ?t)"
  let ?fat = "fat_clear cs (fat_table st)"
  let ?s2 = "storage_clear cs ?s1"
  let ?s3 = "wr ?s2 FAT_CLUSTER_NUMBER (encode_fat ?fat)"
  let ?st' = "st\<lparr>fat_table := ?fat, storage := ?s3\<rparr>"
  have wf: "wf_table ?t" by (intro wf_table_update) simp_all
  have vcs: "\<forall>d \<in> set cs. cluster_valid d"
    using chain_bounds [OF assms(6)] assms(1) by (auto intro: small_cluster_valid)
  have vp: "cluster_valid ?p" using assms(2) by (rule small_cluster_valid)
  have "delete_loop (entry_cluster e) (st\<lparr>storage := ?s1\<rparr>)
      = Some (Inr (st\<lparr>storage := ?s2, fat_table := ?fat\<rparr>))"
    using delete_loop_chain [of "st\<lparr>storage := ?s1\<rparr>" "entry_cluster e" cs] assms(6,7) by simp
  then have "fat32_delete r st = Some (Inr (0, ?st'))"
    using assms(1-5) by (auto simp: fat32_delete_def Let_def)
  moreover have rd3: "rd ?s3 d = (if d = FAT_CLUSTER_NUMBER then encode_fat ?fat
      else if d \<in> set cs then zero_cluster else if d = ?p then encode_table ?t else rd (storage st) d)"
    if "cluster_valid d" for d
    using that vcs vp wf assms(1) by (auto simp: clusters.get_put rd_storage_clear)
  have "deleted r i cs st ?st'"
    unfolding deleted_def synced_def
    using rd3 vcs vp p assms(10) wf by auto
  ultimately show ?thesis by blast
qed

end
