(* ===== verification/Fat32_Inv.thy ===== *)
theory Fat32_Inv
  imports Fat32_Effects
begin

unbundle bit_operations_syntax

text \<open>
  The invariant of the whole file system. \<open>fs_inv st D\<close> says that \<open>D\<close> is the set of
  directory clusters, that every directory table is well formed (self and parent entries,
  cleared dead entries, no two live entries with one name), that every live entry owns a
  chain (a folder the single cluster of its table, a file a chain of as many clusters as
  its size needs, outside all tables), and that no cluster has two owners. Formatting
  establishes it; \<open>write\<close> and \<open>delete\<close> preserve it, under conditions on the request that
  the theorems name.
\<close>

section \<open>Following the table, executably\<close>

fun follow :: "nat \<Rightarrow> u32 list \<Rightarrow> u32 \<Rightarrow> u32 list" where
  "follow 0 fat c = []"
| "follow (Suc n) fat c =
     (if c = FAT32_FAT_END_OF_FILE \<or> length fat \<le> unat c then []
      else c # follow n fat (fat ! unat c))"

lemma follow_chain: "chain fat c cs \<Longrightarrow> length cs \<le> n \<Longrightarrow> follow n fat c = cs"
proof (induction cs arbitrary: c n)
  case Nil
  then show ?case by (cases n) auto
next
  case (Cons d cs)
  then show ?case by (cases n) auto
qed

definition clusters_of :: "u32 list \<Rightarrow> dirent \<Rightarrow> u32 list" where
  "clusters_of fat e = follow (length fat) fat (entry_cluster e)"

lemma clusters_of_chain: "chain fat (entry_cluster e) cs \<Longrightarrow> clusters_of fat e = cs"
  by (simp add: clusters_of_def follow_chain chain_length)

section \<open>The invariant\<close>

definition live :: "dirent list \<Rightarrow> nat \<Rightarrow> bool" where
  "live t i \<longleftrightarrow> 2 \<le> i \<and> i < DIR_ENTRIES \<and> user_attribute (t ! i) = UATTR_NOT_EMPTY"

definition entry_key :: "dirent \<Rightarrow> byte list \<times> byte list" where
  "entry_key e = (name e, ext e)"

definition request_key :: "request \<Rightarrow> byte list \<times> byte list" where
  "request_key r = (rname r, rext r)"

definition is_folder :: "dirent \<Rightarrow> bool" where
  "is_folder e \<longleftrightarrow> attribute e = ATTR_SUBDIRECTORY"

definition table_ok :: "dirent list \<Rightarrow> bool" where
  "table_ok t \<longleftrightarrow>
     (\<forall>i < 2. user_attribute (t ! i) = UATTR_NOT_EMPTY)
     \<and> (\<forall>i. 2 \<le> i \<and> i < DIR_ENTRIES \<and> \<not> live t i \<longrightarrow> t ! i = zero_dirent)
     \<and> (\<forall>i j. live t i \<and> (live t j \<or> j < 2) \<and> i \<noteq> j \<longrightarrow> entry_key (t ! i) \<noteq> entry_key (t ! j))"

text \<open>The largest file whose cluster count fits the \<open>uint8_t\<close> that holds it.\<close>

definition MAX_FILE :: nat where
  "MAX_FILE = 255 * CLUSTER_SIZE"

definition entry_ok :: "u32 list \<Rightarrow> u32 set \<Rightarrow> dirent \<Rightarrow> bool" where
  "entry_ok fat D e \<longleftrightarrow>
     (let cs = clusters_of fat e in
       chain fat (entry_cluster e) cs \<and> FAT_CLUSTER_NUMBER \<notin> set cs
       \<and> (if is_folder e then cs = [entry_cluster e] \<and> entry_cluster e \<in> D - {ROOT_CLUSTER_NUMBER}
          else set cs \<inter> D = {} \<and> 0 < unat (filesize e) \<and> unat (filesize e) \<le> MAX_FILE
            \<and> length cs = (unat (filesize e) + 2047) div CLUSTER_SIZE))"

definition entries :: "fs \<Rightarrow> u32 set \<Rightarrow> (u32 \<times> nat) set" where
  "entries st D = {(d, i). d \<in> D \<and> live (dir_at (storage st) d) i}"

definition entry_at :: "fs \<Rightarrow> u32 \<times> nat \<Rightarrow> dirent" where
  "entry_at st x = dir_at (storage st) (fst x) ! snd x"

definition dirs_ok :: "fs \<Rightarrow> u32 set \<Rightarrow> bool" where
  "dirs_ok st D \<longleftrightarrow> ROOT_CLUSTER_NUMBER \<in> D
     \<and> (\<forall>d \<in> D. 2 \<le> unat d \<and> unat d < CLUSTER_MAP_SIZE
          \<and> fat_table st ! unat d = FAT32_FAT_END_OF_FILE \<and> table_ok (dir_at (storage st) d))"

definition owners_ok :: "fs \<Rightarrow> u32 set \<Rightarrow> bool" where
  "owners_ok st D \<longleftrightarrow>
     (\<forall>x \<in> entries st D. entry_ok (fat_table st) D (entry_at st x))
     \<and> (\<forall>x \<in> entries st D. \<forall>y \<in> entries st D. x \<noteq> y \<longrightarrow>
          set (clusters_of (fat_table st) (entry_at st x)) \<inter> set (clusters_of (fat_table st) (entry_at st y)) = {})"

definition fs_inv :: "fs \<Rightarrow> u32 set \<Rightarrow> bool" where
  "fs_inv st D \<longleftrightarrow> driver_ok st \<and> dirs_ok st D \<and> owners_ok st D"

section \<open>Consequences\<close>

lemma fs_inv_fat:
  assumes "fs_inv st D"
  shows "length (fat_table st) = CLUSTER_MAP_SIZE" and "\<not> (\<exists>ds. chain (fat_table st) 0 ds)"
  using assms no_chain_from_0 by (auto simp: fs_inv_def driver_ok_def fat_ok_def)

lemma fs_inv_dir:
  assumes "fs_inv st D" and "d \<in> D"
  shows "2 \<le> unat d" and "unat d < CLUSTER_MAP_SIZE" and "fat_table st ! unat d = FAT32_FAT_END_OF_FILE"
    and "table_ok (dir_at (storage st) d)" and "cluster_valid d" and "d \<noteq> 0" and "d \<noteq> FAT_CLUSTER_NUMBER"
proof -
  show "2 \<le> unat d" "unat d < CLUSTER_MAP_SIZE" "fat_table st ! unat d = FAT32_FAT_END_OF_FILE"
    "table_ok (dir_at (storage st) d)"
    using assms by (auto simp: fs_inv_def dirs_ok_def)
  then show "cluster_valid d" "d \<noteq> 0" "d \<noteq> FAT_CLUSTER_NUMBER"
    by (auto intro: small_cluster_valid)
qed

lemma fs_inv_entry:
  assumes "fs_inv st D" and "x \<in> entries st D"
  shows "chain (fat_table st) (entry_cluster (entry_at st x)) (clusters_of (fat_table st) (entry_at st x))"
    and "FAT_CLUSTER_NUMBER \<notin> set (clusters_of (fat_table st) (entry_at st x))"
  using assms by (auto simp: fs_inv_def owners_ok_def entry_ok_def Let_def)

lemma owned_in_use:
  assumes "fs_inv st D" and "x \<in> entries st D"
    and "c \<in> set (clusters_of (fat_table st) (entry_at st x))"
  shows "fat_table st ! unat c \<noteq> 0" and "unat c < CLUSTER_MAP_SIZE"
  using chain_in_use [OF fs_inv_entry(1) [OF assms(1,2)] assms(3)] fs_inv_fat [OF assms(1)]
    chain_bounds [OF fs_inv_entry(1) [OF assms(1,2)] assms(3)] by auto

lemma owned_nonempty:
  assumes "fs_inv st D" and "x \<in> entries st D"
  shows "clusters_of (fat_table st) (entry_at st x) \<noteq> []"
proof -
  have "0 < (unat n + 2047) div CLUSTER_SIZE" if "0 < unat n" for n :: u32
    using that by (simp add: div_greater_zero_iff)
  with assms show ?thesis
    by (auto simp: fs_inv_def owners_ok_def entry_ok_def Let_def split: if_splits)
qed

text \<open>A request whose name is that of neither the directory nor its parent finds live entries only.\<close>

definition plain_request :: "fs \<Rightarrow> u32 set \<Rightarrow> request \<Rightarrow> bool" where
  "plain_request st D r \<longleftrightarrow> wf_request r \<and> parent_cluster_number r \<in> D
     \<and> request_key r \<noteq> (replicate 8 0, replicate 3 0)
     \<and> (\<forall>i < 2. entry_key (dir_at (storage st) (parent_cluster_number r) ! i) \<noteq> request_key r)"

lemma matches_key:
  "wf_request r \<Longrightarrow> i < DIR_ENTRIES \<Longrightarrow> entry_matches r (dir_at img d ! i) \<longleftrightarrow> entry_key (dir_at img d ! i) = request_key r"
  using wf_table_nth [of "dir_at img d" i]
  by (auto simp: entry_matches_iff entry_key_def request_key_def)

lemma live_at: "live t i \<Longrightarrow> 2 \<le> i \<and> i < DIR_ENTRIES"
  by (simp add: live_def)

lemma plain_request_match:
  assumes "fs_inv st D" and "plain_request st D r" and "i < DIR_ENTRIES"
    and "entry_matches r (dir_at (storage st) (parent_cluster_number r) ! i)"
  shows "live (dir_at (storage st) (parent_cluster_number r)) i"
proof -
  let ?t = "dir_at (storage st) (parent_cluster_number r)"
  have wf: "wf_request r" and p: "parent_cluster_number r \<in> D"
    and nz: "request_key r \<noteq> (replicate 8 0, replicate 3 0)"
    and no2: "\<forall>i < 2. entry_key (?t ! i) \<noteq> request_key r"
    using assms(2) by (auto simp: plain_request_def)
  have key: "entry_key (?t ! i) = request_key r"
    using assms(3,4) wf by (simp add: matches_key)
  with no2 have i2: "2 \<le> i" by (meson not_le)
  show ?thesis
  proof (rule ccontr)
    assume "\<not> live ?t i"
    with fs_inv_dir(4) [OF assms(1) p] i2 assms(3) have "?t ! i = zero_dirent"
      by (auto simp: table_ok_def)
    with key nz show False by (simp add: entry_key_def)
  qed
qed

lemma find_live:
  assumes "fs_inv st D" and "plain_request st D r"
    and "live (dir_at (storage st) (parent_cluster_number r)) i"
    and "entry_key (dir_at (storage st) (parent_cluster_number r) ! i) = request_key r"
  shows "find_entry (entry_matches r) 0 (dir_at (storage st) (parent_cluster_number r))
       = Some (i, dir_at (storage st) (parent_cluster_number r) ! i)"
proof (rule find_entry_0_unique)
  let ?t = "dir_at (storage st) (parent_cluster_number r)"
  have wf: "wf_request r" and p: "parent_cluster_number r \<in> D"
    using assms(2) by (auto simp: plain_request_def)
  show "i < length ?t" using live_at [OF assms(3)] by simp
  show "entry_matches r (?t ! i)" using live_at [OF assms(3)] assms(4) wf by (simp add: matches_key)
  fix k assume "k < length ?t" and m: "entry_matches r (?t ! k)"
  then have k: "k < DIR_ENTRIES" by simp
  have "live ?t k" by (rule plain_request_match [OF assms(1,2) k m])
  moreover have "entry_key (?t ! k) = request_key r" using m k wf by (simp add: matches_key)
  ultimately show "k = i"
    using fs_inv_dir(4) [OF assms(1) p] assms(3,4) unfolding table_ok_def by metis
qed

lemma find_none:
  assumes "fs_inv st D" and "plain_request st D r"
    and "\<And>i. live (dir_at (storage st) (parent_cluster_number r)) i \<Longrightarrow>
      entry_key (dir_at (storage st) (parent_cluster_number r) ! i) \<noteq> request_key r"
  shows "\<forall>e \<in> set (dir_at (storage st) (parent_cluster_number r)). \<not> entry_matches r e"
proof
  let ?t = "dir_at (storage st) (parent_cluster_number r)"
  fix e assume "e \<in> set ?t"
  then obtain i where i: "i < DIR_ENTRIES" "e = ?t ! i" by (metis in_set_conv_nth length_dir_at)
  show "\<not> entry_matches r e"
  proof
    assume m: "entry_matches r e"
    with i have "live ?t i" using plain_request_match [OF assms(1,2)] by blast
    moreover have "entry_key (?t ! i) = request_key r"
      using m i assms(2) by (simp add: matches_key plain_request_def)
    ultimately show False using assms(3) by blast
  qed
qed

section \<open>Formatting\<close>

lemma root_table_no_live: "\<not> live root_table i"
  by (auto simp: live_def root_table_def nth_list_update)

lemma format_inv: "fs_inv (create_fat32 st) {ROOT_CLUSTER_NUMBER}"
proof -
  have "entries (create_fat32 st) {ROOT_CLUSTER_NUMBER} = {}"
    by (auto simp: entries_def create_fat32_root root_table_no_live)
  moreover have "table_ok root_table"
    unfolding table_ok_def
    by (auto simp: root_table_no_live) (auto simp: root_table_def nth_list_update less_2_cases_iff)
  ultimately show ?thesis
    using create_fat32_driver_ok [of st]
    by (auto simp: fs_inv_def dirs_ok_def owners_ok_def create_fat32_root create_fat32_fat
        driver_ok_def fat_ok_def)
qed

end
