(* ===== verification/Fat32_Write.thy ===== *)
theory Fat32_Write
  imports Fat32_Inv
begin

unbundle bit_operations_syntax

text \<open>
  \<open>write\<close> against the invariant: with a request for a directory of the system, a size
  that fits the cluster counter and enough room, the call succeeds, its effect is
  \<open>wrote\<close>, and the invariant holds again, with the new folder among the directories.
\<close>

section \<open>The state after a successful write\<close>

definition fits :: "request \<Rightarrow> bool" where
  "fits r \<longleftrightarrow> unat (buffer_size r) \<le> MAX_FILE"

lemma clusters_required_fits:
  assumes "fits r"
  shows "unat (clusters_required (buffer_size r))
       = (if buffer_size r = 0 then 1 else (unat (buffer_size r) + 2047) div CLUSTER_SIZE)"
proof -
  let ?n = "unat (buffer_size r)"
  have small: "?n < 2 ^ 24" using assms by (simp add: fits_def MAX_FILE_def)
  have "(?n + 2047) div CLUSTER_SIZE < 256"
    using assms by (simp add: fits_def MAX_FILE_def div_less_iff_less_mult)
  then show ?thesis
    using ceil_size_in_clusters [of 0]
    by (auto simp: clusters_required_def ceil_size_in_clusters [OF small] unat_of_nat)
qed

lemma clusters_required_pos: "fits r \<Longrightarrow> 0 < unat (clusters_required (buffer_size r))"
  using unat_gt_0 [of "buffer_size r"] by (auto simp: clusters_required_fits div_greater_zero_iff)

text \<open>A write that took place: the checks it passed and its effect.\<close>

definition write_step :: "fs \<Rightarrow> fs \<Rightarrow> u32 set \<Rightarrow> request \<Rightarrow> nat \<Rightarrow> u32 list \<Rightarrow> bool" where
  "write_step st st' D r slot slots \<longleftrightarrow>
     fs_inv st D \<and> parent_cluster_number r \<in> D \<and> wf_request r \<and> fits r
     \<and> (\<forall>e \<in> set (dir_at (storage st) (parent_cluster_number r)). \<not> entry_matches r e)
     \<and> dead_slot (dir_at (storage st) (parent_cluster_number r)) slot
     \<and> set slots \<subseteq> set (free_clusters (fat_table st)) \<and> distinct slots
     \<and> length slots = unat (clusters_required (buffer_size r))
     \<and> wrote r slot slots st st'"

definition dirs_after :: "request \<Rightarrow> u32 list \<Rightarrow> u32 set \<Rightarrow> u32 set" where
  "dirs_after r slots D = (if buffer_size r = 0 then insert (hd slots) D else D)"

lemma write_stepD:
  assumes "write_step st st' D r slot slots"
  shows ws_inv: "fs_inv st D" and ws_dir: "parent_cluster_number r \<in> D" and ws_wf: "wf_request r"
    and ws_fits: "fits r"
    and ws_no_match: "\<forall>e \<in> set (dir_at (storage st) (parent_cluster_number r)). \<not> entry_matches r e"
    and ws_dead: "dead_slot (dir_at (storage st) (parent_cluster_number r)) slot"
    and ws_free: "set slots \<subseteq> set (free_clusters (fat_table st))" and ws_dist: "distinct slots"
    and ws_len: "length slots = unat (clusters_required (buffer_size r))"
    and ws_effect: "wrote r slot slots st st'"
  using assms by (simp_all add: write_step_def)

lemma ws_slots_nonempty:
  assumes ws: "write_step st st' D r slot slots"
  shows "slots \<noteq> []"
  using ws_len [OF ws] clusters_required_pos [OF ws_fits [OF ws]] by auto

lemma ws_slots_free:
  assumes ws: "write_step st st' D r slot slots" and prem: "c \<in> set slots"
  shows "unat c < CLUSTER_MAP_SIZE" and "fat_table st ! unat c = 0"
    and "c \<notin> D" and "2 < unat c"
proof -
  show b: "unat c < CLUSTER_MAP_SIZE" and f: "fat_table st ! unat c = 0"
    using prem ws_free [OF ws] set_free_clusters [of "fat_table st"] fs_inv_fat [OF ws_inv [OF ws]] by auto
  show "c \<notin> D" using f fs_inv_dir(3) [OF ws_inv [OF ws], of c] by auto
  have nz: "\<forall>n \<le> 2. fat_table st ! n \<noteq> 0"
    using ws_inv [OF ws] fat_ok_reserved by (simp add: fs_inv_def driver_ok_def)
  show "2 < unat c"
  proof (rule ccontr)
    assume "\<not> 2 < unat c"
    with nz f show False by simp
  qed
qed

lemma ws_new_fat:
  assumes ws: "write_step st st' D r slot slots"
  shows "fat_table st' = link_fat slots (fat_table st)"
  using ws_effect [OF ws] by (simp add: wrote_def)

lemma ws_fat_other:
  assumes ws: "write_step st st' D r slot slots"
  shows "c \<notin> set slots \<Longrightarrow> fat_table st' ! unat c = fat_table st ! unat c"
  by (simp add: ws_new_fat [OF ws] nth_link_fat_other)

lemma ws_new_chain:
  assumes ws: "write_step st st' D r slot slots"
  shows "chain (fat_table st') (hd slots) slots"
proof -
  have "\<forall>c \<in> set slots. unat c < length (fat_table st) \<and> c \<noteq> FAT32_FAT_END_OF_FILE"
    using ws_slots_free(1) [OF ws] ws_slots_free(1) [OF ws, of FAT32_FAT_END_OF_FILE]
      fs_inv_fat(1) [OF ws_inv [OF ws]] by auto
  then show ?thesis unfolding ws_new_fat [OF ws] by (intro chain_link_fat ws_dist [OF ws] ws_slots_nonempty [OF ws])
qed

lemma ws_rd_other:
  assumes ws: "write_step st st' D r slot slots"
  shows "cluster_valid d \<Longrightarrow> d \<notin> set slots \<Longrightarrow> d \<noteq> FAT_CLUSTER_NUMBER \<Longrightarrow>
    d \<noteq> parent_cluster_number r \<Longrightarrow> rd (storage st') d = rd (storage st) d"
  using ws_effect [OF ws] by (simp add: wrote_def)

lemma ws_old_dir:
  assumes ws: "write_step st st' D r slot slots"
  shows "d \<in> D \<Longrightarrow> dir_at (storage st') d =
    (if d = parent_cluster_number r
     then (dir_at (storage st) d)[slot := new_entry r (buffer_size r = 0) (hd slots)]
     else dir_at (storage st) d)"
  using ws_effect [OF ws] ws_rd_other [OF ws, of d] fs_inv_dir(5,7) [OF ws_inv [OF ws], of d] ws_slots_free(3) [OF ws] by (auto simp: wrote_def)

lemma ws_child_dir:
  assumes ws: "write_step st st' D r slot slots"
  shows "buffer_size r = 0 \<Longrightarrow> dir_at (storage st') (hd slots) = child_table st r (hd slots)"
  using ws_effect [OF ws] by (simp add: wrote_def)

lemma ws_hd_new:
  assumes ws: "write_step st st' D r slot slots"
  shows "hd slots \<notin> D" "hd slots \<in> set slots"
  using ws_slots_free(3) [OF ws] ws_slots_nonempty [OF ws] by simp_all

lemma ws_driver:
  assumes ws: "write_step st st' D r slot slots"
  shows "driver_ok st'"
proof -
  have z: "c \<notin> set slots" if "unat c \<le> 2" for c using ws_slots_free(4) [OF ws, of c] that by auto
  have "fat_ok (fat_table st')"
    using ws_inv [OF ws] ws_fat_other [OF ws, of 0] ws_fat_other [OF ws, of 1] ws_fat_other [OF ws, of 2] z [of 0] z [of 1] z [of 2]
    by (simp add: fs_inv_def driver_ok_def fat_ok_def ws_new_fat [OF ws])
  moreover have "rd (storage st') 0 = rd (storage st) 0"
    using z [of 0] fs_inv_dir(6) [OF ws_inv [OF ws] ws_dir [OF ws]] by (intro ws_rd_other [OF ws]) (auto simp: cluster_valid_def)
  ultimately show ?thesis
    using ws_inv [OF ws] ws_effect [OF ws] by (simp add: fs_inv_def driver_ok_def signed_def wrote_def)
qed

lemma ws_slot_range:
  assumes ws: "write_step st st' D r slot slots"
  shows "2 \<le> slot" "slot < DIR_ENTRIES"
    "\<not> live (dir_at (storage st) (parent_cluster_number r)) slot"
proof -
  show "slot < DIR_ENTRIES" using ws_dead [OF ws] by (simp add: dead_slot_def)
  have "\<forall>i < 2. user_attribute (dir_at (storage st) (parent_cluster_number r) ! i) = UATTR_NOT_EMPTY"
    using fs_inv_dir(4) [OF ws_inv [OF ws] ws_dir [OF ws]] by (simp add: table_ok_def)
  with ws_dead [OF ws] show "2 \<le> slot" by (meson dead_slot_def not_le)
  show "\<not> live (dir_at (storage st) (parent_cluster_number r)) slot"
    using ws_dead [OF ws] by (simp add: dead_slot_def live_def)
qed

lemma child_no_live: "\<not> live (child_table st r c) i"
  by (auto simp: live_def child_table_def init_directory_table_def Let_def nth_list_update)

lemma ws_live_update:
  assumes ws: "write_step st st' D r slot slots" and prem: "d \<in> D"
  shows "live (dir_at (storage st') d) i \<longleftrightarrow>
    (d, i) = (parent_cluster_number r, slot) \<or> live (dir_at (storage st) d) i"
  using ws_old_dir [OF ws prem] ws_slot_range [OF ws]
  by (auto simp: live_def nth_list_update new_entry_def)

lemma ws_entries_update:
  assumes ws: "write_step st st' D r slot slots"
  shows "entries st' (dirs_after r slots D) = insert (parent_cluster_number r, slot) (entries st D)"
  using ws_live_update [OF ws] ws_dir [OF ws] ws_child_dir [OF ws] child_no_live ws_hd_new [OF ws]
  by (auto simp: entries_def dirs_after_def split: if_splits)

lemma ws_new_not_old:
  assumes ws: "write_step st st' D r slot slots"
  shows "(parent_cluster_number r, slot) \<notin> entries st D"
  using ws_slot_range(3) [OF ws] by (simp add: entries_def)

lemma ws_old_entry_at:
  assumes ws: "write_step st st' D r slot slots"
  shows "x \<in> entries st D \<Longrightarrow> entry_at st' x = entry_at st x"
  using ws_slot_range(3) [OF ws]
  by (cases x; cases "snd x = slot") (auto simp: entries_def entry_at_def ws_old_dir [OF ws])

lemma ws_new_entry_at:
  assumes ws: "write_step st st' D r slot slots"
  shows "entry_at st' (parent_cluster_number r, slot) = new_entry r (buffer_size r = 0) (hd slots)"
  using ws_slot_range [OF ws] by (simp add: entry_at_def ws_old_dir [OF ws ws_dir [OF ws]])

lemma ws_old_disjoint:
  assumes ws: "write_step st st' D r slot slots"
  shows "x \<in> entries st D \<Longrightarrow> set (clusters_of (fat_table st) (entry_at st x)) \<inter> set slots = {}"
  using owned_in_use(1) [OF ws_inv [OF ws]] ws_slots_free(2) [OF ws] by blast

lemma ws_old_clusters:
  assumes ws: "write_step st st' D r slot slots" and prem: "x \<in> entries st D"
  shows "chain (fat_table st') (entry_cluster (entry_at st x)) (clusters_of (fat_table st) (entry_at st x))"
    and "clusters_of (fat_table st') (entry_at st x) = clusters_of (fat_table st) (entry_at st x)"
proof -
  have "chain (fat_table st') (entry_cluster (entry_at st x)) (clusters_of (fat_table st) (entry_at st x))
      = chain (fat_table st) (entry_cluster (entry_at st x)) (clusters_of (fat_table st) (entry_at st x))"
    using ws_old_disjoint [OF ws prem] ws_fat_other [OF ws]
    by (intro chain_cong) (simp add: ws_new_fat [OF ws], blast)
  then show c: "chain (fat_table st') (entry_cluster (entry_at st x)) (clusters_of (fat_table st) (entry_at st x))"
    using fs_inv_entry(1) [OF ws_inv [OF ws] prem] by simp
  show "clusters_of (fat_table st') (entry_at st x) = clusters_of (fat_table st) (entry_at st x)"
    by (rule clusters_of_chain [OF c])
qed

lemma ws_new_clusters:
  assumes ws: "write_step st st' D r slot slots"
  shows "clusters_of (fat_table st') (new_entry r f (hd slots)) = slots"
  by (rule clusters_of_chain) (simp add: ws_new_chain [OF ws])

lemma ws_folder_slots:
  assumes ws: "write_step st st' D r slot slots"
  shows "buffer_size r = 0 \<Longrightarrow> slots = [hd slots]"
  using ws_effect [OF ws] by (simp add: wrote_def)

lemma ws_new_entry_ok:
  assumes ws: "write_step st st' D r slot slots"
  shows "entry_ok (fat_table st') (dirs_after r slots D) (new_entry r (buffer_size r = 0) (hd slots))"
proof -
  have f1: "FAT_CLUSTER_NUMBER \<notin> set slots" using ws_slots_free(4) [OF ws, of FAT_CLUSTER_NUMBER] by auto
  have sf: "set slots \<inter> D = {}" using ws_slots_free(3) [OF ws] by blast
  have r2: "hd slots \<noteq> ROOT_CLUSTER_NUMBER" using ws_slots_free(4) [OF ws] ws_hd_new(2) [OF ws] by fastforce
  have ch: "chain (fat_table st') (entry_cluster (new_entry r (buffer_size r = 0) (hd slots))) slots"
    using ws_new_chain [OF ws] by simp
  show ?thesis
  proof (cases "buffer_size r = 0")
    case True
    then have "is_folder (new_entry r (buffer_size r = 0) (hd slots))"
      by (simp add: is_folder_def new_entry_def)
    then show ?thesis
      using True ch f1 r2 ws_folder_slots [OF ws] by (simp add: entry_ok_def Let_def ws_new_clusters [OF ws] dirs_after_def)
  next
    case False
    then have "\<not> is_folder (new_entry r (buffer_size r = 0) (hd slots))"
      by (simp add: is_folder_def new_entry_def)
    moreover have "filesize (new_entry r (buffer_size r = 0) (hd slots)) = buffer_size r"
      by (simp add: new_entry_def)
    moreover have "length slots = (unat (buffer_size r) + 2047) div CLUSTER_SIZE"
      using False ws_len [OF ws] clusters_required_fits [OF ws_fits [OF ws]] by simp
    moreover have "0 < unat (buffer_size r)" using False by (simp add: unat_gt_0)
    ultimately show ?thesis
      using False ch f1 sf ws_fits [OF ws] by (simp add: entry_ok_def Let_def ws_new_clusters [OF ws] dirs_after_def fits_def)
  qed
qed

lemma ws_old_entry_ok:
  assumes ws: "write_step st st' D r slot slots" and prem: "x \<in> entries st D"
  shows "entry_ok (fat_table st') (dirs_after r slots D) (entry_at st x)"
proof -
  have ok: "entry_ok (fat_table st) D (entry_at st x)"
    using ws_inv [OF ws] prem by (auto simp: fs_inv_def owners_ok_def)
  have "hd slots \<notin> set (clusters_of (fat_table st) (entry_at st x))"
    using ws_old_disjoint [OF ws prem] ws_hd_new(2) [OF ws] by blast
  with ok ws_old_clusters [OF ws prem] show ?thesis
    by (auto simp: entry_ok_def Let_def dirs_after_def split: if_splits)
qed

lemma ws_owners:
  assumes ws: "write_step st st' D r slot slots"
  shows "owners_ok st' (dirs_after r slots D)"
proof -
  let ?n = "(parent_cluster_number r, slot)"
  have "\<forall>x \<in> entries st D. \<forall>y \<in> entries st D. x \<noteq> y \<longrightarrow>
      set (clusters_of (fat_table st) (entry_at st x)) \<inter> set (clusters_of (fat_table st) (entry_at st y)) = {}"
    using ws_inv [OF ws] by (simp add: fs_inv_def owners_ok_def)
  then show ?thesis
    unfolding owners_ok_def ws_entries_update [OF ws]
    using ws_new_entry_ok [OF ws] ws_old_entry_ok [OF ws] ws_old_disjoint [OF ws] ws_old_clusters(2) [OF ws] ws_new_not_old [OF ws]
    by (auto simp: ws_old_entry_at [OF ws] ws_new_entry_at [OF ws] ws_new_clusters [OF ws]) blast+
qed

lemma ws_parent_table_ok:
  assumes ws: "write_step st st' D r slot slots"
  shows "table_ok (dir_at (storage st') (parent_cluster_number r))"
proof -
  let ?t = "dir_at (storage st) (parent_cluster_number r)"
  let ?e = "new_entry r (buffer_size r = 0) (hd slots)"
  let ?t' = "?t[slot := ?e]"
  have t': "dir_at (storage st') (parent_cluster_number r) = ?t'" using ws_old_dir [OF ws ws_dir [OF ws]] by simp
  have ok: "table_ok ?t" by (rule fs_inv_dir(4) [OF ws_inv [OF ws] ws_dir [OF ws]])
  have nth: "?t' ! i = (if i = slot then ?e else ?t ! i)" for i
    using ws_slot_range(2) [OF ws] by (simp add: nth_list_update)
  have lv: "live ?t' i \<longleftrightarrow> i = slot \<or> live ?t i" for i
    using ws_live_update [OF ws ws_dir [OF ws], of i] t' by simp
  have key: "entry_key ?e = request_key r" by (simp add: entry_key_def request_key_def new_entry_def)
  have old_key: "entry_key (?t ! i) \<noteq> request_key r" if "i < DIR_ENTRIES" for i
    using ws_no_match [OF ws] matches_key [OF ws_wf [OF ws] that] that by (metis length_dir_at nth_mem)
  have r1: "\<forall>i < 2. user_attribute (?t' ! i) = UATTR_NOT_EMPTY"
    using ok ws_slot_range(1) [OF ws] by (auto simp: nth table_ok_def)
  have r2: "\<forall>i. 2 \<le> i \<and> i < DIR_ENTRIES \<and> \<not> live ?t' i \<longrightarrow> ?t' ! i = zero_dirent"
    using ok by (auto simp: nth lv table_ok_def)
  have r3: "entry_key (?t' ! i) \<noteq> entry_key (?t' ! j)"
    if "live ?t' i" "live ?t' j \<or> j < 2" "i \<noteq> j" for i j
  proof -
    have "i < DIR_ENTRIES" "j < DIR_ENTRIES" using that live_at [of ?t'] by auto
    then show ?thesis
      using that ok old_key [of i] old_key [of j] ws_slot_range(1) [OF ws]
      by (auto simp: nth lv key table_ok_def)
  qed
  show ?thesis unfolding t' table_ok_def using r1 r2 r3 by blast
qed

lemma child_table_ok: "table_ok (child_table st r c)"
  unfolding table_ok_def
  by (auto simp: child_no_live)
    (auto simp: child_table_def init_directory_table_def Let_def nth_list_update less_2_cases_iff)

lemma ws_dirs:
  assumes ws: "write_step st st' D r slot slots"
  shows "dirs_ok st' (dirs_after r slots D)"
proof -
  have new: "buffer_size r = 0 \<Longrightarrow> fat_table st' ! unat (hd slots) = FAT32_FAT_END_OF_FILE"
    using ws_folder_slots [OF ws] ws_new_chain [OF ws] by (metis chain.simps)
  have old: "2 \<le> unat d \<and> unat d < CLUSTER_MAP_SIZE \<and> fat_table st' ! unat d = FAT32_FAT_END_OF_FILE
      \<and> table_ok (dir_at (storage st') d)" if "d \<in> D" for d
    using fs_inv_dir [OF ws_inv [OF ws] that] ws_fat_other [OF ws, of d] ws_slots_free(3) [OF ws, of d] that ws_parent_table_ok [OF ws] ws_old_dir [OF ws that]
    by auto
  have "buffer_size r = 0 \<Longrightarrow> 2 \<le> unat (hd slots) \<and> unat (hd slots) < CLUSTER_MAP_SIZE"
    using ws_slots_free [OF ws ws_hd_new(2) [OF ws]] by simp
  then show ?thesis
    unfolding dirs_ok_def dirs_after_def
    using ws_inv [OF ws] old new ws_child_dir [OF ws] child_table_ok by (auto simp: fs_inv_def dirs_ok_def)
qed

lemma ws_preserved:
  assumes ws: "write_step st st' D r slot slots"
  shows "fs_inv st' (dirs_after r slots D)"
  using ws_driver [OF ws] ws_dirs [OF ws] ws_owners [OF ws] by (simp add: fs_inv_def)

section \<open>Every call\<close>

lemma free_plain_slots:
  assumes "fs_inv st D" and "p \<in> D" and "set slots \<subseteq> set (free_clusters (fat_table st))" and "distinct slots"
  shows "plain_slots slots" and "p \<notin> set slots"
proof -
  have in_free: "unat c < CLUSTER_MAP_SIZE \<and> fat_table st ! unat c = 0" if "c \<in> set slots" for c
    using that assms(3) set_free_clusters [OF fs_inv_fat(1) [OF assms(1)]] by blast
  show "p \<notin> set slots" using in_free [of p] fs_inv_dir(3) [OF assms(1,2)] by auto
  have "FAT_CLUSTER_NUMBER \<notin> set slots"
    using in_free [of FAT_CLUSTER_NUMBER] fat_ok_reserved [of "fat_table st" 1] assms(1)
    by (auto simp: fs_inv_def driver_ok_def)
  then show "plain_slots slots" using assms(4) in_free by (auto simp: plain_slots_def)
qed

lemma write_reaches_commit:
  assumes inv: "fs_inv st D" and dir: "parent_cluster_number r \<in> D" and wf: "wf_request r" and fit: "fits r"
    and "\<forall>e \<in> set (dir_at (storage st) (parent_cluster_number r)). \<not> entry_matches r e"
    and "dead_slot (dir_at (storage st) (parent_cluster_number r)) j"
    and "unat (clusters_required (buffer_size r)) \<le> length (free_clusters (fat_table st))"
  shows "\<exists>st'. fat32_write r st = Inr (0, st')
    \<and> write_step st st' D r (LEAST j. dead_slot (dir_at (storage st) (parent_cluster_number r)) j)
        (take (unat (clusters_required (buffer_size r))) (free_clusters (fat_table st)))"
proof -
  let ?p = "parent_cluster_number r" let ?t = "dir_at (storage st) ?p"
  let ?slot = "LEAST j. dead_slot ?t j"
  let ?slots = "take (unat (clusters_required (buffer_size r))) (free_clusters (fat_table st))"
  note fat = fs_inv_fat(1) [OF inv] and d = fs_inv_dir [OF inv dir]
  have slot: "dead_slot ?t ?slot" using assms(6) by (rule LeastI)
  have sub: "set ?slots \<subseteq> set (free_clusters (fat_table st))" by (rule set_take_subset)
  have len: "length ?slots = unat (clusters_required (buffer_size r))" using assms(7) by simp
  then have ne: "?slots \<noteq> []" using clusters_required_pos [OF fit] by auto
  have dist: "distinct ?slots" by (simp add: distinct_free_clusters)
  note plain = free_plain_slots(1) [OF inv dir sub dist] and p_in = free_plain_slots(2) [OF inv dir sub dist]
  have "\<exists>st'. write_commit r ?t ?slot ?slots st = Inr (0, st') \<and> wrote r ?slot ?slots st st'"
  proof (cases "buffer_size r = 0")
    case False
    then show ?thesis by (intro write_commit_file plain ne fat d p_in wf)
  next
    case True
    then have "length ?slots = Suc 0" using len clusters_required_fits [OF fit] by simp
    then obtain c where c: "?slots = [c]" by (metis length_0_conv length_Suc_conv)
    show ?thesis using plain p_in unfolding c by (intro write_commit_folder fat d wf True) auto
  qed
  then obtain st' where com: "write_commit r ?t ?slot ?slots st = Inr (0, st')"
    and eff: "wrote r ?slot ?slots st st'" by blast
  have ex: "\<not> (\<forall>j. \<not> dead_slot ?t j)" using assms(6) by blast
  have "\<not> (\<exists>e \<in> set ?t. entry_matches r e)" using assms(5) by blast
  then have "fat32_write r st = Inr (0, st')"
    using ex d(2,3) assms(7) com by (simp add: fat32_write_eq [OF fat] Let_def)
  moreover have "write_step st st' D r ?slot ?slots"
    unfolding write_step_def using assms slot sub dist len eff by blast
  ultimately show ?thesis by blast
qed

lemma fat32_write_cases:
  assumes inv: "fs_inv st D" and dir: "parent_cluster_number r \<in> D" and wf: "wf_request r" and fit: "fits r"
  obtains (exists) "\<exists>e \<in> set (dir_at (storage st) (parent_cluster_number r)). entry_matches r e"
      "fat32_write r st = Inr (1, st)"
  | (full) "\<forall>e \<in> set (dir_at (storage st) (parent_cluster_number r)). \<not> entry_matches r e"
      "(\<forall>j. \<not> dead_slot (dir_at (storage st) (parent_cluster_number r)) j)
       \<or> length (free_clusters (fat_table st)) < unat (clusters_required (buffer_size r))"
      "fat32_write r st = Inr (-1, st)"
  | (written) st' slot slots where "fat32_write r st = Inr (0, st')" "write_step st st' D r slot slots"
proof -
  let ?t = "dir_at (storage st) (parent_cluster_number r)"
  note eq = fat32_write_eq [OF fs_inv_fat(1) [OF inv], of r] and d = fs_inv_dir [OF inv dir]
  show thesis
  proof (cases "\<exists>e \<in> set ?t. entry_matches r e")
    case True
    with eq d(2,3) show ?thesis by (intro exists) (simp_all add: Let_def)
  next
    case no: False
    show ?thesis
    proof (cases "(\<forall>j. \<not> dead_slot ?t j)
       \<or> length (free_clusters (fat_table st)) < unat (clusters_required (buffer_size r))")
      case True
      then have "fat32_write r st = Inr (-1, st)"
        using no d(2,3) by (subst eq) (auto simp: Let_def)
      with no True show ?thesis by (intro full) blast+
    next
      case False
      then obtain j where "dead_slot ?t j" by blast
      with write_reaches_commit [OF assms, of j] no False written show ?thesis by force
    qed
  qed
qed

end
