(* ===== verification/Fat32_Delete.thy ===== *)
theory Fat32_Delete
  imports Fat32_Inv
begin

unbundle bit_operations_syntax

text \<open>
  \<open>delete\<close> against the invariant: for a request that does not name the directory itself
  or its parent, the call always returns; it removes the one live entry of that name and
  frees exactly the clusters the entry owned, and the invariant holds again for the
  directories that are left.
\<close>

definition folder_ready :: "fs \<Rightarrow> dirent \<Rightarrow> bool" where
  "folder_ready st e \<longleftrightarrow>
     (is_folder e \<longrightarrow> folder_empty (drop 2 (dir_at (storage st) (entry_cluster e))))"

text \<open>A delete that took place.\<close>

definition delete_step :: "fs \<Rightarrow> fs \<Rightarrow> u32 set \<Rightarrow> request \<Rightarrow> nat \<Rightarrow> bool" where
  "delete_step st st' D r i \<longleftrightarrow>
     (let t = dir_at (storage st) (parent_cluster_number r)
      in fs_inv st D \<and> plain_request st D r \<and> live t i \<and> entry_key (t ! i) = request_key r
         \<and> folder_ready st (t ! i) \<and> deleted r i (clusters_of (fat_table st) (t ! i)) st st')"

definition victim :: "request \<Rightarrow> nat \<Rightarrow> u32 \<times> nat" where
  "victim r i = (parent_cluster_number r, i)"

definition freed :: "fs \<Rightarrow> request \<Rightarrow> nat \<Rightarrow> u32 list" where
  "freed st r i = clusters_of (fat_table st) (entry_at st (victim r i))"

lemma delete_stepD:
  assumes "delete_step st st' D r i"
  shows ds_inv: "fs_inv st D" and ds_plain: "plain_request st D r" and ds_dir: "parent_cluster_number r \<in> D"
    and ds_live: "live (dir_at (storage st) (parent_cluster_number r)) i"
    and ds_entry: "victim r i \<in> entries st D"
    and ds_ready: "folder_ready st (entry_at st (victim r i))"
    and ds_effect: "deleted r i (freed st r i) st st'"
  using assms by (auto simp: delete_step_def Let_def plain_request_def entries_def victim_def entry_at_def freed_def)

lemma no_live_in_empty: "folder_empty (drop 2 t) \<Longrightarrow> length t = DIR_ENTRIES \<Longrightarrow> \<not> live t i"
proof
  assume e: "folder_empty (drop 2 t)" and l: "length t = DIR_ENTRIES" and "live t i"
  then obtain j where j: "i = 2 + j" "j < 62" "user_attribute (t ! i) = UATTR_NOT_EMPTY"
    by (auto simp: live_def dest!: le_Suc_ex)
  have "drop 2 t ! j \<in> set (drop 2 t)" using l j(2) by (intro nth_mem) simp
  then have "t ! i \<in> set (drop 2 t)" using l j(1) by simp
  with e j(3) show False by (auto simp: folder_empty_iff)
qed

text \<open>The clusters of an entry avoid the reserved clusters and, for the victim, its own directory.\<close>

lemma owned_not_reserved:
  assumes "fs_inv st D" and "x \<in> entries st D"
  shows "0 \<notin> set (clusters_of (fat_table st) (entry_at st x))"
    and "FAT_CLUSTER_NUMBER \<notin> set (clusters_of (fat_table st) (entry_at st x))"
    and "ROOT_CLUSTER_NUMBER \<notin> set (clusters_of (fat_table st) (entry_at st x))"
proof -
  let ?cs = "clusters_of (fat_table st) (entry_at st x)"
  have ch: "chain (fat_table st) (entry_cluster (entry_at st x)) ?cs"
    by (rule fs_inv_entry(1) [OF assms])
  show "0 \<notin> set ?cs"
  proof
    assume "0 \<in> set ?cs"
    then obtain xs ys where "?cs = xs @ 0 # ys" by (meson split_list)
    with ch have "chain (fat_table st) 0 (0 # ys)" by (metis chain_split)
    with fs_inv_fat(2) [OF assms(1)] show False by blast
  qed
  show "FAT_CLUSTER_NUMBER \<notin> set ?cs" by (rule fs_inv_entry(2) [OF assms])
  show "ROOT_CLUSTER_NUMBER \<notin> set ?cs"
    using assms by (auto simp: fs_inv_def owners_ok_def entry_ok_def dirs_ok_def Let_def split: if_splits)
qed

lemma victim_dir:
  assumes inv: "fs_inv st D" and x: "victim r i \<in> entries st D"
    and ready: "folder_ready st (entry_at st (victim r i))"
  shows "parent_cluster_number r \<notin> set (freed st r i)"
proof
  assume in_cs: "parent_cluster_number r \<in> set (freed st r i)"
  have pD: "parent_cluster_number r \<in> D" and l: "live (dir_at (storage st) (parent_cluster_number r)) i"
    using x by (auto simp: entries_def victim_def)
  have ok: "entry_ok (fat_table st) D (entry_at st (victim r i))"
    using inv x by (auto simp: fs_inv_def owners_ok_def)
  show False
  proof (cases "is_folder (entry_at st (victim r i))")
    case True
    with ok in_cs have "entry_cluster (entry_at st (victim r i)) = parent_cluster_number r"
      by (auto simp: entry_ok_def Let_def freed_def)
    with True ready l show False using no_live_in_empty by (auto simp: folder_ready_def)
  next
    case False
    with ok in_cs pD show False by (auto simp: entry_ok_def Let_def freed_def)
  qed
qed

lemmas ds_not_parent = victim_dir [OF ds_inv ds_entry ds_ready]
lemmas ds_not_reserved = owned_not_reserved [OF ds_inv ds_entry, folded freed_def]

lemma ds_valid:
  assumes ds: "delete_step st st' D r i" and "c \<in> set (freed st r i)"
  shows "unat c < CLUSTER_MAP_SIZE"
  using owned_in_use(2) [OF ds_inv [OF ds] ds_entry [OF ds]] assms(2) by (simp add: freed_def)

lemma ds_fat:
  assumes ds: "delete_step st st' D r i" and "unat c < CLUSTER_MAP_SIZE"
  shows "fat_table st' ! unat c = (if c \<in> set (freed st r i) then 0 else fat_table st ! unat c)"
  using ds_effect [OF ds] fs_inv_fat(1) [OF ds_inv [OF ds]] assms(2) by (simp add: deleted_def nth_fat_clear)

lemma ds_length: "delete_step st st' D r i \<Longrightarrow> length (fat_table st') = length (fat_table st)"
  using ds_effect [of st st' D r i] by (simp add: deleted_def)

lemma ds_driver:
  assumes ds: "delete_step st st' D r i"
  shows "driver_ok st'"
proof -
  note nr = ds_not_reserved [OF ds ds]
  have v0: "cluster_valid 0" by (simp add: cluster_valid_def)
  have "fat_ok (fat_table st')"
    using ds_inv [OF ds] ds_fat [OF ds, of 0] ds_fat [OF ds, of 1] ds_fat [OF ds, of 2] ds_length [OF ds] nr
    by (simp add: fs_inv_def driver_ok_def fat_ok_def)
  moreover have "rd (storage st') 0 = rd (storage st) 0"
    using ds_effect [OF ds] nr(1) fs_inv_dir(6) [OF ds_inv [OF ds] ds_dir [OF ds]] v0
    by (auto simp: deleted_def)
  ultimately show ?thesis
    using ds_inv [OF ds] ds_effect [OF ds] by (simp add: fs_inv_def driver_ok_def signed_def deleted_def)
qed

lemma ds_dir_at:
  assumes ds: "delete_step st st' D r i" and d: "d \<in> D - set (freed st r i)"
  shows "dir_at (storage st') d =
    (if d = parent_cluster_number r then (dir_at (storage st) d)[i := zero_dirent] else dir_at (storage st) d)"
  using ds_effect [OF ds] fs_inv_dir(5,7) [OF ds_inv [OF ds], of d] d by (auto simp: deleted_def)

lemma ds_live_update:
  assumes ds: "delete_step st st' D r i" and d: "d \<in> D - set (freed st r i)"
  shows "live (dir_at (storage st') d) j \<longleftrightarrow> live (dir_at (storage st) d) j \<and> (d, j) \<noteq> victim r i"
  using ds_dir_at [OF ds d] live_at [OF ds_live [OF ds]]
  by (auto simp: live_def nth_list_update victim_def)

lemma ds_freed_dirs:
  assumes ds: "delete_step st st' D r i" and "d \<in> D" and "d \<in> set (freed st r i)"
  shows "\<not> live (dir_at (storage st) d) j"
proof -
  have ok: "entry_ok (fat_table st) D (entry_at st (victim r i))"
    using ds_inv [OF ds] ds_entry [OF ds] by (auto simp: fs_inv_def owners_ok_def)
  with assms(2,3) have "is_folder (entry_at st (victim r i))" "d = entry_cluster (entry_at st (victim r i))"
    by (auto simp: entry_ok_def Let_def freed_def split: if_splits)
  with ds_ready [OF ds] show ?thesis by (intro no_live_in_empty) (simp_all add: folder_ready_def)
qed

lemma ds_entries:
  assumes ds: "delete_step st st' D r i"
  shows "entries st' (D - set (freed st r i)) = entries st D - {victim r i}"
proof -
  have "(d, j) \<in> entries st' (D - set (freed st r i)) \<longleftrightarrow> (d, j) \<in> entries st D - {victim r i}" for d j
    using ds_live_update [OF ds, of d j] ds_freed_dirs [OF ds, of d j]
    by (auto simp: entries_def)
  then show ?thesis by auto
qed

lemma ds_entry_at:
  assumes ds: "delete_step st st' D r i" and x: "x \<in> entries st D - {victim r i}"
  shows "entry_at st' x = entry_at st x"
proof -
  obtain d j where xdj: "x = (d, j)" by (cases x)
  with x ds_entries [OF ds] have "d \<in> D - set (freed st r i)" "live (dir_at (storage st) d) j"
    by (auto simp: entries_def)
  with ds_dir_at [OF ds this(1)] x xdj show ?thesis
    by (auto simp: entry_at_def victim_def)
qed

lemma ds_disjoint:
  assumes ds: "delete_step st st' D r i" and x: "x \<in> entries st D - {victim r i}"
  shows "set (clusters_of (fat_table st) (entry_at st x)) \<inter> set (freed st r i) = {}"
proof -
  have "x \<in> entries st D" "x \<noteq> victim r i" using x by auto
  then show ?thesis
    using ds_inv [OF ds] ds_entry [OF ds] unfolding freed_def fs_inv_def owners_ok_def by blast
qed

lemma ds_clusters:
  assumes ds: "delete_step st st' D r i" and x: "x \<in> entries st D - {victim r i}"
  shows "chain (fat_table st') (entry_cluster (entry_at st x)) (clusters_of (fat_table st) (entry_at st x))"
    and "clusters_of (fat_table st') (entry_at st x) = clusters_of (fat_table st) (entry_at st x)"
proof -
  let ?cs = "clusters_of (fat_table st) (entry_at st x)"
  have "\<forall>c \<in> set ?cs. fat_table st' ! unat c = fat_table st ! unat c"
    using ds_disjoint [OF assms] ds_fat [OF ds] owned_in_use(2) [OF ds_inv [OF ds], of x] x by auto
  then have "chain (fat_table st') (entry_cluster (entry_at st x)) ?cs
      = chain (fat_table st) (entry_cluster (entry_at st x)) ?cs"
    using ds_length [OF ds] by (intro chain_cong)
  then show c: "chain (fat_table st') (entry_cluster (entry_at st x)) ?cs"
    using fs_inv_entry(1) [OF ds_inv [OF ds], of x] x by simp
  show "clusters_of (fat_table st') (entry_at st x) = ?cs"
    by (rule clusters_of_chain [OF c])
qed

lemma ds_entry_ok:
  assumes ds: "delete_step st st' D r i" and x: "x \<in> entries st D - {victim r i}"
  shows "entry_ok (fat_table st') (D - set (freed st r i)) (entry_at st x)"
proof -
  have "entry_ok (fat_table st) D (entry_at st x)"
    using ds_inv [OF ds] x by (auto simp: fs_inv_def owners_ok_def)
  with ds_clusters [OF assms] ds_disjoint [OF assms] show ?thesis
    by (auto simp: entry_ok_def Let_def split: if_splits)
qed

lemma ds_owners:
  assumes ds: "delete_step st st' D r i"
  shows "owners_ok st' (D - set (freed st r i))"
proof -
  have "\<forall>x \<in> entries st D. \<forall>y \<in> entries st D. x \<noteq> y \<longrightarrow>
      set (clusters_of (fat_table st) (entry_at st x)) \<inter> set (clusters_of (fat_table st) (entry_at st y)) = {}"
    using ds_inv [OF ds] by (simp add: fs_inv_def owners_ok_def)
  then show ?thesis
    unfolding owners_ok_def ds_entries [OF ds]
    using ds_entry_ok [OF ds] ds_clusters(2) [OF ds] by (simp add: ds_entry_at [OF ds])
qed

lemma ds_table_ok:
  assumes "table_ok t" and "length t = DIR_ENTRIES" and "live t i"
  shows "table_ok (t[i := zero_dirent])"
proof -
  have nth: "t[i := zero_dirent] ! j = (if j = i then zero_dirent else t ! j)" for j
    using assms(2) live_at [OF assms(3)] by (simp add: nth_list_update)
  have lv: "live (t[i := zero_dirent]) j \<longleftrightarrow> live t j \<and> j \<noteq> i" for j
    by (simp add: live_def nth)
  show ?thesis
    using assms(1) live_at [OF assms(3)] unfolding table_ok_def lv nth by auto
qed

lemma ds_dirs:
  assumes ds: "delete_step st st' D r i"
  shows "dirs_ok st' (D - set (freed st r i))"
proof -
  have "2 \<le> unat d \<and> unat d < CLUSTER_MAP_SIZE \<and> fat_table st' ! unat d = FAT32_FAT_END_OF_FILE
      \<and> table_ok (dir_at (storage st') d)" if d: "d \<in> D - set (freed st r i)" for d
    using fs_inv_dir [OF ds_inv [OF ds], of d] d ds_fat [OF ds, of d] ds_dir_at [OF ds d]
      ds_table_ok [of "dir_at (storage st) d" i] ds_live [OF ds]
    by auto
  moreover have "ROOT_CLUSTER_NUMBER \<in> D - set (freed st r i)"
    using ds_inv [OF ds] ds_not_reserved(3) [OF ds ds] by (auto simp: fs_inv_def dirs_ok_def)
  ultimately show ?thesis unfolding dirs_ok_def by blast
qed

lemma ds_preserved:
  assumes ds: "delete_step st st' D r i"
  shows "fs_inv st' (D - set (freed st r i))"
  using ds_driver [OF ds] ds_dirs [OF ds] ds_owners [OF ds] by (simp add: fs_inv_def)

section \<open>Every call\<close>

lemma fat32_delete_cases:
  assumes inv: "fs_inv st D" and plain: "plain_request st D r"
  obtains (missing) "\<And>i. live (dir_at (storage st) (parent_cluster_number r)) i \<Longrightarrow>
        entry_key (dir_at (storage st) (parent_cluster_number r) ! i) \<noteq> request_key r"
      "fat32_delete r st = Some (Inr (1, st))"
  | (not_empty) i where "live (dir_at (storage st) (parent_cluster_number r)) i"
      "entry_key (dir_at (storage st) (parent_cluster_number r) ! i) = request_key r"
      "\<not> folder_ready st (dir_at (storage st) (parent_cluster_number r) ! i)"
      "fat32_delete r st = Some (Inr (2, st))"
  | (removed) st' i where "fat32_delete r st = Some (Inr (0, st'))" "delete_step st st' D r i"
proof -
  let ?p = "parent_cluster_number r" let ?t = "dir_at (storage st) ?p"
  have dir: "?p \<in> D" using plain by (simp add: plain_request_def)
  note d = fs_inv_dir [OF inv dir] and fat = fs_inv_fat(1) [OF inv]
  show thesis
  proof (cases "\<exists>i. live ?t i \<and> entry_key (?t ! i) = request_key r")
    case False
    then have "\<forall>e \<in> set ?t. \<not> entry_matches r e" by (intro find_none [OF inv plain]) blast
    then have "fat32_delete r st = Some (Inr (1, st))"
      using d(2,3) fat by (simp add: fat32_delete_def find_entry_None_iff [THEN iffD2])
    with False show ?thesis by (intro missing) blast+
  next
    case True
    then obtain i where l: "live ?t i" and k: "entry_key (?t ! i) = request_key r" by blast
    note found = find_live [OF inv plain l k]
    show ?thesis
    proof (cases "folder_ready st (?t ! i)")
      case False
      then have "fat32_delete r st = Some (Inr (2, st))"
        using d(2,3) fat found by (simp add: fat32_delete_def folder_ready_def is_folder_def)
      with False l k show ?thesis by (intro not_empty)
    next
      case True
      have x: "victim r i \<in> entries st D" using l dir by (simp add: entries_def victim_def)
      have e: "entry_at st (victim r i) = ?t ! i" by (simp add: entry_at_def victim_def)
      have "\<exists>st'. fat32_delete r st = Some (Inr (0, st')) \<and> deleted r i (freed st r i) st st'"
      proof (rule fat32_delete_ok [OF fat d(2,3) found])
        show "attribute (?t ! i) = ATTR_SUBDIRECTORY \<Longrightarrow>
            folder_empty (drop 2 (dir_at (storage st) (entry_cluster (?t ! i))))"
          using True by (simp add: folder_ready_def is_folder_def)
        show "chain (fat_table st) (entry_cluster (?t ! i)) (freed st r i)"
          using fs_inv_entry(1) [OF inv x] by (simp add: e freed_def)
        show "freed st r i \<noteq> []" using owned_nonempty [OF inv x] by (simp add: freed_def)
        show "?p \<notin> set (freed st r i)" using victim_dir [OF inv x] True by (simp add: e)
        show "FAT_CLUSTER_NUMBER \<notin> set (freed st r i)"
          using owned_not_reserved(2) [OF inv x] by (simp add: freed_def)
      qed (rule d(7))
      then obtain st' where del: "fat32_delete r st = Some (Inr (0, st'))"
        and eff: "deleted r i (freed st r i) st st'" by blast
      have "delete_step st st' D r i"
        using inv plain l k True eff by (simp add: delete_step_def freed_def e)
      with del show ?thesis by (rule removed)
    qed
  qed
qed

end
