(* ===== verification/Fat32_System.thy ===== *)
theory Fat32_System
  imports Fat32_Spec
begin

unbundle bit_operations_syntax

text \<open>
  The file system as a system: the directories that can be reached from the root, reads
  against the abstract view, and the step relation of all calls with its reachable states.

  \<open>dirs st\<close> is computed from the device alone, so the invariant needs no ghost state:
  \<open>consistent st\<close> is \<open>fs_inv\<close> at the reachable directories, and any set of
  directories for which \<open>fs_inv\<close> holds contains them.
\<close>

section \<open>Reachable directories\<close>

inductive_set dirs :: "fs \<Rightarrow> u32 set" for st :: fs where
  root: "ROOT_CLUSTER_NUMBER \<in> dirs st"
| child: "d \<in> dirs st \<Longrightarrow> live (dir_at (storage st) d) i \<Longrightarrow> is_folder (dir_at (storage st) d ! i) \<Longrightarrow>
    entry_cluster (dir_at (storage st) d ! i) \<in> dirs st"

definition consistent :: "fs \<Rightarrow> bool" where
  "consistent st \<longleftrightarrow> fs_inv st (dirs st)"

lemma dirs_subset:
  assumes "fs_inv st D"
  shows "dirs st \<subseteq> D"
proof
  fix d assume "d \<in> dirs st"
  then show "d \<in> D"
  proof induction
    case root
    then show ?case using assms by (simp add: fs_inv_def dirs_ok_def)
  next
    case (child d i)
    then have "(d, i) \<in> entries st D" by (simp add: entries_def)
    with assms child show ?case
      by (fastforce simp: fs_inv_def owners_ok_def entry_ok_def entry_at_def Let_def)
  qed
qed

lemma entry_ok_subset:
  assumes "entry_ok fat D e" and "D' \<subseteq> D" and "is_folder e \<Longrightarrow> entry_cluster e \<in> D'"
  shows "entry_ok fat D' e"
  using assms by (auto simp: entry_ok_def Let_def split: if_splits)

lemma fs_inv_consistent:
  assumes "fs_inv st D"
  shows "consistent st"
proof -
  note sub = dirs_subset [OF assms]
  have es: "x \<in> entries st D" if "x \<in> entries st (dirs st)" for x
    using that sub by (auto simp: entries_def)
  have "entry_ok (fat_table st) (dirs st) (entry_at st x)" if x: "x \<in> entries st (dirs st)" for x
  proof (rule entry_ok_subset [OF _ sub])
    show "entry_ok (fat_table st) D (entry_at st x)"
      using assms es [OF x] by (simp add: fs_inv_def owners_ok_def)
    show "is_folder (entry_at st x) \<Longrightarrow> entry_cluster (entry_at st x) \<in> dirs st"
      using x by (auto simp: entries_def entry_at_def intro: dirs.child)
  qed
  moreover have "dirs_ok st (dirs st)"
    using assms sub dirs.root by (auto simp: fs_inv_def dirs_ok_def)
  ultimately show ?thesis
    using assms es unfolding consistent_def fs_inv_def owners_ok_def by blast
qed

lemma consistent_iff: "consistent st \<longleftrightarrow> (\<exists>D. fs_inv st D)"
  using fs_inv_consistent by (auto simp: consistent_def)

lemma dirs_cong: "storage st' = storage st \<Longrightarrow> dirs st' = dirs st"
proof -
  assume eq: "storage st' = storage st"
  have "d \<in> dirs a \<Longrightarrow> storage a = storage b \<Longrightarrow> d \<in> dirs b" for a b d
    by (induction rule: dirs.induct) (auto intro: dirs.intros)
  with eq show ?thesis by (metis subsetI subset_antisym)
qed

lemma dirs_format: "dirs (create_fat32 st) = {ROOT_CLUSTER_NUMBER}"
  using dirs_subset [OF format_inv [of st]] dirs.root by blast

section \<open>States that differ in memory only\<close>

lemma lookup_cong:
  assumes "storage st' = storage st" and "fat_table st' = fat_table st"
  shows "lookup st' d = lookup st d"
  unfolding lookup_def node_of_def assms ..

lemma fs_inv_cong:
  assumes "storage st' = storage st" and "fat_table st' = fat_table st"
  shows "fs_inv st' D \<longleftrightarrow> fs_inv st D"
  using assms
  by (simp add: fs_inv_def driver_ok_def synced_def dirs_ok_def owners_ok_def entries_def entry_at_def)

lemma consistent_cong:
  "storage st' = storage st \<Longrightarrow> fat_table st' = fat_table st \<Longrightarrow> consistent st' \<longleftrightarrow> consistent st"
  by (simp add: consistent_iff fs_inv_cong [of st' st])

section \<open>read against the abstract view\<close>

definition cluster_count :: "nat \<Rightarrow> nat" where
  "cluster_count n = (n + 2047) div CLUSTER_SIZE"

lemma lookup_entry:
  assumes "fs_inv st D" and "parent_cluster_number r \<in> D"
    and "lookup st (parent_cluster_number r) (request_key r) = Some n"
  obtains i where "live (dir_at (storage st) (parent_cluster_number r)) i"
    "entry_key (dir_at (storage st) (parent_cluster_number r) ! i) = request_key r"
    "n = node_of st (entry_at st (parent_cluster_number r, i))"
    "(parent_cluster_number r, i) \<in> entries st D"
proof -
  let ?p = "parent_cluster_number r"
  from assms(3) obtain i where i: "live (dir_at (storage st) ?p) i"
      "entry_key (dir_at (storage st) ?p ! i) = request_key r" "n = node_of st (dir_at (storage st) ?p ! i)"
    by (rule lookup_Some)
  moreover have "entry_at st (?p, i) = dir_at (storage st) ?p ! i" by (simp add: entry_at_def)
  moreover have "(?p, i) \<in> entries st D" using i(1) assms(2) by (simp add: entries_def)
  ultimately show thesis using that by metis
qed

lemma read_missing:
  assumes "fs_inv st D" and "plain_request st D r"
    and "lookup st (parent_cluster_number r) (request_key r) = None"
  shows "fat32_read r st = Some (Inr (2, st))"
proof -
  have d: "parent_cluster_number r \<in> D" using assms(2) by (simp add: plain_request_def)
  have "\<forall>e \<in> set (dir_at (storage st) (parent_cluster_number r)). \<not> entry_matches r e"
    using assms(3) unfolding lookup_None_iff by (intro find_none [OF assms(1,2)]) blast
  with fs_inv_dir [OF assms(1) d] fs_inv_fat(1) [OF assms(1)] show ?thesis
    by (simp add: fat32_read_eq Let_def find_entry_None_iff [THEN iffD2])
qed

lemma read_folder:
  assumes "fs_inv st D" and "plain_request st D r"
    and "lookup st (parent_cluster_number r) (request_key r) = Some (Folder c)"
  shows "fat32_read r st = Some (Inr (1, st))"
proof -
  have d: "parent_cluster_number r \<in> D" using assms(2) by (simp add: plain_request_def)
  obtain i where i: "live (dir_at (storage st) (parent_cluster_number r)) i"
      "entry_key (dir_at (storage st) (parent_cluster_number r) ! i) = request_key r"
      "Folder c = node_of st (entry_at st (parent_cluster_number r, i))"
    using lookup_entry [OF assms(1) d assms(3)] by metis
  then have "is_folder (dir_at (storage st) (parent_cluster_number r) ! i)"
    by (simp add: node_of_def entry_at_def split: if_splits)
  with fs_inv_dir [OF assms(1) d] fs_inv_fat(1) [OF assms(1)] find_live [OF assms(1,2) i(1,2)]
  show ?thesis by (simp add: fat32_read_eq Let_def is_folder_def)
qed

text \<open>A file: the entry's chain holds its bytes, padded to whole clusters.\<close>

lemma file_entry:
  assumes inv: "fs_inv st D" and plain: "plain_request st D r"
    and "lookup st (parent_cluster_number r) (request_key r) = Some (File bs)"
  obtains i e cs where
    "find_entry (entry_matches r) 0 (dir_at (storage st) (parent_cluster_number r)) = Some (i, e)"
    "attribute e \<noteq> ATTR_SUBDIRECTORY" "chain (fat_table st) (entry_cluster e) cs"
    "unat (ceil (size_in_clusters (filesize e))) = cluster_count (length bs)"
    "length cs = cluster_count (length bs)" "bs = take (length bs) (chain_data (storage st) cs)"
    "length bs \<le> MAX_FILE"
proof -
  let ?p = "parent_cluster_number r"
  have d: "?p \<in> D" using plain by (simp add: plain_request_def)
  obtain i where i: "live (dir_at (storage st) ?p) i"
      "entry_key (dir_at (storage st) ?p ! i) = request_key r"
      "File bs = node_of st (entry_at st (?p, i))" and x: "(?p, i) \<in> entries st D"
    using lookup_entry [OF inv d assms(3)] by metis
  define e where "e = entry_at st (?p, i)"
  define cs where "cs = clusters_of (fat_table st) e"
  have e: "dir_at (storage st) ?p ! i = e" by (simp add: e_def entry_at_def)
  from i(3) have nf: "\<not> is_folder e" and bs: "bs = take (unat (filesize e)) (chain_data (storage st) cs)"
    by (auto simp: node_of_def e_def cs_def split: if_splits)
  note fc = file_clusters [OF inv x, folded e_def, OF nf, folded cs_def]
  have "length bs = unat (filesize e)"
    using bs fc(4) round_up_ge [of "unat (filesize e)"] by simp
  moreover have "(unat (filesize e) + 2047) div CLUSTER_SIZE < 256" "unat (filesize e) < 2 ^ 24"
    using fc(3) by (simp_all add: MAX_FILE_def div_less_iff_less_mult)
  ultimately show thesis
    using that [of i e cs] find_live [OF inv plain i(1,2)] nf e bs fc fs_inv_entry(1) [OF inv x]
    by (simp add: is_folder_def cluster_count_def e_def cs_def unat_ceil_size)
qed

lemma read_file:
  assumes inv: "fs_inv st D" and plain: "plain_request st D r"
    and bs: "lookup st (parent_cluster_number r) (request_key r) = Some (File bs)"
    and room: "cluster_count (length bs) \<le> unat (buffer_size r) div CLUSTER_SIZE"
  shows "\<exists>pad. length (bs @ pad) = CLUSTER_SIZE * cluster_count (length bs)
    \<and> fat32_read r st = Some (Inr (0, st\<lparr>memory := mem_write (memory st) (buf r) (bs @ pad)\<rparr>))"
proof -
  have d: "parent_cluster_number r \<in> D" using plain by (simp add: plain_request_def)
  from file_entry [OF inv plain bs] obtain i e cs where
    f: "find_entry (entry_matches r) 0 (dir_at (storage st) (parent_cluster_number r)) = Some (i, e)"
    and a: "attribute e \<noteq> ATTR_SUBDIRECTORY" and c: "chain (fat_table st) (entry_cluster e) cs"
    and n: "unat (ceil (size_in_clusters (filesize e))) = cluster_count (length bs)"
    and l: "length cs = cluster_count (length bs)" and t: "bs = take (length bs) (chain_data (storage st) cs)"
    by metis
  have data: "bs @ drop (length bs) (chain_data (storage st) cs) = chain_data (storage st) cs"
    by (subst t) (rule append_take_drop_id)
  show ?thesis
  proof (intro exI conjI)
    show "length (bs @ drop (length bs) (chain_data (storage st) cs)) = CLUSTER_SIZE * cluster_count (length bs)"
      unfolding data using l by simp
    show "fat32_read r st = Some (Inr (0, st\<lparr>memory :=
        mem_write (memory st) (buf r) (bs @ drop (length bs) (chain_data (storage st) cs))\<rparr>))"
      unfolding data
      using fs_inv_dir(2,3) [OF inv d] fs_inv_fat(1) [OF inv] f a c n room
      by (intro fat32_read_file [where i = i and e = e]) auto
  qed
qed

lemma read_short:
  assumes inv: "fs_inv st D" and plain: "plain_request st D r"
    and bs: "lookup st (parent_cluster_number r) (request_key r) = Some (File bs)"
    and room: "unat (buffer_size r) div CLUSTER_SIZE < cluster_count (length bs)"
  shows "fat32_read r st = Some (Inr (-1, st))"
proof -
  have d: "parent_cluster_number r \<in> D" using plain by (simp add: plain_request_def)
  show ?thesis
    by (rule file_entry [OF inv plain bs])
      (use fs_inv_dir(2,3) [OF inv d] fs_inv_fat(1) [OF inv] room in \<open>simp add: fat32_read_eq Let_def\<close>)
qed

section \<open>Removing and adding the same name\<close>

lemma fat_clear_link:
  assumes "\<forall>c \<in> set slots. unat c < length fat \<and> fat ! unat c = FAT32_FAT_EMPTY_ENTRY"
    and "length fat \<le> 2 ^ 32"
  shows "fat_clear slots (link_fat slots fat) = fat"
proof (rule nth_equalityI)
  show "length (fat_clear slots (link_fat slots fat)) = length fat" by simp
  fix i assume "i < length (fat_clear slots (link_fat slots fat))"
  then have i: "i < length fat" by simp
  with assms(2) have w: "unat (of_nat i :: u32) = i" by (simp add: unat_of_nat)
  with i nth_fat_clear [of "of_nat i" "link_fat slots fat" slots] nth_link_fat_other [of "of_nat i" slots fat]
    assms(1)
  show "fat_clear slots (link_fat slots fat) ! i = fat ! i"
    by (cases "(of_nat i :: u32) \<in> set slots") auto
qed

section \<open>Calls and steps\<close>

datatype fs_call =
    Read request
  | Read_directory request
  | Write request
  | Delete request
  | Mount
  | Compute

text \<open>
  The requests a well-behaved client sends: to a directory of the tree, with a name other
  than those of the directory and its parent, and for \<open>write\<close> a size that the cluster
  counter of \<open>uint8_t\<close> can hold.
\<close>

definition call_ok :: "fs \<Rightarrow> fs_call \<Rightarrow> bool" where
  "call_ok st call =
     (case call of
        Read r \<Rightarrow> plain_request st (dirs st) r
      | Read_directory r \<Rightarrow> True
      | Write r \<Rightarrow> parent_cluster_number r \<in> dirs st \<and> wf_request r \<and> fits r
      | Delete r \<Rightarrow> plain_request st (dirs st) r
      | Mount \<Rightarrow> True
      | Compute \<Rightarrow> True)"

text \<open>A mount starts from a driver state that holds anything; only the device survives.\<close>

inductive fs_step :: "fs \<Rightarrow> fs_call \<Rightarrow> fs \<Rightarrow> bool" where
  do_read: "fat32_read r st = Some (Inr (c, st')) \<Longrightarrow> fs_step st (Read r) st'"
| do_read_directory: "fat32_read_directory r st = (c, st') \<Longrightarrow> fs_step st (Read_directory r) st'"
| do_write: "fat32_write r st = Inr (c, st') \<Longrightarrow> fs_step st (Write r) st'"
| do_delete: "fat32_delete r st = Some (Inr (c, st')) \<Longrightarrow> fs_step st (Delete r) st'"
| do_mount: "st' = initialize_filesystem_fat32 (st\<lparr>fat_table := junk, dir_table_buf := b, memory := m\<rparr>) \<Longrightarrow>
    fs_step st Mount st'"
| do_compute: "fs_step st Compute (st\<lparr>memory := m\<rparr>)"

inductive_cases fs_stepE:
  "fs_step st (Read r) st'" "fs_step st (Read_directory r) st'" "fs_step st (Write r) st'"
  "fs_step st (Delete r) st'" "fs_step st Mount st'" "fs_step st Compute st'"

inductive fs_reachable :: "fs \<Rightarrow> bool" where
  formatted: "fs_reachable (create_fat32 st)"
| step: "fs_reachable st \<Longrightarrow> call_ok st call \<Longrightarrow> fs_step st call st' \<Longrightarrow> fs_reachable st'"

text \<open>Only memory changes in a read.\<close>

definition same_files :: "fs \<Rightarrow> fs \<Rightarrow> bool" where
  "same_files st st' \<longleftrightarrow> storage st' = storage st \<and> fat_table st' = fat_table st"

lemma same_files_consistent: "same_files st st' \<Longrightarrow> consistent st' \<longleftrightarrow> consistent st"
  unfolding same_files_def using consistent_cong [of st' st] by blast

lemma read_directory_same: "fat32_read_directory r st = (c, st') \<Longrightarrow> same_files st st'"
  by (auto simp: fat32_read_directory_def same_files_def split: option.splits prod.splits if_splits)

lemma read_outcomes:
  assumes inv: "fs_inv st D" and plain: "plain_request st D r"
  obtains c st' where "fat32_read r st = Some (Inr (c, st'))" "same_files st st'"
proof (cases "lookup st (parent_cluster_number r) (request_key r)")
  case None
  with read_missing [OF assms] that [of 2 st] show thesis by (simp add: same_files_def)
next
  case (Some n)
  show thesis
  proof (cases n)
    case (Folder c)
    with Some read_folder [OF assms] that [of 1 st] show thesis by (simp add: same_files_def)
  next
    case (File bs)
    with Some have f: "lookup st (parent_cluster_number r) (request_key r) = Some (File bs)" by simp
    show thesis
    proof (cases "cluster_count (length bs) \<le> unat (buffer_size r) div CLUSTER_SIZE")
      case True
      from read_file [OF assms f this] that show thesis by (fastforce simp: same_files_def)
    next
      case False
      with read_short [OF assms f] that [of "-1" st] show thesis by (simp add: same_files_def)
    qed
  qed
qed

lemma mount_consistent:
  assumes "consistent st"
  shows "initialize_filesystem_fat32 (st\<lparr>fat_table := junk, dir_table_buf := b, memory := m\<rparr>)
       = st\<lparr>dir_table_buf := b, memory := m\<rparr>"
  using assms mount_recovers [of st "st\<lparr>fat_table := junk, dir_table_buf := b, memory := m\<rparr>"]
  by (simp add: consistent_def fs_inv_def)

lemma write_consistent:
  assumes "fs_inv st D" and "parent_cluster_number r \<in> D" and "wf_request r" and "fits r"
  obtains c st' where "fat32_write r st = Inr (c, st')" "consistent st'"
proof (rule fat32_write_cases [OF assms])
  assume "fat32_write r st = Inr (1, st)"
  then show thesis using that fs_inv_consistent [OF assms(1)] by blast
next
  assume "fat32_write r st = Inr (-1, st)"
  then show thesis using that fs_inv_consistent [OF assms(1)] by blast
next
  fix st' slot slots assume "fat32_write r st = Inr (0, st')" "write_step st st' D r slot slots"
  then show thesis using that fs_inv_consistent [OF ws_preserved] by blast
qed

lemma delete_consistent:
  assumes "fs_inv st D" and "plain_request st D r"
  obtains c st' where "fat32_delete r st = Some (Inr (c, st'))" "consistent st'"
proof (rule fat32_delete_cases [OF assms])
  assume "fat32_delete r st = Some (Inr (1, st))"
  then show thesis using that fs_inv_consistent [OF assms(1)] by blast
next
  assume "fat32_delete r st = Some (Inr (2, st))"
  then show thesis using that fs_inv_consistent [OF assms(1)] by blast
next
  fix st' i assume "fat32_delete r st = Some (Inr (0, st'))" "delete_step st st' D r i"
  then show thesis using that fs_inv_consistent [OF ds_preserved] by blast
qed

lemma step_consistent:
  assumes con: "consistent st" and ok: "call_ok st call" and step: "fs_step st call st'"
  shows "consistent st'"
proof -
  note inv = con [unfolded consistent_def]
  from step show ?thesis
  proof cases
    case (do_read r c)
    with ok have "plain_request st (dirs st) r" by (simp add: call_ok_def)
    from read_outcomes [OF inv this] obtain c' s where "fat32_read r st = Some (Inr (c', s))" "same_files st s" .
    with do_read(2) con show ?thesis using same_files_consistent by auto
  next
    case (do_read_directory r c)
    with con show ?thesis using read_directory_same same_files_consistent by blast
  next
    case (do_write r c)
    with ok have "parent_cluster_number r \<in> dirs st" "wf_request r" "fits r" by (simp_all add: call_ok_def)
    from write_consistent [OF inv this] obtain c' s where "fat32_write r st = Inr (c', s)" "consistent s" .
    with do_write(2) show ?thesis by simp
  next
    case (do_delete r c)
    with ok have "plain_request st (dirs st) r" by (simp add: call_ok_def)
    from delete_consistent [OF inv this] obtain c' s where "fat32_delete r st = Some (Inr (c', s))" "consistent s" .
    with do_delete(2) show ?thesis by simp
  next
    case (do_mount junk b m)
    then have "same_files st st'" using mount_consistent [OF con] by (simp add: same_files_def)
    with con show ?thesis using same_files_consistent by blast
  next
    case (do_compute m)
    then have "same_files st st'" by (simp add: same_files_def)
    with con show ?thesis using same_files_consistent by blast
  qed
qed

lemma step_total:
  assumes con: "consistent st" and ok: "call_ok st call"
  shows "\<exists>st'. fs_step st call st'"
proof -
  note inv = con [unfolded consistent_def]
  show ?thesis
  proof (cases call)
    case (Read r)
    with ok have "plain_request st (dirs st) r" by (simp add: call_ok_def)
    from read_outcomes [OF inv this] Read show ?thesis using fs_step.do_read by metis
  next
    case (Read_directory r)
    then show ?thesis using fs_step.do_read_directory by (metis prod.exhaust)
  next
    case (Write r)
    with ok have "parent_cluster_number r \<in> dirs st" "wf_request r" "fits r" by (simp_all add: call_ok_def)
    from write_consistent [OF inv this] Write show ?thesis using fs_step.do_write by metis
  next
    case (Delete r)
    with ok have "plain_request st (dirs st) r" by (simp add: call_ok_def)
    from delete_consistent [OF inv this] Delete show ?thesis using fs_step.do_delete by metis
  next
    case Mount
    then show ?thesis using fs_step.do_mount by blast
  next
    case Compute
    then show ?thesis using fs_step.do_compute by blast
  qed
qed

lemma reachable_consistent: "fs_reachable st \<Longrightarrow> consistent st"
proof (induction rule: fs_reachable.induct)
  case (formatted st)
  show ?case by (rule fs_inv_consistent [OF format_inv])
next
  case (step st call st')
  then show ?case by (blast intro: step_consistent)
qed

end
