(* ===== verification/Fat32_Fresh.thy ===== *)
theory Fat32_Fresh
  imports Fat32_System
begin

unbundle bit_operations_syntax

text \<open>
  The freshly formatted device in closed form: its directories, its empty root, its 509 free
  clusters, and the first \<open>write\<close> to it, which always succeeds when the name is neither the
  root's own nor empty. The composite properties and the concrete instances build on it.
\<close>

definition root_request :: "request \<Rightarrow> bool" where
  "root_request r \<longleftrightarrow> wf_request r \<and> parent_cluster_number r = ROOT_CLUSTER_NUMBER
     \<and> request_key r \<noteq> (replicate 8 0, replicate 3 0) \<and> request_key r \<noteq> (root_name, replicate 3 0)"

lemma fresh_inv: "fs_inv (create_fat32 st) {ROOT_CLUSTER_NUMBER}"
  by (rule format_inv)

lemma fresh_consistent: "consistent (create_fat32 st)"
  by (rule fs_inv_consistent [OF fresh_inv])

lemma root_table_nth:
  "i < DIR_ENTRIES \<Longrightarrow> entry_key (root_table ! i) = (if i < 2 then root_name else replicate 8 0, replicate 3 0)"
  by (auto simp: root_table_def entry_key_def nth_list_update less_2_cases_iff)

lemma root_table_dead: "dead_slot root_table 2"
  by (simp add: dead_slot_def root_table_def)

lemma fresh_lookup: "lookup (create_fat32 st) ROOT_CLUSTER_NUMBER = Map.empty"
  by (rule ext) (simp add: lookup_None_iff create_fat32_root root_table_no_live)

lemma fresh_plain:
  "root_request r \<Longrightarrow> plain_request (create_fat32 st) {ROOT_CLUSTER_NUMBER} r"
  using root_table_nth by (auto simp: root_request_def plain_request_def create_fat32_root)

lemma fresh_no_match:
  assumes "root_request r"
  shows "\<forall>e \<in> set (dir_at (storage (create_fat32 st)) (parent_cluster_number r)). \<not> entry_matches r e"
proof
  fix e assume "e \<in> set (dir_at (storage (create_fat32 st)) (parent_cluster_number r))"
  then obtain i where i: "i < DIR_ENTRIES" "e = dir_at (storage (create_fat32 st)) ROOT_CLUSTER_NUMBER ! i"
    using assms by (metis in_set_conv_nth length_dir_at root_request_def)
  have wf: "wf_request r" using assms by (simp add: root_request_def)
  have "entry_key e = (if i < 2 then root_name else replicate 8 0, replicate 3 0)"
    using i root_table_nth by (simp add: create_fat32_root)
  then have "entry_key e \<noteq> request_key r" using assms by (auto simp: root_request_def)
  with i wf show "\<not> entry_matches r e" by (simp add: matches_key)
qed

lemma length_free_format: "length (free_clusters format_fat) = 509"
proof -
  have "i < CLUSTER_MAP_SIZE \<Longrightarrow> format_fat ! i = 0 \<longleftrightarrow> 3 \<le> i" for i
    by (auto simp: format_fat_def nth_list_update)
  then have "filter (\<lambda>i. format_fat ! i = 0) [0..<CLUSTER_MAP_SIZE] = filter (\<lambda>i. 3 \<le> i) [0..<CLUSTER_MAP_SIZE]"
    by (intro filter_cong) simp_all
  also have "\<dots> = [3..<CLUSTER_MAP_SIZE]"
  proof -
    have "[0..<CLUSTER_MAP_SIZE] = [0..<3] @ [3..<CLUSTER_MAP_SIZE]"
      using upt_add_eq_append [of 0 3 509] by simp
    moreover have "filter (\<lambda>i. 3 \<le> i) [0..<3] = ([] :: nat list)" by simp
    moreover have "filter (\<lambda>i. 3 \<le> i) [3..<CLUSTER_MAP_SIZE] = [3..<CLUSTER_MAP_SIZE]" by simp
    ultimately show ?thesis by (simp only: filter_append append_Nil)
  qed
  finally show ?thesis by (simp add: free_clusters_def)
qed

lemma fresh_write:
  assumes "root_request r" and "fits r"
  shows "\<exists>st' slot slots. fat32_write r (create_fat32 st) = Inr (0, st')
    \<and> write_step (create_fat32 st) st' {ROOT_CLUSTER_NUMBER} r slot slots"
proof -
  have "unat (clusters_required (buffer_size r)) \<le> 509"
    using unat_u8_lt [of "clusters_required (buffer_size r)"] by linarith
  moreover have "dead_slot (dir_at (storage (create_fat32 st)) (parent_cluster_number r)) 2"
    using assms(1) root_table_dead by (simp add: root_request_def create_fat32_root)
  ultimately show ?thesis
    using assms fresh_no_match [OF assms(1)]
      write_reaches_commit [OF fresh_inv _ _ assms(2) fresh_no_match [OF assms(1)], of st 2]
    by (fastforce simp: root_request_def create_fat32_fat length_free_format)
qed

text \<open>The state after that write, abstractly.\<close>

lemma written_lookup:
  assumes "write_step st st' D r slot slots" and "buffer_size r \<noteq> 0"
  shows "lookup st' (parent_cluster_number r)
    = (lookup st (parent_cluster_number r))(request_key r \<mapsto> File (mem_read (memory st) (buf r) (unat (buffer_size r))))"
  using ws_lookup [OF assms(1) ws_dir [OF assms(1)]] assms(2) by (simp add: written_node_def)

lemma written_memory: "write_step st st' D r slot slots \<Longrightarrow> memory st' = memory st"
  using ws_effect [of st st' D r slot slots] by (simp add: wrote_def)

end
