(* ===== verification/Fat32_Dirs.thy ===== *)
theory Fat32_Dirs
  imports Fat32_Fresh
begin

unbundle bit_operations_syntax

text \<open>
  How the directory tree itself changes: a \<open>write\<close> of size zero adds exactly the new
  directory, a \<open>delete\<close> removes exactly the directory it clears, and the requests that were
  plain before a \<open>write\<close> are plain after it. With these the effects of the calls are
  equations on \<open>dirs\<close> and \<open>lookup\<close>.
\<close>

lemma ws_dirs_eq:
  assumes ws: "write_step st st' (dirs st) r slot slots"
  shows "dirs st' = dirs_after r slots (dirs st)"
proof (rule subset_antisym)
  show "dirs st' \<subseteq> dirs_after r slots (dirs st)" by (rule dirs_subset [OF ws_preserved [OF ws]])
  have old: "d \<in> dirs st'" if "d \<in> dirs st" for d
    using that
  proof induction
    case root
    show ?case by (rule dirs.root)
  next
    case (child d i)
    then have "(d, i) \<in> entries st (dirs st)" by (simp add: entries_def)
    then have "entry_at st' (d, i) = entry_at st (d, i)" by (rule ws_old_entry_at [OF ws])
    moreover have "live (dir_at (storage st') d) i" using ws_live_update [OF ws child(1)] child(2) by simp
    ultimately show ?case using dirs.child [OF child(4)] child(3) by (metis entry_at_def fst_conv snd_conv)
  qed
  moreover have "hd slots \<in> dirs st'" if z: "buffer_size r = 0"
  proof -
    let ?t = "dir_at (storage st') (parent_cluster_number r)"
    have e: "?t ! slot = new_entry r True (hd slots)"
      using ws_new_entry_at [OF ws] z by (simp add: entry_at_def)
    then have "is_folder (?t ! slot)" "entry_cluster (?t ! slot) = hd slots"
      by (simp_all add: is_folder_def new_entry_def entry_cluster_halves)
    then show ?thesis
      using dirs.child [OF old [OF ws_dir [OF ws]], of slot] ws_live_update [OF ws ws_dir [OF ws]] by auto
  qed
  ultimately show "dirs_after r slots (dirs st) \<subseteq> dirs st'" by (auto simp: dirs_after_def)
qed

lemma ds_dirs_eq:
  assumes ds: "delete_step st st' (dirs st) r i"
  shows "dirs st' = dirs st - set (freed st r i)"
proof (rule subset_antisym)
  show "dirs st' \<subseteq> dirs st - set (freed st r i)" by (rule dirs_subset [OF ds_preserved [OF ds]])
  have "d \<notin> set (freed st r i) \<longrightarrow> d \<in> dirs st'" if "d \<in> dirs st" for d
    using that
  proof induction
    case root
    show ?case by (simp add: dirs.root)
  next
    case (child d j)
    let ?e = "dir_at (storage st) d ! j"
    have "d \<notin> set (freed st r i)" using ds_freed_dirs [OF ds child(1)] child(2) by blast
    then have dD: "d \<in> dirs st - set (freed st r i)" "d \<in> dirs st'" using child(1,4) by auto
    have dj: "(d, j) \<in> entries st (dirs st)" using child by (simp add: entries_def)
    show ?case
    proof
      assume nf: "entry_cluster ?e \<notin> set (freed st r i)"
      have "entry_ok (fat_table st) (dirs st) (entry_at st (d, j))"
        using ds_inv [OF ds] dj by (auto simp: fs_inv_def owners_ok_def)
      then have "entry_cluster ?e \<in> set (clusters_of (fat_table st) (entry_at st (d, j)))"
        using child(3) by (simp add: entry_ok_def Let_def entry_at_def)
      then have nv: "(d, j) \<noteq> victim r i" using nf by (auto simp: freed_def)
      have "live (dir_at (storage st') d) j" using ds_live_update [OF ds dD(1)] child(2) nv by simp
      moreover have "dir_at (storage st') d ! j = ?e"
        using ds_entry_at [OF ds, of "(d, j)"] dj nv by (simp add: entry_at_def)
      ultimately show "entry_cluster ?e \<in> dirs st'" using dirs.child [OF dD(2), of j] child(3) by simp
    qed
  qed
  then show "dirs st - set (freed st r i) \<subseteq> dirs st'" by blast
qed

lemma ws_plain:
  assumes ws: "write_step st st' (dirs st) r slot slots" and plain: "plain_request st (dirs st) q"
  shows "plain_request st' (dirs st') q"
proof -
  have "parent_cluster_number q \<in> dirs st'"
    using plain ws_dirs_eq [OF ws] by (simp add: plain_request_def dirs_after_def)
  moreover have "dir_at (storage st') (parent_cluster_number q) ! i = dir_at (storage st) (parent_cluster_number q) ! i"
    if "i < 2" for i
    using that ws_slot_range(1) [OF ws] ws_old_dir [OF ws, of "parent_cluster_number q"] plain
    by (simp add: plain_request_def)
  ultimately show ?thesis using plain by (simp add: plain_request_def)
qed

text \<open>A memory that differs does not matter to the requests.\<close>

lemma plain_request_cong:
  assumes "storage st' = storage st"
  shows "plain_request st' D r \<longleftrightarrow> plain_request st D r"
  using assms by (simp add: plain_request_def)

text \<open>A key of the map is the name of an entry.\<close>

lemma lookup_match:
  assumes "wf_request r" and "lookup st (parent_cluster_number r) (request_key r) = Some n"
  shows "\<exists>e \<in> set (dir_at (storage st) (parent_cluster_number r)). entry_matches r e"
proof -
  obtain i where i: "live (dir_at (storage st) (parent_cluster_number r)) i"
      "entry_key (dir_at (storage st) (parent_cluster_number r) ! i) = request_key r"
    using assms(2) by (rule lookup_Some)
  have "i < DIR_ENTRIES" using live_at [OF i(1)] by simp
  then have "dir_at (storage st) (parent_cluster_number r) ! i \<in> set (dir_at (storage st) (parent_cluster_number r))"
    by (intro nth_mem) simp
  moreover have "entry_matches r (dir_at (storage st) (parent_cluster_number r) ! i)"
    using i \<open>i < DIR_ENTRIES\<close> assms(1) by (simp add: matches_key)
  ultimately show ?thesis by blast
qed

section \<open>The entry that a delete removes\<close>

lemma ds_victim_lookup:
  assumes ds: "delete_step st st' D r i"
  shows "lookup st (parent_cluster_number r) (request_key r) = Some (node_of st (entry_at st (victim r i)))"
proof -
  let ?t = "dir_at (storage st) (parent_cluster_number r)"
  have "entry_key (?t ! i) = request_key r" using ds by (simp add: delete_step_def Let_def)
  then show ?thesis
    using lookup_live [OF fs_inv_dir(4) [OF ds_inv [OF ds] ds_dir [OF ds]] ds_live [OF ds]]
    by (simp add: entry_at_def victim_def)
qed

lemma ds_victim_ok: "delete_step st st' D r i \<Longrightarrow> entry_ok (fat_table st) D (entry_at st (victim r i))"
  using ds_inv [of st st' D r i] ds_entry [of st st' D r i] by (auto simp: fs_inv_def owners_ok_def)

lemma ds_freed_folder:
  "delete_step st st' D r i \<Longrightarrow> node_of st (entry_at st (victim r i)) = Folder c \<Longrightarrow> set (freed st r i) = {c}"
  using ds_victim_ok [of st st' D r i]
  by (auto simp: node_of_def entry_ok_def Let_def freed_def split: if_splits)

lemma ds_freed_file:
  "delete_step st st' D r i \<Longrightarrow> node_of st (entry_at st (victim r i)) = File bs \<Longrightarrow> D - set (freed st r i) = D"
  using ds_victim_ok [of st st' D r i]
  by (auto simp: node_of_def entry_ok_def Let_def freed_def split: if_splits)

text \<open>A file that is present can be deleted.\<close>

lemma delete_present:
  assumes "consistent st" and plain: "plain_request st (dirs st) r"
    and "lookup st (parent_cluster_number r) (request_key r) = Some (File bs)"
  obtains st' i where "fat32_delete r st = Some (Inr (0, st'))" "delete_step st st' (dirs st) r i"
proof -
  have inv: "fs_inv st (dirs st)" using assms(1) by (simp add: consistent_def)
  let ?t = "dir_at (storage st) (parent_cluster_number r)"
  have ok: "table_ok ?t" using fs_inv_dir(4) [OF inv] plain by (simp add: plain_request_def)
  obtain j where j: "live ?t j" "entry_key (?t ! j) = request_key r" "File bs = node_of st (?t ! j)"
    using assms(3) by (rule lookup_Some)
  have "folder_ready st (?t ! k)" if "live ?t k" "entry_key (?t ! k) = request_key r" for k
  proof -
    have "k = j" using that j ok unfolding table_ok_def by metis
    then show ?thesis using j(3) by (auto simp: folder_ready_def node_of_def split: if_splits)
  qed
  then show thesis
    by (rule_tac fat32_delete_cases [OF inv plain]) (use j that in blast)+
qed

section \<open>Facts for the return codes\<close>

lemma lookup_of_live:
  assumes "fs_inv st D" and "plain_request st D r"
    and "live (dir_at (storage st) (parent_cluster_number r)) i"
    and "entry_key (dir_at (storage st) (parent_cluster_number r) ! i) = request_key r"
  shows "lookup st (parent_cluster_number r) (request_key r)
    = Some (node_of st (dir_at (storage st) (parent_cluster_number r) ! i))"
  using lookup_live [OF fs_inv_dir(4) [OF assms(1)] assms(3)] assms(2,4) by (simp add: plain_request_def)

lemma folder_empty_lookup: "folder_empty (drop 2 (dir_at (storage st) c)) \<longleftrightarrow> lookup st c = Map.empty"
proof
  assume "folder_empty (drop 2 (dir_at (storage st) c))"
  then show "lookup st c = Map.empty"
    using no_live_in_empty by (intro ext) (simp add: lookup_None_iff)
next
  assume e: "lookup st c = Map.empty"
  have "\<not> live (dir_at (storage st) c) i" for i
    using e lookup_None_iff [of st c "entry_key (dir_at (storage st) c ! i)"] by auto
  then show "folder_empty (drop 2 (dir_at (storage st) c))"
    by (auto simp: folder_empty_iff live_def in_set_conv_nth)
qed

lemma not_ready:
  "\<not> folder_ready st e \<Longrightarrow> \<exists>c. node_of st e = Folder c \<and> lookup st c \<noteq> Map.empty"
  using folder_empty_lookup [of st "entry_cluster e"] by (simp add: folder_ready_def node_of_def)

lemma ds_ready_empty:
  "delete_step st st' D r i \<Longrightarrow> node_of st (entry_at st (victim r i)) = Folder c \<Longrightarrow> lookup st c = Map.empty"
  using ds_ready [of st st' D r i] folder_empty_lookup [of st c]
  by (auto simp: folder_ready_def node_of_def split: if_splits)

lemma file_length:
  assumes "fs_inv st D" and "plain_request st D r"
    and "lookup st (parent_cluster_number r) (request_key r) = Some (File bs)"
  shows "length bs \<le> MAX_FILE"
  by (rule file_entry [OF assms])

lemma cluster_count_small: "n \<le> MAX_FILE \<Longrightarrow> CLUSTER_SIZE * cluster_count n < 2 ^ 32"
proof -
  assume "n \<le> MAX_FILE"
  then have "cluster_count n \<le> (MAX_FILE + 2047) div CLUSTER_SIZE"
    unfolding cluster_count_def by (intro div_le_mono) simp
  then show ?thesis by (simp add: MAX_FILE_def)
qed

end
