(* ===== verification/Fat32_Demo.thy ===== *)
theory Fat32_Demo
  imports Fat32_Dirs
begin

unbundle bit_operations_syntax

text \<open>
  A concrete device and concrete requests on which the theorems are instantiated: a blank
  image that was formatted, a file of 5000 bytes, a directory, and the state after the file
  was written.
\<close>

definition blank_fs :: fs where
  "blank_fs = \<lparr>storage = (\<lambda>_. 0), fat_table = [], dir_table_buf = [], memory = (\<lambda>a. ucast a)\<rparr>"

definition demo_fs :: fs where
  "demo_fs = create_fat32 blank_fs"

definition demo_file :: request where
  "demo_file = \<lparr>buf = 0x10000, rname = str ''notes'' @ replicate 3 0, rext = str ''txt'',
     parent_cluster_number = ROOT_CLUSTER_NUMBER, buffer_size = 5000\<rparr>"

definition demo_folder :: request where
  "demo_folder = \<lparr>buf = 0, rname = str ''folder'' @ replicate 2 0, rext = replicate 3 0,
     parent_cluster_number = ROOT_CLUSTER_NUMBER, buffer_size = 0\<rparr>"

definition demo_read :: request where
  "demo_read = demo_file\<lparr>buf := 0x80000, buffer_size := 6144\<rparr>"

lemma demo_requests [simp]:
  "parent_cluster_number demo_file = ROOT_CLUSTER_NUMBER" "buffer_size demo_file = 5000"
  "wf_request demo_file" "fits demo_file"
  "parent_cluster_number demo_folder = ROOT_CLUSTER_NUMBER" "buffer_size demo_folder = 0"
  "wf_request demo_folder" "fits demo_folder"
  "parent_cluster_number demo_read = ROOT_CLUSTER_NUMBER" "buffer_size demo_read = 6144"
  "wf_request demo_read" "request_key demo_read = request_key demo_file"
  "buf demo_file = 0x10000" "buf demo_read = 0x80000"
  by (simp_all add: demo_file_def demo_folder_def demo_read_def wf_request_def fits_def MAX_FILE_def request_key_def)

lemma demo_names:
  "str ''notes'' @ replicate 3 0 \<noteq> root_name" "str ''notes'' @ replicate 3 0 \<noteq> replicate 8 0"
  "str ''folder'' @ replicate 2 0 \<noteq> root_name" "str ''folder'' @ replicate 2 0 \<noteq> replicate 8 0"
  "str ''notes'' @ replicate 3 0 \<noteq> str ''folder'' @ replicate 2 0"
  by code_simp+

lemma demo_file_root: "root_request demo_file"
  using demo_names by (auto simp: root_request_def request_key_def demo_file_def wf_request_def)

lemma demo_folder_root: "root_request demo_folder"
  using demo_names by (auto simp: root_request_def request_key_def demo_folder_def wf_request_def)

lemma demo_keys: "request_key demo_file \<noteq> request_key demo_folder"
  using demo_names(5) by (simp add: request_key_def demo_file_def demo_folder_def)

lemma demo_consistent: "consistent demo_fs" "fs_inv demo_fs (dirs demo_fs)"
  using fresh_consistent by (simp_all add: demo_fs_def consistent_def)

lemma demo_dirs [simp]: "dirs demo_fs = {ROOT_CLUSTER_NUMBER}"
  by (simp add: demo_fs_def dirs_format)

lemma demo_lookup [simp]: "lookup demo_fs ROOT_CLUSTER_NUMBER = Map.empty"
  by (simp add: demo_fs_def fresh_lookup)

lemma demo_plain: "root_request r \<Longrightarrow> plain_request demo_fs (dirs demo_fs) r"
  using fresh_plain by (simp add: demo_fs_def dirs_format)

lemma demo_plain_file: "plain_request demo_fs (dirs demo_fs) demo_file"
  by (rule demo_plain [OF demo_file_root])

lemma demo_plain_read: "plain_request demo_fs (dirs demo_fs) demo_read"
  using demo_plain_file by (simp add: plain_request_def)

lemma demo_write:
  assumes "root_request r" and "fits r"
  obtains st' slot slots where "fat32_write r demo_fs = Inr (0, st')"
    "write_step demo_fs st' (dirs demo_fs) r slot slots"
  using fresh_write [OF assms, of blank_fs] that unfolding demo_dirs by (fold demo_fs_def) blast

text \<open>The file's bytes and the state after it was written.\<close>

definition demo_bytes :: "byte list" where
  "demo_bytes = mem_read (memory blank_fs) 0x10000 5000"

lemma length_demo_bytes [simp]: "length demo_bytes = 5000"
  by (simp add: demo_bytes_def)

lemma demo_bytes_mem: "mem_read (memory demo_fs) (buf demo_file) 5000 = demo_bytes"
  by (simp add: demo_bytes_def demo_fs_def create_fat32_memory)

lemma demo_written:
  obtains st' slot slots where "fat32_write demo_file demo_fs = Inr (0, st')"
    "write_step demo_fs st' (dirs demo_fs) demo_file slot slots"
    "consistent st'" "dirs st' = {ROOT_CLUSTER_NUMBER}"
    "lookup st' ROOT_CLUSTER_NUMBER = [request_key demo_file \<mapsto> File demo_bytes]"
    "plain_request st' (dirs st') demo_file" "plain_request st' (dirs st') demo_read"
proof -
  obtain st' slot slots where w: "fat32_write demo_file demo_fs = Inr (0, st')"
    and ws: "write_step demo_fs st' (dirs demo_fs) demo_file slot slots"
    by (rule demo_write [OF demo_file_root]) simp_all
  show thesis
  proof (rule that [OF w ws])
    show "consistent st'" by (rule fs_inv_consistent [OF ws_preserved [OF ws]])
    show "dirs st' = {ROOT_CLUSTER_NUMBER}" using ws_dirs_eq [OF ws] by (simp add: dirs_after_def)
    show "lookup st' ROOT_CLUSTER_NUMBER = [request_key demo_file \<mapsto> File demo_bytes]"
      using written_lookup [OF ws] by (simp add: demo_bytes_mem [simplified])
    show "plain_request st' (dirs st') demo_file" by (rule ws_plain [OF ws demo_plain_file])
    show "plain_request st' (dirs st') demo_read" by (rule ws_plain [OF ws demo_plain_read])
  qed
qed

end
