(* ===== verification/Fat32_Runs.thy ===== *)
theory Fat32_Runs
  imports Fat32_Demo
begin

unbundle bit_operations_syntax

text \<open>
  Sequences of calls. \<open>fs_run st calls st'\<close> is a run of acceptable calls; a mapped name stays
  mapped to the same node through every run that does not delete it, whatever else the run
  writes, deletes, reads or remounts.
\<close>

inductive fs_run :: "fs \<Rightarrow> fs_call list \<Rightarrow> fs \<Rightarrow> bool" where
  no_call: "fs_run st [] st"
| next_call: "call_ok st call \<Longrightarrow> fs_step st call st' \<Longrightarrow> fs_run st' calls st'' \<Longrightarrow> fs_run st (call # calls) st''"

inductive_cases fs_runE: "fs_run st [] st'" "fs_run st (call # calls) st'"

definition names_entry :: "u32 \<Rightarrow> byte list \<times> byte list \<Rightarrow> fs_call \<Rightarrow> bool" where
  "names_entry d k call \<longleftrightarrow>
     (case call of Delete r \<Rightarrow> parent_cluster_number r = d \<and> request_key r = k | _ \<Rightarrow> False)"

lemma run_consistent: "fs_run st calls st' \<Longrightarrow> consistent st \<Longrightarrow> consistent st'"
  by (induction rule: fs_run.induct) (auto intro: step_consistent)

lemma run_reachable: "fs_run st calls st' \<Longrightarrow> fs_reachable st \<Longrightarrow> fs_reachable st'"
  by (induction rule: fs_run.induct) (auto intro: fs_reachable.step)

text \<open>What a successful write or delete leaves in place.\<close>

lemma write_keeps:
  assumes inv: "fs_inv st (dirs st)" and dir: "parent_cluster_number r \<in> dirs st" "wf_request r" "fits r"
    and w: "fat32_write r st = Inr (c, st')" and d: "d \<in> dirs st" and l: "lookup st d k = Some n"
  shows "d \<in> dirs st' \<and> lookup st' d k = Some n"
proof (rule fat32_write_cases [OF inv dir])
  assume "fat32_write r st = Inr (1, st)"
  then show ?thesis using w d l by simp
next
  assume "fat32_write r st = Inr (-1, st)"
  then show ?thesis using w d l by simp
next
  fix s slot slots assume s: "fat32_write r st = Inr (0, s)" and ws: "write_step st s (dirs st) r slot slots"
  have "st' = s" using w s by simp
  moreover have "d \<in> dirs s" using ws_dirs_eq [OF ws] d by (simp add: dirs_after_def)
  moreover have "lookup s d k = Some n"
  proof (cases "d = parent_cluster_number r")
    case True
    have "lookup st d (request_key r) = None"
      using lookup_match [OF dir(2), of st] ws_no_match [OF ws] True by (cases "lookup st d (request_key r)") auto
    then have "k \<noteq> request_key r" using l by auto
    then show ?thesis using ws_lookup [OF ws d] l by (cases "d = parent_cluster_number r") simp_all
  next
    case False
    then show ?thesis using ws_lookup [OF ws d] l by simp
  qed
  ultimately show ?thesis by simp
qed

lemma delete_keeps:
  assumes inv: "fs_inv st (dirs st)" and plain: "plain_request st (dirs st) r"
    and r: "fat32_delete r st = Some (Inr (c, st'))" and d: "d \<in> dirs st" and l: "lookup st d k = Some n"
    and other: "\<not> names_entry d k (Delete r)"
  shows "d \<in> dirs st' \<and> lookup st' d k = Some n"
proof (rule fat32_delete_cases [OF inv plain])
  assume "fat32_delete r st = Some (Inr (1, st))"
  then show ?thesis using r d l by simp
next
  assume "fat32_delete r st = Some (Inr (2, st))"
  then show ?thesis using r d l by simp
next
  fix s i assume s: "fat32_delete r st = Some (Inr (0, s))" and ds: "delete_step st s (dirs st) r i"
  have "d \<notin> set (freed st r i)"
  proof
    assume f: "d \<in> set (freed st r i)"
    obtain j where "live (dir_at (storage st) d) j" using l by (rule lookup_Some)
    with ds_freed_dirs [OF ds d f] show False by blast
  qed
  then have D: "d \<in> dirs st - set (freed st r i)" using d by blast
  have "d \<in> dirs s" using ds_dirs_eq [OF ds] D by simp
  moreover have "lookup s d k = Some n"
    using ds_lookup [OF ds D] l other by (cases "d = parent_cluster_number r") (auto simp: names_entry_def)
  ultimately show ?thesis using r s by simp
qed

lemma step_keeps:
  assumes con: "consistent st" and ok: "call_ok st call" and step: "fs_step st call st'"
    and d: "d \<in> dirs st" and l: "lookup st d k = Some n" and other: "\<not> names_entry d k call"
  shows "d \<in> dirs st' \<and> lookup st' d k = Some n"
proof -
  note inv = con [unfolded consistent_def]
  have same: ?thesis if "same_files st st'"
    using that dirs_cong [of st' st] lookup_cong [of st' st d] d l by (simp add: same_files_def)
  from step show ?thesis
  proof cases
    case (do_read r c)
    with ok have "plain_request st (dirs st) r" by (simp add: call_ok_def)
    from read_outcomes [OF inv this] do_read(2) same show ?thesis by (metis Inr_inject Pair_inject option.inject)
  next
    case (do_read_directory r c)
    then show ?thesis using same read_directory_same by blast
  next
    case (do_write r c)
    with ok have "parent_cluster_number r \<in> dirs st" "wf_request r" "fits r" by (simp_all add: call_ok_def)
    from write_keeps [OF inv this do_write(2) d l] show ?thesis .
  next
    case (do_delete r c)
    with ok have "plain_request st (dirs st) r" by (simp add: call_ok_def)
    from delete_keeps [OF inv this do_delete(2) d l] do_delete(1) other show ?thesis by simp
  next
    case (do_mount junk b m)
    then show ?thesis using same mount_consistent [OF con] by (simp add: same_files_def)
  next
    case (do_compute m)
    then show ?thesis using same by (simp add: same_files_def)
  qed
qed

lemma run_keeps:
  "fs_run st calls st' \<Longrightarrow> consistent st \<Longrightarrow> d \<in> dirs st \<Longrightarrow> lookup st d k = Some n \<Longrightarrow>
   \<forall>call \<in> set calls. \<not> names_entry d k call \<Longrightarrow> d \<in> dirs st' \<and> lookup st' d k = Some n"
proof (induction rule: fs_run.induct)
  case (next_call st call st' calls st'')
  note keep = step_keeps [OF next_call.prems(1) next_call.hyps(1,2) next_call.prems(2,3)]
  show ?case
    using next_call.IH next_call.prems keep step_consistent [OF next_call.prems(1) next_call.hyps(1,2)] by simp
qed simp

text \<open>The states at the end of a run that starts with a write.\<close>

lemma run_append: "fs_run st cs st' \<Longrightarrow> fs_run st' cs' st'' \<Longrightarrow> fs_run st (cs @ cs') st''"
  by (induction rule: fs_run.induct) (auto intro: fs_run.next_call)

text \<open>Taking the links of new clusters back restores the table.\<close>

lemma ws_fat_back:
  assumes ws: "write_step st st' D r slot slots"
  shows "fat_clear slots (fat_table st') = fat_table st"
  unfolding ws_new_fat [OF ws]
  by (rule fat_clear_link) (use ws_slots_free(1,2) [OF ws] fs_inv_fat(1) [OF ws_inv [OF ws]] in simp_all)

lemma ws_victim_slots:
  assumes ws: "write_step st st' (dirs st) r slot slots" and ds: "delete_step st' st'' (dirs st') r i"
  shows "freed st' r i = slots"
proof -
  let ?t = "dir_at (storage st') (parent_cluster_number r)"
  have ok: "table_ok ?t" by (rule fs_inv_dir(4) [OF ds_inv [OF ds] ds_dir [OF ds]])
  have new: "?t ! slot = new_entry r (buffer_size r = 0) (hd slots)"
    using ws_new_entry_at [OF ws] by (simp add: entry_at_def)
  have "live ?t slot" using ws_live_update [OF ws ws_dir [OF ws], of slot] by simp
  moreover have "entry_key (?t ! slot) = request_key r" unfolding new by (simp add: new_entry_def entry_key_def request_key_def)
  moreover have "entry_key (?t ! i) = request_key r" using ds by (simp add: delete_step_def Let_def)
  ultimately have "i = slot" using ds_live [OF ds] ok unfolding table_ok_def by metis
  then show ?thesis using ws_new_clusters [OF ws] new by (simp add: freed_def entry_at_def victim_def)
qed

text \<open>Deleting what is present and ready, and what is absent.\<close>

lemma delete_ready:
  assumes "consistent st" and plain: "plain_request st (dirs st) r"
    and l: "lookup st (parent_cluster_number r) (request_key r) = Some n"
    and "\<And>c. n = Folder c \<Longrightarrow> lookup st c = Map.empty"
  obtains st' i where "fat32_delete r st = Some (Inr (0, st'))" "delete_step st st' (dirs st) r i"
proof (rule fat32_delete_cases [OF assms(1) [unfolded consistent_def] plain])
  assume "\<And>i. live (dir_at (storage st) (parent_cluster_number r)) i \<Longrightarrow>
      entry_key (dir_at (storage st) (parent_cluster_number r) ! i) \<noteq> request_key r"
  then show thesis using l lookup_None_iff [of st "parent_cluster_number r" "request_key r"] by simp
next
  fix i assume i: "live (dir_at (storage st) (parent_cluster_number r)) i"
    "entry_key (dir_at (storage st) (parent_cluster_number r) ! i) = request_key r"
    "\<not> folder_ready st (dir_at (storage st) (parent_cluster_number r) ! i)"
  have "n = node_of st (dir_at (storage st) (parent_cluster_number r) ! i)"
    using lookup_of_live [OF assms(1) [unfolded consistent_def] plain i(1,2)] l by simp
  then show thesis using not_ready [OF i(3)] assms(4) by auto
qed (rule that)

lemma delete_missing:
  assumes "consistent st" and plain: "plain_request st (dirs st) r"
    and l: "lookup st (parent_cluster_number r) (request_key r) = None"
  shows "fat32_delete r st = Some (Inr (1, st))"
  by (rule fat32_delete_cases [OF assms(1) [unfolded consistent_def] plain])
    (use l lookup_of_live [OF assms(1) [unfolded consistent_def] plain] in
      \<open>auto dest: ds_victim_lookup\<close>)

lemma write_memory:
  assumes "fs_inv st D" and "parent_cluster_number r \<in> D" and "wf_request r" and "fits r"
    and "fat32_write r st = Inr (c, st')"
  shows "memory st' = memory st"
  by (rule fat32_write_cases [OF assms(1-4)]) (use assms(5) written_memory in auto)

end
