(* ===== verification/Fat32_Calls.thy ===== *)
theory Fat32_Calls
  imports Fat32_Runs
begin

unbundle bit_operations_syntax

text \<open>
  Each call of the file system against the abstract map, on its own: what a successful \<open>write\<close> and
  \<open>delete\<close> do to every directory's map, what \<open>read\<close> delivers, and which code each call returns in
  which case. The properties of the file system and the commands of the shell rest on these.
\<close>

lemma write_update:
  assumes "consistent st" and "call_ok st (Write r)" and "fat32_write r st = Inr (0, st')"
  shows "\<exists>c. c \<notin> dirs st
    \<and> dirs st' = (if buffer_size r = 0 then insert c (dirs st) else dirs st)
    \<and> (\<forall>d \<in> dirs st. lookup st' d = (if d = parent_cluster_number r
         then (lookup st d)(request_key r \<mapsto>
           (if buffer_size r = 0 then Folder c else File (mem_read (memory st) (buf r) (unat (buffer_size r)))))
         else lookup st d))
    \<and> (buffer_size r = 0 \<longrightarrow> lookup st' c = Map.empty)"
proof -
  have inv: "fs_inv st (dirs st)" using assms(1) by (simp add: consistent_def)
  have dir: "parent_cluster_number r \<in> dirs st" "wf_request r" "fits r"
    using assms(2) by (simp_all add: call_ok_def)
  obtain slot slots where ws: "write_step st st' (dirs st) r slot slots"
    by (rule fat32_write_cases [OF inv dir]) (use assms(3) in auto)
  show ?thesis
  proof (intro exI [of _ "hd slots"] conjI)
    show "hd slots \<notin> dirs st" by (rule ws_hd_new(1) [OF ws])
  qed (use ws_dirs_eq [OF ws] ws_lookup [OF ws] ws_lookup_child [OF ws] in
    \<open>simp_all add: dirs_after_def written_node_def\<close>)
qed

lemma write_codes:
  assumes "consistent st" and "call_ok st (Write r)"
  shows "if \<exists>e \<in> set (dir_at (storage st) (parent_cluster_number r)). entry_matches r e
    then fat32_write r st = Inr (1, st)
    else if (\<forall>i < DIR_ENTRIES. 0 < i \<longrightarrow>
             user_attribute (dir_at (storage st) (parent_cluster_number r) ! i) = UATTR_NOT_EMPTY)
         \<or> count_if (\<lambda>v. v = FAT32_FAT_EMPTY_ENTRY) (fat_table st) < max 1 (cluster_count (unat (buffer_size r)))
    then fat32_write r st = Inr (-1, st)
    else \<exists>st'. fat32_write r st = Inr (0, st')"
proof -
  have inv: "fs_inv st (dirs st)" using assms(1) by (simp add: consistent_def)
  have dir: "parent_cluster_number r \<in> dirs st" "wf_request r" "fits r"
    using assms(2) by (simp_all add: call_ok_def)
  let ?t = "dir_at (storage st) (parent_cluster_number r)" and ?free = "free_clusters (fat_table st)"
  define n where "n = unat (clusters_required (buffer_size r))"
  have n: "n = max 1 (cluster_count (unat (buffer_size r)))"
    using clusters_required_fits [OF dir(3)] clusters_required_pos [OF dir(3)]
    by (auto simp: n_def cluster_count_def split: if_splits)
  have free: "length ?free = count_if (\<lambda>v. v = FAT32_FAT_EMPTY_ENTRY) (fat_table st)"
    by (rule length_free_clusters [OF fs_inv_fat(1) [OF inv]])
  have full: "(\<forall>j. \<not> dead_slot ?t j) \<longleftrightarrow> (\<forall>i < DIR_ENTRIES. 0 < i \<longrightarrow> user_attribute (?t ! i) = UATTR_NOT_EMPTY)"
    by (auto simp: dead_slot_def)
  have commit: "\<exists>s. write_commit r ?t slot (take n ?free) st = Inr (0, s)" if "n \<le> length ?free" for slot
    using that n by (cases "take n ?free") (auto simp: write_commit_def Let_def)
  show ?thesis
    using fat32_write_eq [OF fs_inv_fat(1) [OF inv], of r] fs_inv_dir(2,3) [OF inv dir(1)]
      commit [of "LEAST j. dead_slot ?t j"]
    unfolding full [symmetric] free [symmetric] n [symmetric]
    by (simp add: Let_def n_def [symmetric])
qed

lemma delete_removal:
  assumes "consistent st" and "call_ok st (Delete r)" and "fat32_delete r st = Some (Inr (0, st'))"
  shows "lookup st (parent_cluster_number r) (request_key r) \<noteq> None
    \<and> (\<forall>d \<in> dirs st'. lookup st' d = (if d = parent_cluster_number r
         then (lookup st d)(request_key r := None) else lookup st d))
    \<and> dirs st' = dirs st - (case lookup st (parent_cluster_number r) (request_key r) of
         Some (Folder c) \<Rightarrow> {c} | _ \<Rightarrow> {})"
proof -
  have inv: "fs_inv st (dirs st)" using assms(1) by (simp add: consistent_def)
  have plain: "plain_request st (dirs st) r" using assms(2) by (simp add: call_ok_def)
  obtain i where ds: "delete_step st st' (dirs st) r i"
    by (rule fat32_delete_cases [OF inv plain]) (use assms(3) in auto)
  note l = ds_victim_lookup [OF ds]
  have "dirs st' = dirs st - set (freed st r i)" by (rule ds_dirs_eq [OF ds])
  moreover have "dirs st - set (freed st r i) = dirs st - (case lookup st (parent_cluster_number r) (request_key r) of
         Some (Folder c) \<Rightarrow> {c} | _ \<Rightarrow> {})"
    using ds_freed_folder [OF ds] ds_freed_file [OF ds] l by (cases "node_of st (entry_at st (victim r i))") auto
  ultimately show ?thesis using ds_lookup [OF ds] l by auto
qed

lemma delete_codes:
  assumes "consistent st" and "call_ok st (Delete r)"
  shows "case lookup st (parent_cluster_number r) (request_key r) of
      None \<Rightarrow> fat32_delete r st = Some (Inr (1, st))
    | Some (File bs) \<Rightarrow> \<exists>st'. fat32_delete r st = Some (Inr (0, st'))
    | Some (Folder c) \<Rightarrow>
        if lookup st c = Map.empty then \<exists>st'. fat32_delete r st = Some (Inr (0, st'))
        else fat32_delete r st = Some (Inr (2, st))"
proof -
  have inv: "fs_inv st (dirs st)" using assms(1) by (simp add: consistent_def)
  have plain: "plain_request st (dirs st) r" using assms(2) by (simp add: call_ok_def)
  show ?thesis
  proof (rule fat32_delete_cases [OF inv plain])
    assume "\<And>i. live (dir_at (storage st) (parent_cluster_number r)) i \<Longrightarrow>
        entry_key (dir_at (storage st) (parent_cluster_number r) ! i) \<noteq> request_key r"
      and "fat32_delete r st = Some (Inr (1, st))"
    then show ?thesis using lookup_None_iff [of st "parent_cluster_number r" "request_key r"] by simp
  next
    fix i assume i: "live (dir_at (storage st) (parent_cluster_number r)) i"
      "entry_key (dir_at (storage st) (parent_cluster_number r) ! i) = request_key r"
      "\<not> folder_ready st (dir_at (storage st) (parent_cluster_number r) ! i)"
      and r: "fat32_delete r st = Some (Inr (2, st))"
    show ?thesis using lookup_of_live [OF inv plain i(1,2)] not_ready [OF i(3)] r by auto
  next
    fix st' i assume r: "fat32_delete r st = Some (Inr (0, st'))" and ds: "delete_step st st' (dirs st) r i"
    show ?thesis using ds_victim_lookup [OF ds] ds_ready_empty [OF ds] r by (auto split: node.splits)
  qed
qed

text \<open>What a delete frees: the clusters of the one entry, which is no folder with something in it.\<close>

lemma delete_empty:
  assumes "consistent st" and "call_ok st (Delete r)" and "fat32_delete r st = Some (Inr (0, st'))"
    and "lookup st (parent_cluster_number r) (request_key r) = Some (Folder c)"
  shows "lookup st c = Map.empty"
proof (rule ccontr)
  assume "lookup st c \<noteq> Map.empty"
  with delete_codes [OF assms(1,2)] assms(3,4) show False by simp
qed

lemma delete_frees:
  assumes "consistent st" and "call_ok st (Delete r)" and "fat32_delete r st = Some (Inr (0, st'))"
  obtains i cs where "live (dir_at (storage st) (parent_cluster_number r)) i"
    "entry_key (dir_at (storage st) (parent_cluster_number r) ! i) = request_key r"
    "chain (fat_table st) (entry_cluster (dir_at (storage st) (parent_cluster_number r) ! i)) cs"
    "\<And>c. unat c < CLUSTER_MAP_SIZE \<Longrightarrow> fat_table st' ! unat c = (if c \<in> set cs then 0 else fat_table st ! unat c)"
    "consistent st'"
proof -
  have inv: "fs_inv st (dirs st)" using assms(1) by (simp add: consistent_def)
  have plain: "plain_request st (dirs st) r" using assms(2) by (simp add: call_ok_def)
  obtain i where ds: "delete_step st st' (dirs st) r i"
    by (rule fat32_delete_cases [OF inv plain]) (use assms(3) in auto)
  show thesis
  proof (rule that [of i "freed st r i"])
    show "live (dir_at (storage st) (parent_cluster_number r)) i" by (rule ds_live [OF ds])
    show "entry_key (dir_at (storage st) (parent_cluster_number r) ! i) = request_key r"
      using ds by (simp add: delete_step_def Let_def)
    show "chain (fat_table st) (entry_cluster (dir_at (storage st) (parent_cluster_number r) ! i)) (freed st r i)"
      using fs_inv_entry(1) [OF inv ds_entry [OF ds]] by (simp add: freed_def entry_at_def victim_def)
    show "fat_table st' ! unat c = (if c \<in> set (freed st r i) then 0 else fat_table st ! unat c)"
      if "unat c < CLUSTER_MAP_SIZE" for c by (rule ds_fat [OF ds that])
    show "consistent st'" by (rule fs_inv_consistent [OF ds_preserved [OF ds]])
  qed
qed

lemma read_map:
  assumes "consistent st" and "call_ok st (Read r)"
  shows "case lookup st (parent_cluster_number r) (request_key r) of
      None \<Rightarrow> fat32_read r st = Some (Inr (2, st))
    | Some (Folder c) \<Rightarrow> fat32_read r st = Some (Inr (1, st))
    | Some (File bs) \<Rightarrow>
        if unat (buffer_size r) div CLUSTER_SIZE < cluster_count (length bs)
        then fat32_read r st = Some (Inr (-1, st))
        else \<exists>m. fat32_read r st = Some (Inr (0, st\<lparr>memory := m\<rparr>))
          \<and> mem_read m (buf r) (length bs) = bs
          \<and> (\<forall>a. CLUSTER_SIZE * cluster_count (length bs) \<le> unat (a - buf r) \<longrightarrow> m a = memory st a)"
proof -
  have inv: "fs_inv st (dirs st)" using assms(1) by (simp add: consistent_def)
  have plain: "plain_request st (dirs st) r" using assms(2) by (simp add: call_ok_def)
  show ?thesis
  proof (cases "lookup st (parent_cluster_number r) (request_key r)")
    case None
    then show ?thesis using read_missing [OF inv plain None] by simp
  next
    case (Some n)
    show ?thesis
    proof (cases n)
      case (Folder c)
      then show ?thesis using Some read_folder [OF inv plain] by simp
    next
      case (File bs)
      with Some have f: "lookup st (parent_cluster_number r) (request_key r) = Some (File bs)" by simp
      show ?thesis
      proof (cases "unat (buffer_size r) div CLUSTER_SIZE < cluster_count (length bs)")
        case True
        then show ?thesis using f read_short [OF inv plain f] by simp
      next
        case False
        obtain pad where len: "length (bs @ pad) = CLUSTER_SIZE * cluster_count (length bs)"
          and r: "fat32_read r st = Some (Inr (0, st\<lparr>memory := mem_write (memory st) (buf r) (bs @ pad)\<rparr>))"
          using read_file [OF inv plain f] False by auto
        have small: "CLUSTER_SIZE * cluster_count (length bs) < 2 ^ 32"
          using file_length [OF inv plain f] by (rule cluster_count_small)
        have "mem_read (mem_write (memory st) (buf r) (bs @ pad)) (buf r) (length bs) = bs"
          using len small mem_read_write [where bs = "bs @ pad" and m = "memory st" and p = "buf r"]
            take_mem_read [of "length bs" "length (bs @ pad)" "mem_write (memory st) (buf r) (bs @ pad)" "buf r"]
          by simp
        moreover have "mem_write (memory st) (buf r) (bs @ pad) a = memory st a"
          if "CLUSTER_SIZE * cluster_count (length bs) \<le> unat (a - buf r)" for a
          using that len by (simp add: mem_write_def Let_def)
        ultimately show ?thesis using f r False by auto
      qed
    qed
  qed
qed

end
