(* ===== verification/Fat32_Properties.thy ===== *)
theory Fat32_Properties
  imports Fat32_Calls
begin

unbundle bit_operations_syntax

text \<open>
  The properties of the file system, over the definitions of \<open>Fat32\<close>: the invariant of
  all reachable states, the calls against the abstract map, their return codes, round trips
  over several calls, the loops' termination, and what the code does outside its design range.
  Each is followed by an instance on the device of \<open>Fat32_Demo\<close>.
\<close>

section \<open>Every reachable state\<close>

text \<open>C1: Every state that the driver reaches from a formatted device by any sequence of
  acceptable calls, remounts included, is consistent: the cached allocation table is the one
  on disk, every directory table is well formed with unique names, every entry owns a chain of
  exactly the clusters its size needs, and no cluster has two owners.\<close>

theorem file_system_stays_consistent:
  assumes "fs_reachable st"
  shows "consistent st"
  by (rule reachable_consistent [OF assms])

lemma demo_reachable: "fs_reachable demo_fs"
  unfolding demo_fs_def by (rule fs_reachable.formatted)

lemma demo_write_ok: "call_ok demo_fs (Write demo_file)"
  by (simp add: call_ok_def)

theorem file_system_stays_consistent_witness:
  "\<exists>st. fs_reachable st \<and> lookup st ROOT_CLUSTER_NUMBER (request_key demo_file) = Some (File demo_bytes) \<and> consistent st"
proof -
  obtain st' slot slots where w: "fat32_write demo_file demo_fs = Inr (0, st')"
    and l: "lookup st' ROOT_CLUSTER_NUMBER = [request_key demo_file \<mapsto> File demo_bytes]"
    by (rule demo_written)
  have "fs_reachable st'"
    by (rule fs_reachable.step [OF demo_reachable demo_write_ok fs_step.do_write [OF w]])
  from this l file_system_stays_consistent [OF this] show ?thesis by auto
qed

text \<open>C2: In a reachable state every acceptable call returns: no access past the allocation
  table, no uninitialised slot buffer, and no chain that \<open>read\<close> or \<open>delete\<close> would follow
  for ever.\<close>

theorem acceptable_calls_return:
  assumes "fs_reachable st" and "call_ok st call"
  shows "(\<exists>st'. fs_step st call st')
    \<and> (\<forall>r. call = Read r \<longrightarrow> (\<exists>c st'. fat32_read r st = Some (Inr (c, st'))))
    \<and> (\<forall>r. call = Delete r \<longrightarrow> (\<exists>c st'. fat32_delete r st = Some (Inr (c, st'))))
    \<and> (\<forall>r. call = Write r \<longrightarrow> (\<exists>c st'. fat32_write r st = Inr (c, st')))"
proof -
  have con: "consistent st" by (rule reachable_consistent [OF assms(1)])
  show ?thesis using step_total [OF con assms(2)] by (auto elim: fs_stepE)
qed

theorem acceptable_calls_return_witness:
  "\<exists>c st'. fat32_delete demo_file demo_fs = Some (Inr (c, st'))"
  using acceptable_calls_return [OF demo_reachable, of "Delete demo_file"] demo_plain_file
  by (simp add: call_ok_def)

section \<open>The calls against the abstract map\<close>

text \<open>C3: A \<open>write\<close> that returns 0 is one map update: the parent directory maps the new name
  to the caller's bytes, or to a new empty directory when the size is zero; every other
  directory of the tree keeps its map; the tree gains exactly that directory.\<close>

theorem write_is_map_update:
  assumes "consistent st" and "call_ok st (Write r)" and "fat32_write r st = Inr (0, st')"
  shows "\<exists>c. c \<notin> dirs st
    \<and> dirs st' = (if buffer_size r = 0 then insert c (dirs st) else dirs st)
    \<and> (\<forall>d \<in> dirs st. lookup st' d = (if d = parent_cluster_number r
         then (lookup st d)(request_key r \<mapsto>
           (if buffer_size r = 0 then Folder c else File (mem_read (memory st) (buf r) (unat (buffer_size r)))))
         else lookup st d))
    \<and> (buffer_size r = 0 \<longrightarrow> lookup st' c = Map.empty)"
  by (rule write_update [OF assms])

theorem write_is_map_update_witness:
  "\<exists>st'. fat32_write demo_folder demo_fs = Inr (0, st') \<and>
    (\<exists>c. dirs st' = {c, ROOT_CLUSTER_NUMBER} \<and> c \<noteq> ROOT_CLUSTER_NUMBER
      \<and> lookup st' ROOT_CLUSTER_NUMBER = [request_key demo_folder \<mapsto> Folder c])"
proof -
  obtain st' slot slots where w: "fat32_write demo_folder demo_fs = Inr (0, st')"
    and ws: "write_step demo_fs st' (dirs demo_fs) demo_folder slot slots"
    by (rule demo_write [OF demo_folder_root]) simp_all
  from write_is_map_update [OF demo_consistent(1) _ w] w show ?thesis by (auto simp: call_ok_def)
qed

text \<open>C14: The return codes of \<open>write\<close> on an acceptable request: 1 exactly when an entry of the
  parent has the name, else -1 exactly when the directory has no dead slot or the table has too
  few free clusters, else 0; the first two leave the state as it was.\<close>

theorem write_return_codes:
  assumes "consistent st" and "call_ok st (Write r)"
  shows "if \<exists>e \<in> set (dir_at (storage st) (parent_cluster_number r)). entry_matches r e
    then fat32_write r st = Inr (1, st)
    else if (\<forall>i < DIR_ENTRIES. 0 < i \<longrightarrow>
             user_attribute (dir_at (storage st) (parent_cluster_number r) ! i) = UATTR_NOT_EMPTY)
         \<or> count_if (\<lambda>v. v = FAT32_FAT_EMPTY_ENTRY) (fat_table st) < max 1 (cluster_count (unat (buffer_size r)))
    then fat32_write r st = Inr (-1, st)
    else \<exists>st'. fat32_write r st = Inr (0, st')"
  by (rule write_codes [OF assms])

theorem write_return_codes_witness:
  "\<exists>st'. fat32_write demo_file demo_fs = Inr (0, st') \<and> fat32_write demo_file st' = Inr (1, st')"
proof -
  obtain st' slot slots where w: "fat32_write demo_file demo_fs = Inr (0, st')"
    and st': "consistent st'" "dirs st' = {ROOT_CLUSTER_NUMBER}"
    and l: "lookup st' ROOT_CLUSTER_NUMBER = [request_key demo_file \<mapsto> File demo_bytes]"
    by (rule demo_written)
  have "\<exists>e \<in> set (dir_at (storage st') (parent_cluster_number demo_file)). entry_matches demo_file e"
    by (rule lookup_match [where n = "File demo_bytes"]) (simp_all add: l)
  moreover have "call_ok st' (Write demo_file)" using st' by (simp add: call_ok_def)
  ultimately show ?thesis using w write_return_codes [OF st'(1), of demo_file] by simp
qed

text \<open>C4: A \<open>delete\<close> that returns 0 removes exactly its key: the parent directory loses the name,
  every directory that stays keeps its map, and the tree loses at most the one directory that was
  named, which was empty. In the table the clusters of the deleted entry are free again and no other
  cluster changes, and the file system is consistent, so the device has the same table.\<close>

theorem delete_is_map_removal:
  assumes "consistent st" and "call_ok st (Delete r)" and "fat32_delete r st = Some (Inr (0, st'))"
  shows "lookup st (parent_cluster_number r) (request_key r) \<noteq> None
    \<and> (\<forall>d \<in> dirs st'. lookup st' d = (if d = parent_cluster_number r
         then (lookup st d)(request_key r := None) else lookup st d))
    \<and> dirs st' = dirs st - (case lookup st (parent_cluster_number r) (request_key r) of
         Some (Folder c) \<Rightarrow> {c} | _ \<Rightarrow> {})
    \<and> (\<forall>c. lookup st (parent_cluster_number r) (request_key r) = Some (Folder c) \<longrightarrow> lookup st c = Map.empty)
    \<and> (\<exists>i cs. live (dir_at (storage st) (parent_cluster_number r)) i
         \<and> entry_key (dir_at (storage st) (parent_cluster_number r) ! i) = request_key r
         \<and> chain (fat_table st) (entry_cluster (dir_at (storage st) (parent_cluster_number r) ! i)) cs
         \<and> (\<forall>c. unat c < CLUSTER_MAP_SIZE \<longrightarrow>
              fat_table st' ! unat c = (if c \<in> set cs then FAT32_FAT_EMPTY_ENTRY else fat_table st ! unat c)))
    \<and> consistent st'"
proof -
  obtain i cs where "live (dir_at (storage st) (parent_cluster_number r)) i"
    "entry_key (dir_at (storage st) (parent_cluster_number r) ! i) = request_key r"
    "chain (fat_table st) (entry_cluster (dir_at (storage st) (parent_cluster_number r) ! i)) cs"
    "\<And>c. unat c < CLUSTER_MAP_SIZE \<Longrightarrow> fat_table st' ! unat c = (if c \<in> set cs then 0 else fat_table st ! unat c)"
    "consistent st'"
    by (rule delete_frees [OF assms]) blast
  then show ?thesis using delete_removal [OF assms] delete_empty [OF assms] by blast
qed

theorem delete_is_map_removal_witness:
  "\<exists>st st'. fat32_delete demo_file st = Some (Inr (0, st'))
    \<and> lookup st ROOT_CLUSTER_NUMBER = [request_key demo_file \<mapsto> File demo_bytes]
    \<and> lookup st' ROOT_CLUSTER_NUMBER = Map.empty \<and> dirs st' = {ROOT_CLUSTER_NUMBER}
    \<and> (\<exists>c :: u32. fat_table st ! unat c \<noteq> FAT32_FAT_EMPTY_ENTRY \<and> fat_table st' ! unat c = FAT32_FAT_EMPTY_ENTRY)"
proof -
  obtain st where con: "consistent st" and d: "dirs st = {ROOT_CLUSTER_NUMBER}"
    and l: "lookup st ROOT_CLUSTER_NUMBER = [request_key demo_file \<mapsto> File demo_bytes]"
    and p: "plain_request st (dirs st) demo_file"
    by (rule demo_written)
  from con p obtain st' i where r: "fat32_delete demo_file st = Some (Inr (0, st'))"
    by (rule_tac delete_present [where r = demo_file]) (auto simp: l)
  have ok: "call_ok st (Delete demo_file)" using p by (simp add: call_ok_def)
  note del = delete_is_map_removal [OF con ok r]
  from del d l have "lookup st' ROOT_CLUSTER_NUMBER = Map.empty" "dirs st' = {ROOT_CLUSTER_NUMBER}"
    by (auto simp: fun_upd_def)
  moreover obtain i cs where i: "live (dir_at (storage st) ROOT_CLUSTER_NUMBER) i"
    "chain (fat_table st) (entry_cluster (dir_at (storage st) ROOT_CLUSTER_NUMBER ! i)) cs"
    and freed: "\<And>c. unat c < CLUSTER_MAP_SIZE \<Longrightarrow>
      fat_table st' ! unat c = (if c \<in> set cs then FAT32_FAT_EMPTY_ENTRY else fat_table st ! unat c)"
    using del by auto
  have inv: "fs_inv st (dirs st)" using con by (simp add: consistent_def)
  have x: "(ROOT_CLUSTER_NUMBER, i) \<in> entries st (dirs st)" using i(1) d by (simp add: entries_def)
  have cs: "clusters_of (fat_table st) (entry_at st (ROOT_CLUSTER_NUMBER, i)) = cs"
    using clusters_of_chain [OF i(2)] by (simp add: entry_at_def)
  obtain c where c: "c \<in> set cs" using owned_nonempty [OF inv x] unfolding cs by (meson list.set_sel(1))
  note in_use = owned_in_use [OF inv x, of c, unfolded cs, OF c]
  have "fat_table st ! unat c \<noteq> FAT32_FAT_EMPTY_ENTRY \<and> fat_table st' ! unat c = FAT32_FAT_EMPTY_ENTRY"
    using in_use freed [of c] c by simp
  ultimately show ?thesis using r l by blast
qed

text \<open>C15: The return codes of \<open>delete\<close> on an acceptable request: 1 for a name that the directory
  does not map, 2 for a directory that still has entries, 0 for a file and for an empty
  directory; 1 and 2 leave the state as it was.\<close>

theorem delete_return_codes:
  assumes "consistent st" and "call_ok st (Delete r)"
  shows "case lookup st (parent_cluster_number r) (request_key r) of
      None \<Rightarrow> fat32_delete r st = Some (Inr (1, st))
    | Some (File bs) \<Rightarrow> \<exists>st'. fat32_delete r st = Some (Inr (0, st'))
    | Some (Folder c) \<Rightarrow>
        if lookup st c = Map.empty then \<exists>st'. fat32_delete r st = Some (Inr (0, st'))
        else fat32_delete r st = Some (Inr (2, st))"
  by (rule delete_codes [OF assms])

theorem delete_return_codes_witness:
  "fat32_delete demo_file demo_fs = Some (Inr (1, demo_fs))
    \<and> (\<exists>st st'. fat32_delete demo_file st = Some (Inr (0, st')))"
proof (rule conjI)
  show "fat32_delete demo_file demo_fs = Some (Inr (1, demo_fs))"
    using delete_return_codes [OF demo_consistent(1), of demo_file] demo_plain_file by (simp add: call_ok_def)
next
  obtain st where con: "consistent st" and l: "lookup st ROOT_CLUSTER_NUMBER = [request_key demo_file \<mapsto> File demo_bytes]"
    and p: "plain_request st (dirs st) demo_file"
    by (rule demo_written)
  show "\<exists>st st'. fat32_delete demo_file st = Some (Inr (0, st'))"
    using delete_return_codes [OF con, of demo_file] l p by (auto simp: call_ok_def)
qed

text \<open>C5: \<open>read\<close> delivers the abstract map: a name that is not mapped gives 2, a directory 1, a
  file whose clusters do not fit the buffer -1, and otherwise 0 with the bytes of the file at
  \<open>buf\<close>. No byte outside the whole clusters of the destination changes, and neither the device
  nor the table does.\<close>

theorem read_delivers_the_map:
  assumes "consistent st" and "call_ok st (Read r)"
  shows "case lookup st (parent_cluster_number r) (request_key r) of
      None \<Rightarrow> fat32_read r st = Some (Inr (2, st))
    | Some (Folder c) \<Rightarrow> fat32_read r st = Some (Inr (1, st))
    | Some (File bs) \<Rightarrow>
        if unat (buffer_size r) div CLUSTER_SIZE < cluster_count (length bs)
        then fat32_read r st = Some (Inr (-1, st))
        else \<exists>m. fat32_read r st = Some (Inr (0, st\<lparr>memory := m\<rparr>))
          \<and> mem_read m (buf r) (length bs) = bs
          \<and> (\<forall>a. CLUSTER_SIZE * cluster_count (length bs) \<le> unat (a - buf r) \<longrightarrow> m a = memory st a)"
  by (rule read_map [OF assms])

theorem read_delivers_the_map_witness:
  "\<exists>st m. lookup st ROOT_CLUSTER_NUMBER = [request_key demo_file \<mapsto> File demo_bytes]
    \<and> fat32_read demo_read st = Some (Inr (0, st\<lparr>memory := m\<rparr>)) \<and> mem_read m 0x80000 5000 = demo_bytes"
proof -
  obtain st where con: "consistent st" and l: "lookup st ROOT_CLUSTER_NUMBER = [request_key demo_file \<mapsto> File demo_bytes]"
    and p: "plain_request st (dirs st) demo_read"
    by (rule demo_written)
  show ?thesis
    using read_delivers_the_map [OF con, of demo_read] l p by (auto simp: call_ok_def cluster_count_def)
qed

section \<open>Round trips\<close>

text \<open>C6: Durability: the bytes of a successful \<open>write\<close> are what a later \<open>read\<close> of the same
  name delivers, after any run of acceptable calls in between (writes, deletes of other names,
  reads, remounts that forget the cached table), as long as none of them deletes that name.\<close>

theorem written_bytes_are_read_back:
  assumes "consistent st" and "call_ok st (Write w)" and "fat32_write w st = Inr (0, st1)"
    and "buffer_size w \<noteq> 0"
    and "fs_run st1 calls st2"
    and "\<forall>call \<in> set calls. \<not> names_entry (parent_cluster_number w) (request_key w) call"
    and "call_ok st2 (Read r)" and "parent_cluster_number r = parent_cluster_number w"
    and "request_key r = request_key w"
    and "cluster_count (unat (buffer_size w)) \<le> unat (buffer_size r) div CLUSTER_SIZE"
  shows "\<exists>m. fat32_read r st2 = Some (Inr (0, st2\<lparr>memory := m\<rparr>))
    \<and> mem_read m (buf r) (unat (buffer_size w)) = mem_read (memory st) (buf w) (unat (buffer_size w))"
proof -
  let ?p = "parent_cluster_number w" and ?n = "unat (buffer_size w)"
  have inv: "fs_inv st (dirs st)" using assms(1) by (simp add: consistent_def)
  have dir: "?p \<in> dirs st" "wf_request w" "fits w" using assms(2) by (simp_all add: call_ok_def)
  obtain slot slots where ws: "write_step st st1 (dirs st) w slot slots"
    by (rule fat32_write_cases [OF inv dir]) (use assms(3) in auto)
  have con1: "consistent st1" by (rule fs_inv_consistent [OF ws_preserved [OF ws]])
  have con2: "consistent st2" by (rule run_consistent [OF assms(5) con1])
  have "?p \<in> dirs st1" using ws_dirs_eq [OF ws] dir(1) by (simp add: dirs_after_def)
  moreover have "lookup st1 ?p (request_key w) = Some (File (mem_read (memory st) (buf w) ?n))"
    using written_lookup [OF ws assms(4)] by simp
  ultimately have l: "lookup st2 ?p (request_key w) = Some (File (mem_read (memory st) (buf w) ?n))"
    using run_keeps [OF assms(5) con1 _ _ assms(6)] by blast
  have inv2: "fs_inv st2 (dirs st2)" using con2 by (simp add: consistent_def)
  have plain: "plain_request st2 (dirs st2) r" using assms(7) by (simp add: call_ok_def)
  have f: "lookup st2 (parent_cluster_number r) (request_key r) = Some (File (mem_read (memory st) (buf w) ?n))"
    using l assms(8,9) by simp
  from read_file [OF inv2 plain f] assms(10) obtain pad where
    len: "length (mem_read (memory st) (buf w) ?n @ pad) = CLUSTER_SIZE * cluster_count ?n"
    and r: "fat32_read r st2 = Some (Inr (0, st2\<lparr>memory := mem_write (memory st2) (buf r)
      (mem_read (memory st) (buf w) ?n @ pad)\<rparr>))" by auto
  have "CLUSTER_SIZE * cluster_count ?n < 2 ^ 32"
    using dir(3) by (intro cluster_count_small) (simp add: fits_def)
  with len r show ?thesis by (auto simp: mem_read_write)
qed

theorem written_bytes_are_read_back_witness:
  "\<exists>st1 m. fat32_write demo_file demo_fs = Inr (0, st1)
    \<and> fat32_read demo_read (initialize_filesystem_fat32 (st1\<lparr>fat_table := []\<rparr>)) = Some (Inr (0, st1\<lparr>memory := m\<rparr>))
    \<and> mem_read m 0x80000 5000 = demo_bytes"
proof -
  obtain st1 slot slots where w: "fat32_write demo_file demo_fs = Inr (0, st1)"
    and con: "consistent st1" and p: "plain_request st1 (dirs st1) demo_read"
    by (rule demo_written)
  have m: "initialize_filesystem_fat32 (st1\<lparr>fat_table := []\<rparr>) = st1"
    using mount_consistent [OF con, where junk = "[]" and b = "dir_table_buf st1" and m = "memory st1"] by simp
  have "fs_step st1 Mount st1"
    by (rule fs_step.do_mount [where junk = "[]" and b = "dir_table_buf st1" and m = "memory st1"]) (simp add: m)
  then have run: "fs_run st1 [Mount] st1"
    by (intro fs_run.next_call [OF _ _ fs_run.no_call]) (simp_all add: call_ok_def)
  from written_bytes_are_read_back [OF demo_consistent(1) demo_write_ok w _ run, of demo_read]
  show ?thesis using w p by (auto simp: m names_entry_def call_ok_def cluster_count_def demo_bytes_mem [simplified])
qed

text \<open>C7: \<open>write\<close> followed by \<open>delete\<close> of the same name succeeds and restores the allocation
  table entry by entry, the set of directories and every directory's map: no cluster leaks.\<close>

theorem delete_undoes_write:
  assumes "consistent st" and "call_ok st (Write r)" and "call_ok st (Delete r)"
    and "fat32_write r st = Inr (0, st1)"
  shows "\<exists>st2. fat32_delete r st1 = Some (Inr (0, st2)) \<and> fat_table st2 = fat_table st
    \<and> dirs st2 = dirs st \<and> (\<forall>d \<in> dirs st. lookup st2 d = lookup st d)"
proof -
  have inv: "fs_inv st (dirs st)" using assms(1) by (simp add: consistent_def)
  have dir: "parent_cluster_number r \<in> dirs st" "wf_request r" "fits r"
    using assms(2) by (simp_all add: call_ok_def)
  have plain: "plain_request st (dirs st) r" using assms(3) by (simp add: call_ok_def)
  obtain slot slots where ws: "write_step st st1 (dirs st) r slot slots"
    by (rule fat32_write_cases [OF inv dir]) (use assms(4) in auto)
  have con1: "consistent st1" by (rule fs_inv_consistent [OF ws_preserved [OF ws]])
  have l1: "lookup st1 (parent_cluster_number r) (request_key r) = Some (written_node st r slots)"
    using ws_lookup [OF ws dir(1)] by simp
  obtain st2 i where r2: "fat32_delete r st1 = Some (Inr (0, st2))" and ds: "delete_step st1 st2 (dirs st1) r i"
    by (rule delete_ready [OF con1 ws_plain [OF ws plain] l1])
      (use ws_lookup_child [OF ws] in \<open>auto simp: written_node_def split: if_splits\<close>)
  have fr: "freed st1 r i = slots" by (rule ws_victim_slots [OF ws ds])
  have fat: "fat_table st2 = fat_table st"
    using ds_effect [OF ds] ws_fat_back [OF ws] fr by (simp add: deleted_def)
  have dd: "d \<notin> set slots" if "d \<in> dirs st" for d using ws_slots_free(3) [OF ws] that by blast
  have d1: "dirs st1 = dirs_after r slots (dirs st)" by (rule ws_dirs_eq [OF ws])
  have d2: "dirs st2 = dirs st"
    using ds_dirs_eq [OF ds] fr d1 dd ws_hd_new(2) [OF ws] by (auto simp: dirs_after_def split: if_splits)
  have old: "lookup st (parent_cluster_number r) (request_key r) = None"
    using lookup_match [OF dir(2), of st] ws_no_match [OF ws]
    by (cases "lookup st (parent_cluster_number r) (request_key r)") auto
  have "lookup st2 d = lookup st d" if d: "d \<in> dirs st" for d
  proof -
    have "d \<in> dirs st1 - set (freed st1 r i)" using d dd fr d1 by (auto simp: dirs_after_def)
    from ds_lookup [OF ds this] ws_lookup [OF ws d] show ?thesis
      using old by (cases "d = parent_cluster_number r") auto
  qed
  with r2 fat d2 show ?thesis by blast
qed

theorem delete_undoes_write_witness:
  "\<exists>st1 st2. fat32_write demo_folder demo_fs = Inr (0, st1) \<and> fat32_delete demo_folder st1 = Some (Inr (0, st2))
    \<and> fat_table st2 = fat_table demo_fs \<and> lookup st2 ROOT_CLUSTER_NUMBER = Map.empty"
proof -
  obtain st1 where w: "fat32_write demo_folder demo_fs = Inr (0, st1)"
    by (rule demo_write [OF demo_folder_root]) simp_all
  from delete_undoes_write [OF demo_consistent(1) _ _ w] w show ?thesis
    using demo_plain [OF demo_folder_root] by (auto simp: call_ok_def)
qed

text \<open>C18: A remount recovers everything: from the device alone, with the cached table, the
  directory buffer and the memory replaced by anything, \<open>initialize_filesystem_fat32\<close> finds
  the signature, does not format, and reads back the very table that was cached.\<close>

theorem remount_recovers:
  assumes "consistent st"
  shows "initialize_filesystem_fat32 (st\<lparr>fat_table := junk, dir_table_buf := b, memory := m\<rparr>)
    = st\<lparr>dir_table_buf := b, memory := m\<rparr>"
  using assms by (rule mount_consistent)

theorem remount_recovers_witness:
  "\<exists>st. lookup st ROOT_CLUSTER_NUMBER = [request_key demo_file \<mapsto> File demo_bytes]
    \<and> initialize_filesystem_fat32 (st\<lparr>fat_table := [1, 2, 3], dir_table_buf := [], memory := \<lambda>_. 0\<rparr>)
      = st\<lparr>dir_table_buf := [], memory := \<lambda>_. 0\<rparr>"
proof -
  obtain st where con: "consistent st" and l: "lookup st ROOT_CLUSTER_NUMBER = [request_key demo_file \<mapsto> File demo_bytes]"
    by (rule demo_written)
  with remount_recovers [OF con] show ?thesis by blast
qed

text \<open>Formatting: whatever the device held, \<open>create_fat32\<close> leaves a consistent file system
  with the root as its only directory, nothing in it, 509 free clusters, and a signature that the
  next mount recognises; the memory is untouched.\<close>

theorem format_gives_empty_file_system:
  "consistent (create_fat32 st) \<and> dirs (create_fat32 st) = {ROOT_CLUSTER_NUMBER}
    \<and> lookup (create_fat32 st) ROOT_CLUSTER_NUMBER = Map.empty
    \<and> count_if (\<lambda>v. v = FAT32_FAT_EMPTY_ENTRY) (fat_table (create_fat32 st)) = 509
    \<and> \<not> is_empty_storage (create_fat32 st) \<and> memory (create_fat32 st) = memory st"
  using fresh_consistent [of st] dirs_format [of st] fresh_lookup [of st] create_fat32_driver_ok [of st]
    length_free_clusters [of format_fat] length_free_format
  by (simp add: create_fat32_fat create_fat32_memory is_empty_storage_iff driver_ok_def)

section \<open>In every state, consistent or not\<close>

text \<open>C19: A call with a non-zero return code changes nothing at all, in any state and for any
  request.\<close>

theorem failed_calls_change_nothing:
  "(fat32_write r st = Inr (c, st') \<and> c \<noteq> 0 \<longrightarrow> st' = st)
    \<and> (fat32_delete r st = Some (Inr (c, st')) \<and> c \<noteq> 0 \<longrightarrow> st' = st)
    \<and> (fat32_read r st = Some (Inr (c, st')) \<and> c \<noteq> 0 \<longrightarrow> st' = st)
    \<and> (fat32_read_directory r st = (c, st') \<and> c \<noteq> 0 \<longrightarrow> st' = st)"
proof (intro conjI impI)
  show "fat32_write r st = Inr (c, st') \<and> c \<noteq> 0 \<Longrightarrow> st' = st"
    using fat32_write_returns [of r st c st'] by blast
  show "fat32_delete r st = Some (Inr (c, st')) \<and> c \<noteq> 0 \<Longrightarrow> st' = st"
    by (auto simp: fat32_delete_def Let_def map_sum_Inr_iff
        split: sum.splits option.splits prod.splits if_splits)
  show "fat32_read r st = Some (Inr (c, st')) \<and> c \<noteq> 0 \<Longrightarrow> st' = st"
    by (auto simp: fat32_read_def map_sum_Inr_iff
        split: sum.splits option.splits prod.splits if_splits)
  show "fat32_read_directory r st = (c, st') \<and> c \<noteq> 0 \<Longrightarrow> st' = st"
    by (auto simp: fat32_read_directory_def split: option.splits prod.splits if_splits)
qed

theorem failed_calls_change_nothing_witness:
  "\<exists>c st'. fat32_delete demo_file demo_fs = Some (Inr (c, st')) \<and> c \<noteq> 0 \<and> st' = demo_fs"
  using failed_calls_change_nothing [of demo_file demo_fs 1 demo_fs]
    delete_missing [OF demo_consistent(1) demo_plain_file] by simp

text \<open>\<open>read\<close> and \<open>read_directory\<close> never write to the device, the cached table or the
  directory buffer, in any state in which they return, even along a corrupt chain.\<close>

theorem reads_change_memory_only:
  assumes "fat32_read r st = Some (Inr (c, st')) \<or> fat32_read_directory r st = (c, st')"
  shows "storage st' = storage st \<and> fat_table st' = fat_table st \<and> dir_table_buf st' = dir_table_buf st"
  using assms
proof
  assume "fat32_read r st = Some (Inr (c, st'))"
  from fat32_read_returns [OF this] show ?thesis using read_loop_frame by blast
next
  assume "fat32_read_directory r st = (c, st')"
  then show ?thesis by (auto simp: fat32_read_directory_def split: option.splits prod.splits if_splits)
qed

theorem reads_change_memory_only_witness:
  "\<exists>st m. storage st = storage demo_fs \<and> fat32_read_directory demo_file demo_fs = (m, st)"
  using reads_change_memory_only [of demo_file demo_fs _ "snd (fat32_read_directory demo_file demo_fs)"]
  by (metis prod.collapse)

end
