(* ===== verification/Fat32_Limits.thy ===== *)
theory Fat32_Limits
  imports Fat32_Runs
begin

unbundle bit_operations_syntax

text \<open>
  The helpers against their reference definitions, and the behaviour outside the range that
  the invariant covers: sizes beyond the eight-bit cluster counter, cyclic chains, the name of
  the directory itself, and the listing of directories.
\<close>

section \<open>Helpers\<close>

text \<open>\<open>count_empty_fat_slots\<close> returns the lowest free cluster numbers, in order, as many as
  required or as there are: its loop with an eight-bit counter equals a prefix of a filter.\<close>

theorem count_empty_fat_slots_is_filter:
  "case count_empty_fat_slots fat required of
     (n, slots) \<Rightarrow> unat n = length slots
       \<and> map unat slots = take (unat required) (filter (\<lambda>i. fat ! i = FAT32_FAT_EMPTY_ENTRY) [0..<CLUSTER_MAP_SIZE])"
proof -
  let ?free = "filter (\<lambda>i. fat ! i = FAT32_FAT_EMPTY_ENTRY) [0..<CLUSTER_MAP_SIZE]"
  have "map unat (free_clusters fat) = ?free"
    unfolding free_clusters_def map_map by (rule map_idI) simp
  then have "map unat (take (unat required) (free_clusters fat)) = take (unat required) ?free"
    by (metis take_map)
  moreover have "min (length (free_clusters fat)) (unat required) < 256"
    using unat_u8_lt [of required] by linarith
  then have "unat (of_nat (min (length (free_clusters fat)) (unat required)) :: u8)
      = min (length (free_clusters fat)) (unat required)"
    by (simp add: unat_of_nat)
  ultimately show ?thesis by (simp add: count_empty_fat_slots_eq Let_def)
qed

text \<open>\<open>ceil(n / (float) CLUSTER_SIZE)\<close> is the number of clusters that \<open>n\<close> bytes need, kept in
  eight bits: exact below 16 MiB but for the wrap at 256.\<close>

theorem ceil_counts_clusters:
  assumes "unat n < 2 ^ 24"
  shows "unat (ceil (size_in_clusters n)) = cluster_count (unat n) mod 256
    \<and> unat n \<le> CLUSTER_SIZE * cluster_count (unat n)
    \<and> CLUSTER_SIZE * cluster_count (unat n) < unat n + CLUSTER_SIZE"
proof -
  have "CLUSTER_SIZE * cluster_count (unat n) < unat n + CLUSTER_SIZE"
    using div_mult_mod_eq [of "unat n + 2047" CLUSTER_SIZE] unfolding cluster_count_def by linarith
  then show ?thesis
    using unat_ceil_size [OF assms] round_up_ge [of "unat n"] by (simp add: cluster_count_def)
qed

theorem ceil_counts_clusters_witness:
  "unat (ceil (size_in_clusters 524289)) = 1"
  using ceil_counts_clusters [of 524289] by (simp add: cluster_count_def)

text \<open>Directory tables and the allocation table survive the disk: what is stored in a cluster
  is read back from it field by field, and no other cluster sees it.\<close>

theorem tables_survive_the_disk:
  assumes "cluster_valid c" and "cluster_valid d" and "wf_table t" and "length fat = CLUSTER_MAP_SIZE"
  shows "dir_at (wr img c (encode_table t)) d = (if c = d then t else dir_at img d)
    \<and> decode_fat (rd (wr img c (encode_fat fat)) d) = (if c = d then fat else decode_fat (rd img d))
    \<and> encode_table (dir_at img d) = rd img d"
  using assms by (simp add: clusters.get_put)

theorem tables_survive_the_disk_witness:
  "dir_at (wr (\<lambda>_. 7) 5 (encode_table root_table)) 5 = root_table"
  using tables_survive_the_disk [of 5 5 root_table format_fat "\<lambda>_. 7"] by (simp add: small_cluster_valid)

section \<open>Listing a directory\<close>

lemma find_entry_cong: "\<forall>e \<in> set es. P e = Q e \<Longrightarrow> find_entry P i es = find_entry Q i es"
  by (induction es arbitrary: i) auto

lemma live_scan:
  assumes "fs_inv st D" and "plain_request st D r"
  shows "find_entry (\<lambda>e. user_attribute e = UATTR_NOT_EMPTY \<and> entry_matches r e) 0
      (dir_at (storage st) (parent_cluster_number r))
    = find_entry (entry_matches r) 0 (dir_at (storage st) (parent_cluster_number r))"
proof (rule find_entry_cong, intro ballI)
  let ?t = "dir_at (storage st) (parent_cluster_number r)"
  fix e assume "e \<in> set ?t"
  then obtain i where "i < DIR_ENTRIES" "e = ?t ! i" by (metis in_set_conv_nth length_dir_at)
  then show "(user_attribute e = UATTR_NOT_EMPTY \<and> entry_matches r e) = entry_matches r e"
    using plain_request_match [OF assms] by (auto simp: live_def)
qed

text \<open>C16: \<open>read_directory\<close> against the map: 2 for a key that is not mapped, 1 for a file, and for
  a directory -1 when the buffer is below one entry, else 0 with the whole cluster of the table
  at \<open>buf\<close>, so that a buffer of 32 bytes is accepted and 2048 bytes are written. The key is the
  name and the extension: although the header calls \<open>ext\<close> unused for this call, a directory that is
  asked for with another extension than the one it was made with is not found.\<close>

theorem read_directory_lists_the_map:
  assumes "consistent st" and "plain_request st (dirs st) r"
  shows "fat32_read_directory r st =
    (case lookup st (parent_cluster_number r) (request_key r) of
       None \<Rightarrow> (2, st)
     | Some (File bs) \<Rightarrow> (1, st)
     | Some (Folder c) \<Rightarrow>
         if buffer_size r < 32 then (-1, st)
         else (0, st\<lparr>memory := mem_write (memory st) (buf r) (encode_table (dir_at (storage st) c))\<rparr>))"
proof -
  have inv: "fs_inv st (dirs st)" using assms(1) by (simp add: consistent_def)
  note scan = live_scan [OF inv assms(2)]
  show ?thesis
  proof (cases "lookup st (parent_cluster_number r) (request_key r)")
    case None
    then have "\<forall>e \<in> set (dir_at (storage st) (parent_cluster_number r)). \<not> entry_matches r e"
      unfolding lookup_None_iff by (intro find_none [OF inv assms(2)]) blast
    then show ?thesis
      using None by (simp add: fat32_read_directory_def scan find_entry_None_iff [THEN iffD2])
  next
    case (Some n)
    obtain i where i: "live (dir_at (storage st) (parent_cluster_number r)) i"
        "entry_key (dir_at (storage st) (parent_cluster_number r) ! i) = request_key r"
        "n = node_of st (dir_at (storage st) (parent_cluster_number r) ! i)"
      using Some by (rule lookup_Some)
    then show ?thesis
      using Some find_live [OF inv assms(2) i(1,2)]
      by (auto simp: fat32_read_directory_def scan node_of_def is_folder_def)
  qed
qed

text \<open>After the folder was written: listed, asked for with too small a buffer and with the extension
  \<open>txt\<close>; and the file, after it was written.\<close>

theorem read_directory_lists_the_map_witness:
  "(\<exists>st c. fat32_write demo_folder demo_fs = Inr (0, st)
     \<and> fat32_read_directory (demo_folder\<lparr>buffer_size := 2048\<rparr>) st
         = (0, st\<lparr>memory := mem_write (memory st) 0 (encode_table (dir_at (storage st) c))\<rparr>)
     \<and> fat32_read_directory (demo_folder\<lparr>buffer_size := 31\<rparr>) st = (-1, st)
     \<and> fat32_read_directory (demo_folder\<lparr>buffer_size := 2048, rext := str ''txt''\<rparr>) st = (2, st))
   \<and> (\<exists>st. fat32_write demo_file demo_fs = Inr (0, st) \<and> fat32_read_directory demo_file st = (1, st))"
proof (rule conjI)
  obtain st slot slots where w: "fat32_write demo_folder demo_fs = Inr (0, st)"
    and ws: "write_step demo_fs st (dirs demo_fs) demo_folder slot slots"
    by (rule demo_write [OF demo_folder_root]) simp_all
  have con: "consistent st" by (rule fs_inv_consistent [OF ws_preserved [OF ws]])
  let ?k = "request_key demo_folder"
  have l: "lookup st ROOT_CLUSTER_NUMBER = [?k \<mapsto> Folder (hd slots)]"
    using ws_lookup [OF ws ws_dir [OF ws]] by (simp add: written_node_def)
  note names = demo_names(3,4)
  have r: "root_request (demo_folder\<lparr>buffer_size := n\<rparr>)" "root_request (demo_folder\<lparr>buffer_size := n, rext := str ''txt''\<rparr>)" for n
    using names by (auto simp: root_request_def request_key_def demo_folder_def wf_request_def)
  have txt_ext: "str ''txt'' \<noteq> replicate 3 0" by code_simp
  have k: "request_key (demo_folder\<lparr>buffer_size := n\<rparr>) = ?k"
    "request_key (demo_folder\<lparr>buffer_size := n, rext := str ''txt''\<rparr>) \<noteq> ?k" for n
    using txt_ext by (simp_all add: request_key_def demo_folder_def)
  note listing = read_directory_lists_the_map [OF con ws_plain [OF ws demo_plain [OF r(1)]], unfolded k(1)]
    and other = read_directory_lists_the_map [OF con ws_plain [OF ws demo_plain [OF r(2)]]]
  have buf: "buf demo_folder = 0" by (simp add: demo_folder_def)
  have "fat32_read_directory (demo_folder\<lparr>buffer_size := 2048\<rparr>) st
      = (0, st\<lparr>memory := mem_write (memory st) 0 (encode_table (dir_at (storage st) (hd slots)))\<rparr>)"
    "fat32_read_directory (demo_folder\<lparr>buffer_size := 31\<rparr>) st = (-1, st)"
    "fat32_read_directory (demo_folder\<lparr>buffer_size := 2048, rext := str ''txt''\<rparr>) st = (2, st)"
    using listing other k(2) by (simp_all add: l buf)
  with w show "\<exists>st c. fat32_write demo_folder demo_fs = Inr (0, st)
     \<and> fat32_read_directory (demo_folder\<lparr>buffer_size := 2048\<rparr>) st
         = (0, st\<lparr>memory := mem_write (memory st) 0 (encode_table (dir_at (storage st) c))\<rparr>)
     \<and> fat32_read_directory (demo_folder\<lparr>buffer_size := 31\<rparr>) st = (-1, st)
     \<and> fat32_read_directory (demo_folder\<lparr>buffer_size := 2048, rext := str ''txt''\<rparr>) st = (2, st)" by blast
next
  obtain st where w: "fat32_write demo_file demo_fs = Inr (0, st)" "consistent st"
    and l: "lookup st ROOT_CLUSTER_NUMBER = [request_key demo_file \<mapsto> File demo_bytes]"
    and p: "plain_request st (dirs st) demo_file"
    by (rule demo_written)
  from read_directory_lists_the_map [OF w(2) p] l have "fat32_read_directory demo_file st = (1, st)" by simp
  with w(1) show "\<exists>st. fat32_write demo_file demo_fs = Inr (0, st) \<and> fat32_read_directory demo_file st = (1, st)" by blast
qed

section \<open>Sizes beyond the cluster counter\<close>

lemma oversize_required:
  "buffer_size r \<noteq> 0 \<Longrightarrow> unat (buffer_size r) < 2 ^ 24 \<Longrightarrow>
   unat (clusters_required (buffer_size r)) = cluster_count (unat (buffer_size r)) mod 256"
  using unat_ceil_size [of "buffer_size r"] by (simp add: clusters_required_def cluster_count_def)

lemma wrote_chain:
  assumes "wrote r slot slots st st'" and "plain_slots slots" and "slots \<noteq> []"
    and "length (fat_table st) = CLUSTER_MAP_SIZE"
  shows "chain (fat_table st') (hd slots) slots"
proof -
  have "fat_table st' = link_fat slots (fat_table st)" using assms(1) by (simp add: wrote_def)
  moreover have "\<forall>c \<in> set slots. unat c < length (fat_table st) \<and> c \<noteq> FAT32_FAT_END_OF_FILE"
    using assms(2,4) by (auto simp: plain_slots_def)
  ultimately show ?thesis using assms(2,3) by (simp add: chain_link_fat plain_slots_def)
qed

text \<open>C24: A file that needs 256 clusters or more is accepted although the counter wraps: when the
  low eight bits of the count are zero, \<open>write\<close> reads its slot buffer uninitialised; otherwise
  it returns 0 after storing only that many clusters under an entry with the full size.\<close>

theorem oversized_write_truncates:
  assumes "consistent st" and "parent_cluster_number r \<in> dirs st" and "wf_request r"
    and "unat (buffer_size r) < 2 ^ 24" and "MAX_FILE < unat (buffer_size r)"
    and "\<forall>e \<in> set (dir_at (storage st) (parent_cluster_number r)). \<not> entry_matches r e"
    and "dead_slot (dir_at (storage st) (parent_cluster_number r)) j"
    and "255 \<le> count_if (\<lambda>v. v = FAT32_FAT_EMPTY_ENTRY) (fat_table st)"
  shows "if cluster_count (unat (buffer_size r)) mod 256 = 0 then fat32_write r st = Inl Uninitialised
    else \<exists>st' i cs. fat32_write r st = Inr (0, st')
      \<and> dir_at (storage st') (parent_cluster_number r) ! i = new_entry r False (hd cs)
      \<and> chain (fat_table st') (hd cs) cs \<and> length cs = cluster_count (unat (buffer_size r)) mod 256"
proof -
  let ?t = "dir_at (storage st) (parent_cluster_number r)" and ?free = "free_clusters (fat_table st)"
  let ?n = "cluster_count (unat (buffer_size r)) mod 256" and ?slot = "LEAST j. dead_slot ?t j"
  let ?slots = "take ?n ?free"
  have inv: "fs_inv st (dirs st)" using assms(1) by (simp add: consistent_def)
  have nz: "buffer_size r \<noteq> 0" using assms(5) by auto
  note d = fs_inv_dir [OF inv assms(2)]
  have "?n < 256" by simp
  then have n: "?n \<le> length ?free"
    using assms(8) length_free_clusters [OF fs_inv_fat(1) [OF inv]] by linarith
  have eq: "fat32_write r st = write_commit r ?t ?slot ?slots st"
    using fat32_write_eq [OF fs_inv_fat(1) [OF inv], of r] d(2,3) assms(6,7) n oversize_required [OF nz assms(4)]
    by (auto simp: Let_def)
  show ?thesis
  proof (cases "?n = 0")
    case True
    then show ?thesis using eq by (simp add: write_commit_def)
  next
    case False
    then have ne: "?slots \<noteq> []" using n by auto
    have slot: "dead_slot ?t ?slot" using assms(7) by (rule LeastI)
    have slots: "plain_slots ?slots" "parent_cluster_number r \<notin> set ?slots"
      by (rule free_plain_slots [OF inv assms(2) set_take_subset]; simp add: distinct_free_clusters)+
    from write_commit_file [OF slots(1) ne fs_inv_fat(1) [OF inv] d(5) slots(2) d(7) assms(3) nz]
    obtain st' where w: "write_commit r ?t ?slot ?slots st = Inr (0, st')" and wr: "wrote r ?slot ?slots st st'"
      by blast
    have "chain (fat_table st') (hd ?slots) ?slots"
      by (rule wrote_chain [OF wr slots(1) ne fs_inv_fat(1) [OF inv]])
    moreover have "dir_at (storage st') (parent_cluster_number r) ! ?slot = new_entry r False (hd ?slots)"
      using wr nz slot unfolding wrote_def dead_slot_def by simp
    moreover have "length ?slots = ?n" using n by simp
    ultimately show ?thesis using w eq False by (simp only: if_False) blast
  qed
qed

definition half_mebibyte :: request where
  "half_mebibyte = demo_file\<lparr>buffer_size := 524288\<rparr>"

theorem oversized_write_truncates_witness:
  "fat32_write half_mebibyte demo_fs = Inl Uninitialised"
proof -
  have root: "root_request half_mebibyte"
    using demo_file_root by (simp add: root_request_def half_mebibyte_def request_key_def wf_request_def)
  have dead: "dead_slot (dir_at (storage demo_fs) ROOT_CLUSTER_NUMBER) 2"
    using root_table_dead by (simp add: demo_fs_def create_fat32_root)
  have "count_if (\<lambda>v. v = FAT32_FAT_EMPTY_ENTRY) (fat_table demo_fs) = 509"
    using length_free_clusters [of format_fat] length_free_format by (simp add: demo_fs_def create_fat32_fat)
  then show ?thesis
    using oversized_write_truncates [OF demo_consistent(1), of half_mebibyte 2] root dead
      fresh_no_match [OF root, of blank_fs]
    by (simp add: root_request_def demo_fs_def [symmetric] half_mebibyte_def MAX_FILE_def cluster_count_def)
qed

section \<open>Corrupt chains\<close>

text \<open>C25: On a corrupt device \<open>read\<close> does not return: when the chain of the entry enters a set of
  clusters that all link to one another, the loop has no bound and follows it for ever.\<close>

theorem read_of_cyclic_chain_hangs:
  assumes "unat (parent_cluster_number r) < length (fat_table st)"
    and "fat_table st ! unat (parent_cluster_number r) = FAT32_FAT_END_OF_FILE"
    and "find_entry (entry_matches r) 0 (dir_at (storage st) (parent_cluster_number r)) = Some (i, e)"
    and "attribute e \<noteq> ATTR_SUBDIRECTORY"
    and "unat (ceil (size_in_clusters (filesize e))) \<le> unat (buffer_size r) div CLUSTER_SIZE"
    and "closed_set (fat_table st) S" and "entry_cluster e \<in> S"
  shows "fat32_read r st = None"
proof -
  have "\<not> buffer_size r div of_nat CLUSTER_SIZE < ucast (ceil (size_in_clusters (filesize e)))"
    using assms(5) by (simp add: word_less_nat_alt unat_div)
  then show ?thesis
    using assms read_loop_closed [OF assms(6,7)] by (simp add: fat32_read_def)
qed

definition cyclic_fs :: fs where
  "cyclic_fs = demo_fs\<lparr>fat_table := format_fat[5 := 5],
     storage := wr (storage demo_fs) ROOT_CLUSTER_NUMBER (encode_table (root_table[2 := new_entry demo_file False 5]))\<rparr>"

theorem read_of_cyclic_chain_hangs_witness:
  "fat32_read demo_read cyclic_fs = None"
proof -
  let ?e = "new_entry demo_file False 5" and ?t = "root_table[2 := new_entry demo_file False 5]"
  have t: "dir_at (storage cyclic_fs) ROOT_CLUSTER_NUMBER = ?t"
    by (simp add: cyclic_fs_def clusters.get_put)
  have len: "length root_table = DIR_ENTRIES" by (simp add: root_table_def)
  have m: "entry_matches demo_read x \<longleftrightarrow> entry_key x = request_key demo_file" if "wf_dirent x" for x
  proof -
    have "entry_matches demo_read x \<longleftrightarrow> entry_key x = request_key demo_read"
      using that by (simp add: entry_matches_iff entry_key_def request_key_def)
    then show ?thesis by simp
  qed
  have root: "wf_dirent (root_table ! k)" if "k < DIR_ENTRIES" for k
    by (rule wf_table_nth [OF wf_root_table that])
  have "find_entry (entry_matches demo_read) 0 ?t = Some (2, ?e)"
    unfolding find_entry_0_Some_iff
    using m root root_table_nth demo_file_root len
    by (auto simp: root_request_def new_entry_def entry_key_def request_key_def wf_dirent_def wf_request_def)
  moreover have "closed_set (fat_table cyclic_fs) {5}" by (simp add: cyclic_fs_def closed_set_def)
  moreover have "unat (ceil (size_in_clusters 5000)) \<le> 3"
    by (simp add: unat_ceil_size)
  ultimately show ?thesis
    using t by (intro read_of_cyclic_chain_hangs [where i = 2 and e = ?e and S = "{5}"])
      (simp_all add: cyclic_fs_def format_fat_def new_entry_def entry_cluster_halves)
qed

section \<open>The name of the directory itself\<close>

lemma user_attribute_at:
  "i < DIR_ENTRIES \<Longrightarrow> length bs = CLUSTER_SIZE \<Longrightarrow> user_attribute (decode_table bs ! i) = bs ! (32 * i + 12)"
  by (simp add: decode_table_def decode_array_def decode_dirent_def)

lemma signature_no_mark: "UATTR_NOT_EMPTY \<notin> set fs_signature"
  by code_simp

lemma delete_loop_out: "length (fat_table st) \<le> unat c \<Longrightarrow> delete_loop c st = Some (Inl OutOfBounds)"
  by (subst delete_loop.simps) (simp add: fat_get_def)

lemma delete_loop_reserved: "fat_table st = format_fat \<Longrightarrow> delete_loop 0 st = Some (Inl OutOfBounds)"
  by (subst delete_loop.simps) (simp add: fat_get_def format_fat_def delete_loop_out)

text \<open>C26: Deleting the name \<open>root\<close> in the root directory finds the directory's own entry, whose
  cluster number is 0: the boot cluster passes for an empty folder, the walk starts at the
  reserved table entry 0, and its next step is an access past the end of the table.\<close>

theorem deleting_root_in_root_faults:
  assumes "wf_request r" and "parent_cluster_number r = ROOT_CLUSTER_NUMBER"
    and "request_key r = (root_name, replicate 3 0)"
    and "UATTR_NOT_EMPTY \<notin> set (drop BLOCK_SIZE (rd (storage st) 0))"
  shows "fat32_delete r (create_fat32 st) = Some (Inl OutOfBounds)"
proof -
  let ?st = "create_fat32 st"
  have e0: "root_table ! 0 = zero_dirent\<lparr>name := root_name, attribute := ATTR_SUBDIRECTORY, user_attribute := UATTR_NOT_EMPTY\<rparr>"
    by (simp add: root_table_def)
  have "find_entry (entry_matches r) 0 root_table = Some (0, root_table ! 0)"
    unfolding find_entry_0_Some_iff
    using assms(1,3) wf_table_nth [OF wf_root_table, of 0]
    by (auto simp: root_table_def entry_matches_iff request_key_def wf_dirent_def)
  moreover have "folder_empty (drop 2 (dir_at (storage ?st) 0))"
  proof -
    have "user_attribute (dir_at (storage ?st) 0 ! i) \<in> set (rd (storage ?st) 0)" if "i < DIR_ENTRIES" for i
      using that by (simp add: user_attribute_at)
    moreover have "UATTR_NOT_EMPTY \<notin> set (rd (storage ?st) 0)"
      using assms(4) signature_no_mark by (simp add: create_fat32_boot)
    ultimately have "user_attribute e \<noteq> UATTR_NOT_EMPTY" if "e \<in> set (dir_at (storage ?st) 0)" for e
      using that by (metis in_set_conv_nth length_dir_at)
    then show ?thesis by (auto simp: folder_empty_iff dest: in_set_dropD)
  qed
  moreover have "entry_cluster (root_table ! 0) = 0" by (simp add: e0 entry_cluster_def)
  ultimately show ?thesis
    using assms(2)
    by (simp add: fat32_delete_def create_fat32_fat create_fat32_root Let_def delete_loop_reserved)
      (simp add: fat_get_def format_fat_def)
qed

definition delete_root_request :: request where
  "delete_root_request = \<lparr>buf = 0, rname = root_name, rext = replicate 3 0,
     parent_cluster_number = ROOT_CLUSTER_NUMBER, buffer_size = 0\<rparr>"

theorem deleting_root_in_root_faults_witness:
  "fat32_delete delete_root_request demo_fs = Some (Inl OutOfBounds)"
proof -
  have "rd (storage blank_fs) 0 = replicate CLUSTER_SIZE 0"
    by (intro nth_equalityI) (simp_all add: blank_fs_def read_cluster_image cluster_valid_def image_read_def)
  then show ?thesis
    unfolding demo_fs_def
    by (intro deleting_root_in_root_faults)
      (simp_all add: delete_root_request_def wf_request_def request_key_def)
qed

end
