(* ===== verification/Port_IO.thy ===== *)
theory Port_IO
  imports Bytes
begin

text \<open>
  Port input and output (\<open>src/portio.c\<close>). The machine keeps the trace of all accesses,
  oldest first. The devices are not part of the repository: what a read returns is a parameter,
  a function of the trace so far and the port, so that any device is covered whose answers
  depend on what was sent to it and what was read from it.
\<close>

datatype io_event =
    Out8 u16 byte
  | In8 u16 byte
  | Out16 u16 u16
  | In16 u16 u16

type_synonym trace = "io_event list"

record device =
  answer8 :: "trace \<Rightarrow> u16 \<Rightarrow> byte"
  answer16 :: "trace \<Rightarrow> u16 \<Rightarrow> u16"

definition out_port :: "u16 \<Rightarrow> byte \<Rightarrow> trace \<Rightarrow> trace" where
  "out_port port data tr = tr @ [Out8 port data]"

definition in_port :: "device \<Rightarrow> u16 \<Rightarrow> trace \<Rightarrow> byte \<times> trace" where
  "in_port dev port tr = (let v = answer8 dev tr port in (v, tr @ [In8 port v]))"

definition out16 :: "u16 \<Rightarrow> u16 \<Rightarrow> trace \<Rightarrow> trace" where
  "out16 port data tr = tr @ [Out16 port data]"

definition in16 :: "device \<Rightarrow> u16 \<Rightarrow> trace \<Rightarrow> u16 \<times> trace" where
  "in16 dev port tr = (let v = answer16 dev tr port in (v, tr @ [In16 port v]))"

text \<open>The bytes sent to one port, in order.\<close>

fun sent_to :: "u16 \<Rightarrow> trace \<Rightarrow> byte list" where
  "sent_to p [] = []"
| "sent_to p (Out8 q b # es) = (if p = q then b # sent_to p es else sent_to p es)"
| "sent_to p (e # es) = sent_to p es"

lemma sent_to_append [simp]: "sent_to p (xs @ ys) = sent_to p xs @ sent_to p ys"
  by (induction p xs rule: sent_to.induct) simp_all

lemmas port_defs = out_port_def in_port_def out16_def in16_def

end
