(* ===== verification/Disk.thy ===== *)
theory Disk
  imports Block_Store Port_IO
begin

unbundle bit_operations_syntax

text \<open>
  The ATA driver (\<open>src/disk.c\<close>). A transfer waits, sends the six registers of a 28-bit
  command, and then moves the sectors word by word through the data port, waiting before each
  sector. The two wait loops end when the drive says so: \<open>None\<close> is a wait that never ends.

  The drive is a parameter, a device whose answers depend on the trace of accesses. What is known
  of it is the protocol of the ATA standard for PIO transfers, an automaton over single accesses:
  \<open>ata_state\<close> decodes the registers, starts a command when the command register is written, and
  opens the data port for one sector when the host has read a status without BSY and with DRQ. An
  access at any other time leaves the protocol (\<open>Violated\<close>) and nothing is known any more.
  \<open>ata_drive\<close> says that the device keeps the protocol and serves the medium in the end.

  The driver's second wait is for RDY where the protocol has DRQ. \<open>settled_status\<close> is what that
  needs of a drive beyond the protocol: during a command a status without BSY and with RDY has DRQ.
  Then the driver is the block store of \<open>Block_Store\<close>, so what is proved of the file system there
  holds here. Without it, it is not: a drive that keeps the protocol but is slow to show BSY is read
  too early (\<open>hasty\<close>). \<open>steady\<close> is a drive with delays on which all hypotheses hold.
\<close>

section \<open>The driver\<close>

abbreviation (input) ATA_STATUS_BSY :: byte where "ATA_STATUS_BSY \<equiv> 0x80"
abbreviation (input) ATA_STATUS_RDY :: byte where "ATA_STATUS_RDY \<equiv> 0x40"
abbreviation (input) ATA_STATUS_DRQ :: byte where "ATA_STATUS_DRQ \<equiv> 0x08"
abbreviation (input) HALF_BLOCK_SIZE :: nat where "HALF_BLOCK_SIZE \<equiv> 256"
abbreviation (input) STATUS :: u16 where "STATUS \<equiv> 0x1F7"
abbreviation (input) DATA :: u16 where "DATA \<equiv> 0x1F0"

partial_function (option) ATA_busy_wait :: "device \<Rightarrow> trace \<Rightarrow> trace option" where
  "ATA_busy_wait dev tr =
     (case in_port dev STATUS tr of (s, tr) \<Rightarrow>
        if s AND ATA_STATUS_BSY \<noteq> 0 then ATA_busy_wait dev tr else Some tr)"

partial_function (option) ATA_DRQ_wait :: "device \<Rightarrow> trace \<Rightarrow> trace option" where
  "ATA_DRQ_wait dev tr =
     (case in_port dev STATUS tr of (s, tr) \<Rightarrow>
        if s AND ATA_STATUS_RDY = 0 then ATA_DRQ_wait dev tr else Some tr)"

definition ata_command :: "u32 \<Rightarrow> u8 \<Rightarrow> byte \<Rightarrow> trace \<Rightarrow> trace" where
  "ata_command logical_block_address block_count command tr =
     (let tr = out_port 0x1F6 (0xE0 OR ucast (drop_bit 24 logical_block_address AND 0xF)) tr;
          tr = out_port 0x1F2 block_count tr;
          tr = out_port 0x1F3 (ucast logical_block_address) tr;
          tr = out_port 0x1F4 (ucast (drop_bit 8 logical_block_address)) tr;
          tr = out_port 0x1F5 (ucast (drop_bit 16 logical_block_address)) tr
      in out_port 0x1F7 command tr)"

fun read_words :: "device \<Rightarrow> nat \<Rightarrow> trace \<Rightarrow> u16 list \<times> trace" where
  "read_words dev 0 tr = ([], tr)"
| "read_words dev (Suc n) tr =
     (case in16 dev DATA tr of (w, tr) \<Rightarrow> case read_words dev n tr of (ws, tr) \<Rightarrow> (w # ws, tr))"

fun read_sectors :: "device \<Rightarrow> nat \<Rightarrow> trace \<Rightarrow> (u16 list \<times> trace) option" where
  "read_sectors dev 0 tr = Some ([], tr)"
| "read_sectors dev (Suc n) tr =
     Option.bind (ATA_busy_wait dev tr) (\<lambda>tr.
     Option.bind (ATA_DRQ_wait dev tr) (\<lambda>tr.
       case read_words dev HALF_BLOCK_SIZE tr of (ws, tr) \<Rightarrow>
         map_option (\<lambda>(rest, tr). (ws @ rest, tr)) (read_sectors dev n tr)))"

definition ata_read_blocks :: "device \<Rightarrow> u32 \<Rightarrow> u8 \<Rightarrow> trace \<Rightarrow> (byte list \<times> trace) option" where
  "ata_read_blocks dev logical_block_address block_count tr =
     Option.bind (ATA_busy_wait dev tr) (\<lambda>tr.
       map_option (\<lambda>(ws, tr). (encode_array enc16 ws, tr))
         (read_sectors dev (unat block_count) (ata_command logical_block_address block_count 0x20 tr)))"

fun write_words :: "u16 list \<Rightarrow> trace \<Rightarrow> trace" where
  "write_words [] tr = tr"
| "write_words (w # ws) tr = write_words ws (out16 DATA w tr)"

fun write_sectors :: "device \<Rightarrow> nat \<Rightarrow> nat \<Rightarrow> u16 list \<Rightarrow> trace \<Rightarrow> trace option" where
  "write_sectors dev i 0 ws tr = Some tr"
| "write_sectors dev i (Suc n) ws tr =
     Option.bind (ATA_busy_wait dev tr) (\<lambda>tr.
     Option.bind (ATA_DRQ_wait dev tr) (\<lambda>tr.
       write_sectors dev (Suc i) n ws (write_words (chunk (HALF_BLOCK_SIZE * i) HALF_BLOCK_SIZE ws) tr)))"

definition ata_write_blocks :: "device \<Rightarrow> byte list \<Rightarrow> u32 \<Rightarrow> u8 \<Rightarrow> trace \<Rightarrow> trace option" where
  "ata_write_blocks dev src logical_block_address block_count tr =
     Option.bind (ATA_busy_wait dev tr) (\<lambda>tr.
       write_sectors dev 0 (unat block_count)
         (decode_array dec16 2 (HALF_BLOCK_SIZE * unat block_count) src)
         (ata_command logical_block_address block_count 0x30 tr))"

section \<open>The protocol\<close>

datatype direction = Reading | Writing

text \<open>
  \<open>Finishing\<close>: no command runs, and the drive may still be busy with the last one; \<open>Ready\<close>: it takes
  a command; \<open>Busy\<close>: it runs a command and no status without BSY was read; \<open>Settling\<close>: one was read,
  but without DRQ; \<open>Transfer d n\<close>: the data port is open for the last \<open>n\<close> words of a sector.
\<close>

datatype phase = Finishing | Ready | Busy direction | Settling direction | Transfer direction nat | Violated

record ata =
  sector_count :: byte
  lba_low :: byte
  lba_mid :: byte
  lba_high :: byte
  drive_head :: byte
  pending :: nat
  position :: nat
  phase :: phase
  medium :: image

text \<open>The address that the four registers hold.\<close>

definition register_lba :: "byte \<Rightarrow> byte \<Rightarrow> byte \<Rightarrow> byte \<Rightarrow> nat" where
  "register_lba low mid high dh = unat low + 2 ^ 8 * unat mid + 2 ^ 16 * unat high + 2 ^ 24 * unat (dh AND 0xF)"

text \<open>
  READ SECTORS is 0x20, WRITE SECTORS 0x30. The head register selects drive 0 with linear addresses
  by its bits 4 and 6. A count of zero stands for 256 sectors.
\<close>

definition accept_command :: "byte \<Rightarrow> ata \<Rightarrow> ata" where
  "accept_command b s =
     (if drive_head s AND 0x50 = 0x40 \<and> (b = 0x20 \<or> b = 0x30)
      then s\<lparr>pending := if sector_count s = 0 then 256 else unat (sector_count s),
             position := 512 * register_lba (lba_low s) (lba_mid s) (lba_high s) (drive_head s),
             phase := Busy (if b = 0x20 then Reading else Writing)\<rparr>
      else s\<lparr>phase := Violated\<rparr>)"

definition write_register :: "u16 \<Rightarrow> byte \<Rightarrow> ata \<Rightarrow> ata" where
  "write_register p b s =
     (if p = 0x1F2 then s\<lparr>sector_count := b\<rparr>
      else if p = 0x1F3 then s\<lparr>lba_low := b\<rparr>
      else if p = 0x1F4 then s\<lparr>lba_mid := b\<rparr>
      else if p = 0x1F5 then s\<lparr>lba_high := b\<rparr>
      else if p = 0x1F6 then s\<lparr>drive_head := b\<rparr>
      else accept_command b s)"

definition status_seen :: "byte \<Rightarrow> phase \<Rightarrow> phase" where
  "status_seen b ph =
     (let port = (\<lambda>d. if b AND ATA_STATUS_DRQ \<noteq> 0 then Transfer d 256 else Settling d)
      in if b AND ATA_STATUS_BSY \<noteq> 0 then ph
         else case ph of Finishing \<Rightarrow> Ready | Busy d \<Rightarrow> port d | Settling d \<Rightarrow> port d | _ \<Rightarrow> ph)"

text \<open>One word has passed the data port; after the last of a sector the drive is busy again.\<close>

definition advance :: "ata \<Rightarrow> ata" where
  "advance s = (case phase s of
       Transfer d n \<Rightarrow>
         if 1 < n then s\<lparr>position := position s + 2, phase := Transfer d (n - 1)\<rparr>
         else s\<lparr>position := position s + 2, pending := pending s - 1,
                phase := if 1 < pending s then Busy d else Finishing\<rparr>
     | _ \<Rightarrow> s\<lparr>phase := Violated\<rparr>)"

fun ata_event :: "io_event \<Rightarrow> ata \<Rightarrow> ata" where
  "ata_event (Out8 p b) s =
     (if 0x1F2 \<le> p \<and> p \<le> 0x1F7 then if phase s = Ready then write_register p b s else s\<lparr>phase := Violated\<rparr> else s)"
| "ata_event (In8 p b) s = (if p = STATUS then s\<lparr>phase := status_seen b (phase s)\<rparr> else s)"
| "ata_event (In16 p w) s =
     (if p = DATA then case phase s of Transfer Reading n \<Rightarrow> advance s | _ \<Rightarrow> s\<lparr>phase := Violated\<rparr> else s)"
| "ata_event (Out16 p w) s =
     (if p = DATA then case phase s of
          Transfer Writing n \<Rightarrow> advance (s\<lparr>medium := image_write (medium s) (position s) (enc16 w)\<rparr>)
        | _ \<Rightarrow> s\<lparr>phase := Violated\<rparr>
      else s)"

definition ata_state :: "image \<Rightarrow> trace \<Rightarrow> ata" where
  "ata_state img tr = fold ata_event tr
     \<lparr>sector_count = 0, lba_low = 0, lba_mid = 0, lba_high = 0, drive_head = 0, pending = 0, position = 0,
      phase = Finishing, medium = img\<rparr>"

lemma ata_state_append: "ata_state img (tr @ es) = fold ata_event es (ata_state img tr)"
  by (simp add: ata_state_def)

lemma ata_state_snoc: "ata_state img (tr @ [e]) = ata_event e (ata_state img tr)"
  by (simp add: ata_state_append)

section \<open>What the driver relies on\<close>

definition image_word :: "image \<Rightarrow> nat \<Rightarrow> u16" where
  "image_word img off = dec16 (image_read img off 2)"

fun poll :: "device \<Rightarrow> nat \<Rightarrow> trace \<Rightarrow> trace" where
  "poll dev 0 tr = tr"
| "poll dev (Suc n) tr = poll dev n (tr @ [In8 STATUS (answer8 dev tr STATUS)])"

definition running :: "phase \<Rightarrow> bool" where
  "running ph \<longleftrightarrow> (\<exists>d. ph = Busy d \<or> ph = Settling d)"

text \<open>A status that ends the waits: not busy, ready, and in a command with data.\<close>

definition serves :: "phase \<Rightarrow> byte \<Rightarrow> bool" where
  "serves ph b \<longleftrightarrow> b AND ATA_STATUS_BSY = 0 \<and> b AND ATA_STATUS_RDY \<noteq> 0 \<and> (running ph \<longrightarrow> b AND ATA_STATUS_DRQ \<noteq> 0)"

definition ata_drive :: "image \<Rightarrow> device \<Rightarrow> bool" where
  "ata_drive img dev \<longleftrightarrow>
     (\<forall>tr. phase (ata_state img tr) \<noteq> Violated \<longrightarrow>
        (\<exists>n. serves (phase (ata_state img tr)) (answer8 dev (poll dev n tr) STATUS)))
     \<and> (\<forall>tr d n. phase (ata_state img tr) = Transfer d n \<longrightarrow>
        answer8 dev tr STATUS AND ATA_STATUS_BSY = 0 \<and> answer8 dev tr STATUS AND ATA_STATUS_DRQ \<noteq> 0)
     \<and> (\<forall>tr n. phase (ata_state img tr) = Transfer Reading n \<longrightarrow>
        answer16 dev tr DATA = image_word (medium (ata_state img tr)) (position (ata_state img tr)))"

definition settled_status :: "image \<Rightarrow> device \<Rightarrow> bool" where
  "settled_status img dev \<longleftrightarrow>
     (\<forall>tr d. (phase (ata_state img tr) = Busy d \<longrightarrow> answer8 dev tr STATUS AND ATA_STATUS_BSY = 0 \<longrightarrow>
          answer8 dev tr STATUS AND ATA_STATUS_RDY \<noteq> 0 \<longrightarrow> answer8 dev tr STATUS AND ATA_STATUS_DRQ \<noteq> 0)
        \<and> (phase (ata_state img tr) = Settling d \<longrightarrow> answer8 dev tr STATUS AND ATA_STATUS_BSY = 0
          \<and> (answer8 dev tr STATUS AND ATA_STATUS_RDY \<noteq> 0 \<longrightarrow> answer8 dev tr STATUS AND ATA_STATUS_DRQ \<noteq> 0)))"

lemma ata_driveD:
  assumes "ata_drive img dev"
  shows drive_serves: "phase (ata_state img tr) \<noteq> Violated \<Longrightarrow>
          \<exists>n. serves (phase (ata_state img tr)) (answer8 dev (poll dev n tr) STATUS)"
    and drive_transfers: "phase (ata_state img tr) = Transfer d n \<Longrightarrow>
          answer8 dev tr STATUS AND ATA_STATUS_BSY = 0 \<and> answer8 dev tr STATUS AND ATA_STATUS_DRQ \<noteq> 0"
    and drive_reads: "phase (ata_state img tr) = Transfer Reading n \<Longrightarrow>
          answer16 dev tr DATA = image_word (medium (ata_state img tr)) (position (ata_state img tr))"
  using assms unfolding ata_drive_def by blast+

lemma settled_statusD:
  assumes "settled_status img dev"
  shows settled_busy: "phase (ata_state img tr) = Busy d \<Longrightarrow> answer8 dev tr STATUS AND ATA_STATUS_BSY = 0 \<Longrightarrow>
          answer8 dev tr STATUS AND ATA_STATUS_RDY \<noteq> 0 \<Longrightarrow> answer8 dev tr STATUS AND ATA_STATUS_DRQ \<noteq> 0"
    and settled_ready: "phase (ata_state img tr) = Settling d \<Longrightarrow> answer8 dev tr STATUS AND ATA_STATUS_BSY = 0"
      "phase (ata_state img tr) = Settling d \<Longrightarrow>
        answer8 dev tr STATUS AND ATA_STATUS_RDY \<noteq> 0 \<Longrightarrow> answer8 dev tr STATUS AND ATA_STATUS_DRQ \<noteq> 0"
  using assms unfolding settled_status_def by blast+

section \<open>The waits end\<close>

text \<open>The first wait ends with a status without BSY, read in the phase where the wait began.\<close>

lemma busy_wait_ends:
  assumes "answer8 dev (poll dev n tr) STATUS AND ATA_STATUS_BSY = 0"
  shows "\<exists>tr0. ATA_busy_wait dev tr = Some (tr0 @ [In8 STATUS (answer8 dev tr0 STATUS)])
    \<and> answer8 dev tr0 STATUS AND ATA_STATUS_BSY = 0 \<and> ata_state img tr0 = ata_state img tr"
  using assms
proof (induction n arbitrary: tr)
  case 0
  then show ?case by (subst ATA_busy_wait.simps) (auto simp: in_port_def Let_def)
next
  case (Suc n)
  let ?s = "answer8 dev tr STATUS"
  show ?case
  proof (cases "?s AND ATA_STATUS_BSY = 0")
    case True
    then show ?thesis by (subst ATA_busy_wait.simps) (auto simp: in_port_def Let_def)
  next
    case False
    then have "ata_state img (tr @ [In8 STATUS ?s]) = ata_state img tr"
      by (simp add: ata_state_snoc status_seen_def)
    with False Suc.IH [of "tr @ [In8 STATUS ?s]"] Suc.prems show ?thesis
      by (subst ATA_busy_wait.simps) (simp add: in_port_def Let_def)
  qed
qed

text \<open>The second one ends with the data port open.\<close>

lemma drq_wait_ends:
  assumes drive: "ata_drive img dev" "settled_status img dev"
    and "answer8 dev (poll dev n tr) STATUS AND ATA_STATUS_RDY \<noteq> 0"
    and "phase (ata_state img tr) = Settling d \<or> phase (ata_state img tr) = Transfer d 256"
  shows "\<exists>tr'. ATA_DRQ_wait dev tr = Some tr' \<and> ata_state img tr' = (ata_state img tr)\<lparr>phase := Transfer d 256\<rparr>"
  using assms(3,4)
proof (induction n arbitrary: tr)
  case 0
  let ?s = "answer8 dev tr STATUS"
  have "status_seen ?s (phase (ata_state img tr)) = Transfer d 256"
    using 0 drive_transfers [OF drive(1), of tr d 256] settled_ready [OF drive(2), of tr d]
    by (auto simp: status_seen_def Let_def)
  with 0 show ?case
    by (subst ATA_DRQ_wait.simps) (simp add: in_port_def Let_def ata_state_snoc)
next
  case (Suc n)
  let ?s = "answer8 dev tr STATUS"
  let ?ph = "status_seen ?s (phase (ata_state img tr))"
  have ph: "?ph = Settling d \<or> ?ph = Transfer d 256"
    using Suc.prems(2) drive_transfers [OF drive(1), of tr d 256] settled_ready(1) [OF drive(2), of tr d]
    by (auto simp: status_seen_def Let_def split: if_splits)
  show ?case
  proof (cases "?s AND ATA_STATUS_RDY = 0")
    case True
    with Suc.IH [of "tr @ [In8 STATUS ?s]"] Suc.prems ph show ?thesis
      by (subst ATA_DRQ_wait.simps) (auto simp: in_port_def Let_def ata_state_snoc)
  next
    case False
    then have "?ph = Transfer d 256"
      using Suc.prems(2) drive_transfers [OF drive(1), of tr d 256] settled_ready [OF drive(2), of tr d]
      by (auto simp: status_seen_def Let_def)
    with False show ?thesis
      by (subst ATA_DRQ_wait.simps) (simp add: in_port_def Let_def ata_state_snoc)
  qed
qed

text \<open>The two waits before a sector, as one.\<close>

lemma waits_end:
  assumes drive: "ata_drive img dev" "settled_status img dev" and busy: "phase (ata_state img tr) = Busy d"
  obtains tr' where "Option.bind (ATA_busy_wait dev tr) (\<lambda>tr. Option.bind (ATA_DRQ_wait dev tr) f) = f tr'"
    "ata_state img tr' = (ata_state img tr)\<lparr>phase := Transfer d 256\<rparr>"
proof -
  obtain n where "answer8 dev (poll dev n tr) STATUS AND ATA_STATUS_BSY = 0"
    using drive_serves [OF drive(1), of tr] busy by (auto simp: serves_def)
  from busy_wait_ends [OF this, of img] obtain tr0 where
    tr0: "ATA_busy_wait dev tr = Some (tr0 @ [In8 STATUS (answer8 dev tr0 STATUS)])"
    "answer8 dev tr0 STATUS AND ATA_STATUS_BSY = 0" "ata_state img tr0 = ata_state img tr" by blast
  define tr1 where "tr1 = tr0 @ [In8 STATUS (answer8 dev tr0 STATUS)]"
  have s1: "ata_state img tr1 = (ata_state img tr)\<lparr>phase := status_seen (answer8 dev tr0 STATUS) (Busy d)\<rparr>"
    by (simp add: tr1_def ata_state_snoc tr0(3) busy)
  have ph: "phase (ata_state img tr1) = Settling d \<or> phase (ata_state img tr1) = Transfer d 256"
    using tr0(2) by (simp add: s1 status_seen_def Let_def)
  obtain m where "answer8 dev (poll dev m tr1) STATUS AND ATA_STATUS_RDY \<noteq> 0"
    using drive_serves [OF drive(1), of tr1] ph by (auto simp: serves_def)
  from drq_wait_ends [OF drive this ph] obtain tr' where
    "ATA_DRQ_wait dev tr1 = Some tr'" "ata_state img tr' = (ata_state img tr)\<lparr>phase := Transfer d 256\<rparr>"
    by (auto simp: s1)
  then show thesis by (intro that) (simp_all add: tr0(1) tr1_def [symmetric])
qed

section \<open>One command\<close>

lemma ucast_byte: "unat (ucast (w :: u32) :: byte) = unat w mod 2 ^ 8"
  by (simp add: unsigned_ucast_eq take_bit_eq_mod)

lemma unat_shift: "unat (drop_bit n (w :: u32)) = unat w div 2 ^ n"
  by (simp add: unat_drop_bit_eq drop_bit_eq_div del: drop_bit_eq_div) (simp add: drop_bit_eq_div)

lemma four_parts:
  fixes n :: nat
  assumes "n < 2 ^ 28"
  shows "n mod 2 ^ 8 + 2 ^ 8 * (n div 2 ^ 8 mod 2 ^ 8) + 2 ^ 16 * (n div 2 ^ 16 mod 2 ^ 8)
    + 2 ^ 24 * (n div 2 ^ 24 mod 2 ^ 4) = n"
proof -
  define q1 q2 q3 where q: "q1 = n div 2 ^ 8" "q2 = n div 2 ^ 16" "q3 = n div 2 ^ 24"
  define r0 r1 r2 where r: "r0 = n mod 2 ^ 8" "r1 = q1 mod 2 ^ 8" "r2 = q2 mod 2 ^ 8"
  have d: "q2 = q1 div 2 ^ 8" "q3 = q2 div 2 ^ 8" unfolding q by (simp_all flip: div_mult2_eq)
  have "r0 + 2 ^ 8 * q1 = n" "r1 + 2 ^ 8 * q2 = q1" "r2 + 2 ^ 8 * q3 = q2"
    unfolding r by (subst d q(1), rule mod_mult_div_eq)+
  moreover have "q3 < 2 ^ 4" using assms by (simp add: q div_less_iff_less_mult)
  then have "q3 mod 2 ^ 4 = q3" by (rule mod_less)
  ultimately have "r0 + 2 ^ 8 * r1 + 2 ^ 16 * r2 + 2 ^ 24 * (q3 mod 2 ^ 4) = n" by simp
  then show ?thesis unfolding r q .
qed

lemma head_nibble: "(0xE0 OR b) AND 0xF = b AND (0xF :: byte)"
  by (simp add: bit.conj_disj_distrib2)

lemma register_lba_command:
  fixes lba :: u32
  assumes "unat lba < 2 ^ 28"
  shows "register_lba (ucast lba) (ucast (drop_bit 8 lba)) (ucast (drop_bit 16 lba))
    (0xE0 OR ucast (drop_bit 24 lba AND 0xF)) = unat lba"
proof -
  have "unat (ucast (drop_bit 24 lba AND 0xF) AND (0xF :: byte)) = unat lba div 2 ^ 24 mod 2 ^ 4"
  proof -
    have m: "x AND 0xF = take_bit 4 x" "y AND 0xF = take_bit 4 y" for x :: byte and y :: u32
      by (simp_all add: take_bit_eq_mask mask_eq_exp_minus_1)
    have t: "unat (take_bit 4 x) = unat x mod 2 ^ 4" "unat (take_bit 4 y) = unat y mod 2 ^ 4"
      for x :: byte and y :: u32
      unfolding unsigned_take_bit_eq by (simp_all add: take_bit_eq_mod)
    show ?thesis unfolding m t ucast_byte unat_shift by simp
  qed
  then show ?thesis
    unfolding register_lba_def head_nibble ucast_byte unat_shift by (simp only: four_parts [OF assms])
qed


text \<open>Between two calls no command runs; the wait at the start of a call makes the drive take one.\<close>

definition at_rest :: "image \<Rightarrow> trace \<Rightarrow> bool" where
  "at_rest img tr \<longleftrightarrow> phase (ata_state img tr) = Finishing \<or> phase (ata_state img tr) = Ready"

lemma first_wait:
  assumes drive: "ata_drive img dev" and rest: "at_rest img tr"
  obtains tr' where "ATA_busy_wait dev tr = Some tr'" "ata_state img tr' = (ata_state img tr)\<lparr>phase := Ready\<rparr>"
proof -
  obtain n where "answer8 dev (poll dev n tr) STATUS AND ATA_STATUS_BSY = 0"
    using drive_serves [OF drive, of tr] rest by (auto simp: serves_def at_rest_def)
  from busy_wait_ends [OF this, of img] obtain tr0 where
    tr0: "ATA_busy_wait dev tr = Some (tr0 @ [In8 STATUS (answer8 dev tr0 STATUS)])"
    "answer8 dev tr0 STATUS AND ATA_STATUS_BSY = 0" "ata_state img tr0 = ata_state img tr" by blast
  then show thesis using rest
    by (intro that [OF tr0(1)]) (auto simp: ata_state_snoc at_rest_def status_seen_def Let_def)
qed

lemma head_selects: "(0xE0 OR ucast (x AND 0xF :: u32)) AND (0x50 :: byte) = 0x40"
proof -
  have "(ucast (x AND 0xF) :: byte) AND 0x50 = ucast x AND (0xF AND 0x50)"
    by (simp add: unsigned_and_eq and.assoc)
  moreover have "(0xF AND 0x50 :: byte) = 0" "(0xE0 AND 0x50 :: byte) = 0x40" by code_simp+
  ultimately show ?thesis by (simp add: bit.conj_disj_distrib2)
qed

lemma command_starts:
  fixes lba :: u32
  assumes "phase (ata_state img tr) = Ready" and "unat lba < 2 ^ 28" and "count \<noteq> 0" and "cmd = 0x20 \<or> cmd = 0x30"
  defines "s \<equiv> ata_state img (ata_command lba count cmd tr)"
  shows "phase s = Busy (if cmd = 0x20 then Reading else Writing)" and "pending s = unat count"
    and "position s = BLOCK_SIZE * unat lba" and "medium s = medium (ata_state img tr)"
  using assms(1,3,4) register_lba_command [OF assms(2)] head_selects [of "drop_bit 24 lba"]
  by (auto simp: s_def ata_command_def out_port_def Let_def ata_state_append write_register_def accept_command_def)

section \<open>Moving one sector\<close>

lemma advance_more:
  "phase s = Transfer d (Suc (Suc n)) \<Longrightarrow> advance s = s\<lparr>position := position s + 2, phase := Transfer d (Suc n)\<rparr>"
  by (simp add: advance_def)

lemma advance_pow:
  "phase s = Transfer d (n + Suc k) \<Longrightarrow>
   (advance ^^ n) s = s\<lparr>position := position s + 2 * n, phase := Transfer d (Suc k)\<rparr>"
proof (induction n arbitrary: s)
  case (Suc n)
  have a: "advance s = s\<lparr>position := position s + 2, phase := Transfer d (n + Suc k)\<rparr>"
    using Suc.prems advance_more [of s d "n + k"] by simp
  then have "(advance ^^ Suc n) s = (advance ^^ n) (s\<lparr>position := position s + 2, phase := Transfer d (n + Suc k)\<rparr>)"
    by (simp only: funpow_Suc_right o_apply)
  then show ?case using Suc.IH [of "s\<lparr>position := position s + 2, phase := Transfer d (n + Suc k)\<rparr>"] by simp
qed simp

lemma advance_sector:
  assumes "phase s = Transfer d 256"
  shows "(advance ^^ 256) s = s\<lparr>position := position s + 512, pending := pending s - 1,
    phase := if 1 < pending s then Busy d else Finishing\<rparr>"
proof -
  have "(advance ^^ 255) s = s\<lparr>position := position s + 510, phase := Transfer d 1\<rparr>"
    using assms advance_pow [of s d 255 0] by simp
  moreover have "(advance ^^ 256) s = advance ((advance ^^ 255) s)"
    using funpow.simps(2) [of 255 advance] by simp
  ultimately show ?thesis by (simp add: advance_def)
qed

text \<open>The drive before the sectors that are left: busy with a command, or done.\<close>

definition sectors_ahead :: "direction \<Rightarrow> nat \<Rightarrow> ata \<Rightarrow> bool" where
  "sectors_ahead d n s \<longleftrightarrow> pending s = n \<and> phase s = (if n = 0 then Finishing else Busy d)"

lemma sector_moved:
  "phase s = Transfer d 256 \<Longrightarrow> pending s = Suc n \<Longrightarrow> sectors_ahead d n ((advance ^^ 256) s)"
  "phase s = Transfer d 256 \<Longrightarrow> position ((advance ^^ 256) s) = position s + 512 \<and> medium ((advance ^^ 256) s) = medium s"
  by (simp_all add: advance_sector sectors_ahead_def)

section \<open>Reading\<close>

lemma read_words_drive:
  assumes drive: "ata_drive img dev"
  shows "phase (ata_state img tr) = Transfer Reading m \<Longrightarrow> n \<le> m \<Longrightarrow>
    \<exists>tr'. read_words dev n tr
        = (map (\<lambda>i. image_word (medium (ata_state img tr)) (position (ata_state img tr) + 2 * i)) [0..<n], tr')
      \<and> ata_state img tr' = (advance ^^ n) (ata_state img tr)"
proof (induction n arbitrary: tr m)
  case (Suc n)
  let ?s = "ata_state img tr" and ?w = "answer16 dev tr DATA"
  let ?tr = "tr @ [In16 DATA ?w]"
  have w: "?w = image_word (medium ?s) (position ?s)" by (rule drive_reads [OF drive Suc.prems(1)])
  have s: "ata_state img ?tr = advance ?s" using Suc.prems(1) by (simp add: ata_state_snoc)
  have words: "[0..<Suc n] = 0 # map Suc [0..<n]" by (simp add: upt_conv_Cons map_Suc_upt del: upt_Suc)
  show ?case
  proof (cases n)
    case 0
    then show ?thesis using w s by (simp add: in16_def Let_def)
  next
    case (Suc k)
    then obtain j where j: "m = Suc (Suc j)" using Suc.prems(2) by (cases m; cases "m - 1") auto
    then have a: "advance ?s = ?s\<lparr>position := position ?s + 2, phase := Transfer Reading (Suc j)\<rparr>"
      using Suc.prems(1) by (intro advance_more) simp
    have "\<exists>tr'. read_words dev n ?tr
        = (map (\<lambda>i. image_word (medium ?s) (position ?s + 2 + 2 * i)) [0..<n], tr') \<and> ata_state img tr' = (advance ^^ n) (advance ?s)"
      using Suc.IH [of ?tr "Suc j"] Suc.prems(2) j by (simp add: s a)
    then show ?thesis
      using w by (auto simp: in16_def Let_def words funpow_swap1 simp del: upt_Suc)
  qed
qed simp

interpretation word16: fixed_codec enc16 dec16 2 "\<lambda>_. True"
  by unfold_locales simp_all

lemma chunk_image_read: "i + n \<le> m \<Longrightarrow> chunk i n (image_read img off m) = image_read img (off + i) n"
  by (rule nth_equalityI) (simp_all add: add.assoc)

lemma encode_image_words:
  "encode_array enc16 (map (\<lambda>i. image_word img (off + 2 * i)) [0..<n]) = image_read img off (2 * n)"
proof -
  have "map (\<lambda>i. image_word img (off + 2 * i)) [0..<n] = decode_array dec16 2 n (image_read img off (2 * n))"
    by (simp add: decode_array_def image_word_def chunk_image_read)
  then show ?thesis using word16.encode_decode [of "image_read img off (2 * n)" n] by simp
qed


lemma read_sectors_drive:
  assumes drive: "ata_drive img dev" "settled_status img dev"
  shows "sectors_ahead Reading n (ata_state img tr) \<Longrightarrow>
    \<exists>tr'. read_sectors dev n tr
        = Some (map (\<lambda>i. image_word (medium (ata_state img tr)) (position (ata_state img tr) + 2 * i)) [0..<HALF_BLOCK_SIZE * n], tr')
      \<and> medium (ata_state img tr') = medium (ata_state img tr) \<and> phase (ata_state img tr') = Finishing"
proof (induction n arbitrary: tr)
  case 0
  then show ?case by (simp add: sectors_ahead_def)
next
  case (Suc n)
  let ?s = "ata_state img tr"
  let ?word = "\<lambda>i. image_word (medium ?s) (position ?s + 2 * i)"
  have busy: "phase ?s = Busy Reading" "pending ?s = Suc n" using Suc.prems by (simp_all add: sectors_ahead_def)
  let ?sector = "\<lambda>tr. case read_words dev HALF_BLOCK_SIZE tr of (ws, tr) \<Rightarrow>
          map_option (\<lambda>(rest, tr). (ws @ rest, tr)) (read_sectors dev n tr)"
  obtain tr1 where waits: "Option.bind (ATA_busy_wait dev tr) (\<lambda>tr. Option.bind (ATA_DRQ_wait dev tr) ?sector) = ?sector tr1"
    and s1: "ata_state img tr1 = ?s\<lparr>phase := Transfer Reading 256\<rparr>"
    by (rule waits_end [OF drive busy(1), of ?sector])
  have first: "read_sectors dev (Suc n) tr = ?sector tr1" using waits by (simp only: read_sectors.simps)
  from read_words_drive [OF drive(1), of tr1 256 256] s1 obtain tr2 where
    tr2: "read_words dev HALF_BLOCK_SIZE tr1 = (map ?word [0..<HALF_BLOCK_SIZE], tr2)"
    "ata_state img tr2 = (advance ^^ 256) (?s\<lparr>phase := Transfer Reading 256\<rparr>)" by auto
  have s2: "sectors_ahead Reading n (ata_state img tr2)" "position (ata_state img tr2) = position ?s + 512"
    "medium (ata_state img tr2) = medium ?s"
    using sector_moved [of "?s\<lparr>phase := Transfer Reading 256\<rparr>" Reading] busy(2) by (simp_all add: tr2(2))
  from Suc.IH [OF s2(1)] obtain tr3 where
    tr3: "read_sectors dev n tr2 = Some (map (\<lambda>i. ?word (HALF_BLOCK_SIZE + i)) [0..<HALF_BLOCK_SIZE * n], tr3)"
    "medium (ata_state img tr3) = medium ?s" "phase (ata_state img tr3) = Finishing"
    by (auto simp: s2 algebra_simps)
  have "[0..<HALF_BLOCK_SIZE * Suc n] = [0..<HALF_BLOCK_SIZE] @ map (\<lambda>i. HALF_BLOCK_SIZE + i) [0..<HALF_BLOCK_SIZE * n]"
    using upt_add_eq_append [of 0 HALF_BLOCK_SIZE "HALF_BLOCK_SIZE * n"] map_add_upt [of HALF_BLOCK_SIZE "HALF_BLOCK_SIZE * n"]
    by (simp add: add.commute)
  then have "map ?word [0..<HALF_BLOCK_SIZE * Suc n]
      = map ?word [0..<HALF_BLOCK_SIZE] @ map (\<lambda>i. ?word (HALF_BLOCK_SIZE + i)) [0..<HALF_BLOCK_SIZE * n]"
    by (simp only: map_append map_map o_def)
  then have "read_sectors dev (Suc n) tr = Some (map ?word [0..<HALF_BLOCK_SIZE * Suc n], tr3)"
    unfolding first tr2(1) prod.case tr3(1) option.map by simp
  with tr3(2,3) show ?case by blast
qed

lemma blocks_fit_lba: "blocks_fit lba n \<Longrightarrow> unat lba < 2 ^ 28"
  by (simp add: blocks_fit_def)

lemma ata_read_refines:
  assumes drive: "ata_drive img dev" "settled_status img dev" and rest: "at_rest img tr"
    and fit: "blocks_fit lba (unat count)" and count: "count \<noteq> 0"
  shows "\<exists>tr'. ata_read_blocks dev lba count tr = Some (read_blocks (medium (ata_state img tr)) lba count, tr')
    \<and> medium (ata_state img tr') = medium (ata_state img tr) \<and> at_rest img tr'"
proof -
  let ?s = "ata_state img tr"
  obtain tr1 where tr1: "ATA_busy_wait dev tr = Some tr1" "ata_state img tr1 = ?s\<lparr>phase := Ready\<rparr>"
    by (rule first_wait [OF drive(1) rest])
  let ?tr2 = "ata_command lba count 0x20 tr1"
  have "phase (ata_state img tr1) = Ready" by (simp add: tr1(2))
  note s2 = command_starts [OF this blocks_fit_lba [OF fit] count, of "0x20", simplified]
  have "sectors_ahead Reading (unat count) (ata_state img ?tr2)"
    using s2(1,2) count by (simp add: sectors_ahead_def unat_eq_zero)
  from read_sectors_drive [OF drive this] obtain tr3 where
    tr3: "read_sectors dev (unat count) ?tr2
      = Some (map (\<lambda>i. image_word (medium ?s) (BLOCK_SIZE * unat lba + 2 * i)) [0..<HALF_BLOCK_SIZE * unat count], tr3)"
    "medium (ata_state img tr3) = medium ?s" "phase (ata_state img tr3) = Finishing"
    by (auto simp: s2 tr1(2))
  have "2 * (HALF_BLOCK_SIZE * unat count) = BLOCK_SIZE * unat count" by simp
  then have "encode_array enc16 (map (\<lambda>i. image_word (medium ?s) (BLOCK_SIZE * unat lba + 2 * i))
      [0..<HALF_BLOCK_SIZE * unat count]) = read_blocks (medium ?s) lba count"
    by (simp only: encode_image_words read_blocks_fit [OF fit])
  then have "ata_read_blocks dev lba count tr = Some (read_blocks (medium ?s) lba count, tr3)"
    unfolding ata_read_blocks_def tr1(1) bind.bind_lunit tr3(1) by (simp only: option.map prod.case)
  with tr3(2,3) show ?thesis by (auto simp: at_rest_def)
qed

section \<open>Writing\<close>

lemma write_words_eq: "write_words ws tr = tr @ map (Out16 DATA) ws"
  by (induction ws arbitrary: tr) (simp_all add: out16_def)

lemma advance_medium: "advance (s\<lparr>medium := img\<rparr>) = (advance s)\<lparr>medium := img\<rparr>"
  by (simp add: advance_def split: phase.split)

lemma write_words_drive:
  "phase s = Transfer Writing m \<Longrightarrow> length ws \<le> m \<Longrightarrow>
   fold ata_event (map (Out16 DATA) ws) s
     = (advance ^^ length ws) (s\<lparr>medium := image_write (medium s) (position s) (encode_array enc16 ws)\<rparr>)"
proof (induction ws arbitrary: s m)
  case Nil
  show ?case by (simp add: encode_array_def image_write_Nil)
next
  case (Cons w ws)
  let ?m = "image_write (medium s) (position s) (enc16 w)"
  let ?s = "advance (s\<lparr>medium := ?m\<rparr>)"
  have all: "image_write ?m (position s + 2) (encode_array enc16 ws)
      = image_write (medium s) (position s) (encode_array enc16 (w # ws))"
    using image_write_append [of "medium s" "position s" "enc16 w"] by (simp add: encode_array_def)
  have step: "fold ata_event (map (Out16 DATA) (w # ws)) s = fold ata_event (map (Out16 DATA) ws) ?s"
    using Cons.prems(1) by simp
  show ?case
  proof (cases ws)
    case Nil
    then show ?thesis using step by (simp add: encode_array_def)
  next
    case (Cons v vs)
    then obtain j where j: "m = Suc (Suc j)" using Cons.prems(2) by (cases m; cases "m - 1") auto
    then have a: "?s = s\<lparr>medium := ?m, position := position s + 2, phase := Transfer Writing (Suc j)\<rparr>"
      using Cons.prems(1) advance_more [of "s\<lparr>medium := ?m\<rparr>" Writing j] by simp
    have "fold ata_event (map (Out16 DATA) ws) ?s
        = (advance ^^ length ws) (?s\<lparr>medium := image_write ?m (position s + 2) (encode_array enc16 ws)\<rparr>)"
      using Cons.IH [of ?s "Suc j"] Cons.prems(2) j by (simp add: a)
    also have "?s\<lparr>medium := image_write ?m (position s + 2) (encode_array enc16 ws)\<rparr>
        = advance (s\<lparr>medium := image_write (medium s) (position s) (encode_array enc16 (w # ws))\<rparr>)"
      unfolding all advance_medium by simp
    finally show ?thesis unfolding step by (simp add: funpow_swap1)
  qed
qed

lemma write_sectors_drive:
  assumes drive: "ata_drive img dev" "settled_status img dev"
  shows "sectors_ahead Writing n (ata_state img tr) \<Longrightarrow> HALF_BLOCK_SIZE * (i + n) \<le> length ws \<Longrightarrow>
    \<exists>tr'. write_sectors dev i n ws tr = Some tr' \<and> phase (ata_state img tr') = Finishing
      \<and> medium (ata_state img tr') = image_write (medium (ata_state img tr)) (position (ata_state img tr))
          (encode_array enc16 (chunk (HALF_BLOCK_SIZE * i) (HALF_BLOCK_SIZE * n) ws))"
proof (induction n arbitrary: i tr)
  case 0
  then show ?case by (simp add: sectors_ahead_def chunk_def encode_array_def image_write_Nil)
next
  case (Suc n)
  let ?s = "ata_state img tr" and ?c = "chunk (HALF_BLOCK_SIZE * i) HALF_BLOCK_SIZE ws"
  let ?m = "image_write (medium ?s) (position ?s) (encode_array enc16 ?c)"
  have busy: "phase ?s = Busy Writing" "pending ?s = Suc n" using Suc.prems by (simp_all add: sectors_ahead_def)
  let ?sector = "\<lambda>tr. write_sectors dev (Suc i) n ws (write_words ?c tr)"
  obtain tr1 where waits: "Option.bind (ATA_busy_wait dev tr) (\<lambda>tr. Option.bind (ATA_DRQ_wait dev tr) ?sector) = ?sector tr1"
    and s1: "ata_state img tr1 = ?s\<lparr>phase := Transfer Writing 256\<rparr>"
    by (rule waits_end [OF drive busy(1), of ?sector])
  have first: "write_sectors dev i (Suc n) ws tr = ?sector tr1" using waits by (simp only: write_sectors.simps)
  have len: "length ?c = 256" using Suc.prems(2) by (simp add: chunk_def)
  have "ata_state img (write_words ?c tr1) = fold ata_event (map (Out16 DATA) ?c) (ata_state img tr1)"
    by (simp add: write_words_eq ata_state_def)
  also have "\<dots> = (advance ^^ 256) (?s\<lparr>phase := Transfer Writing 256, medium := ?m\<rparr>)"
    using write_words_drive [of "ata_state img tr1" 256 ?c] len by (simp add: s1)
  finally have s2: "ata_state img (write_words ?c tr1) = (advance ^^ 256) (?s\<lparr>phase := Transfer Writing 256, medium := ?m\<rparr>)" .
  have ahead: "sectors_ahead Writing n (ata_state img (write_words ?c tr1))"
    and at: "position (ata_state img (write_words ?c tr1)) = position ?s + 512" "medium (ata_state img (write_words ?c tr1)) = ?m"
    using sector_moved [of "?s\<lparr>phase := Transfer Writing 256, medium := ?m\<rparr>" Writing] busy(2) by (simp_all add: s2)
  have "HALF_BLOCK_SIZE * (Suc i + n) \<le> length ws" using Suc.prems(2) by simp
  from Suc.IH [OF ahead this] obtain tr' where
    tr': "write_sectors dev (Suc i) n ws (write_words ?c tr1) = Some tr'" "phase (ata_state img tr') = Finishing"
    "medium (ata_state img tr') = image_write ?m (position ?s + 512)
        (encode_array enc16 (chunk (HALF_BLOCK_SIZE * Suc i) (HALF_BLOCK_SIZE * n) ws))"
    unfolding at by blast
  have chunks: "chunk a (b + d) ws = chunk a b ws @ chunk (a + b) d ws" for a b d
    by (simp add: chunk_def take_add add.commute)
  have "length (encode_array enc16 ?c) = 512" using len word16.length_encode [of ?c] by (simp add: list_all_iff)
  then have "medium (ata_state img tr') = image_write (medium ?s) (position ?s)
      (encode_array enc16 (chunk (HALF_BLOCK_SIZE * i) (HALF_BLOCK_SIZE * Suc n) ws))"
    using image_write_append [of "medium ?s" "position ?s" "encode_array enc16 ?c"]
      chunks [of "HALF_BLOCK_SIZE * i" HALF_BLOCK_SIZE "HALF_BLOCK_SIZE * n"]
    by (simp add: tr'(3) encode_array_def add.commute)
  with tr'(1,2) show ?case unfolding first by blast
qed

lemma ata_write_refines:
  assumes drive: "ata_drive img dev" "settled_status img dev" and rest: "at_rest img tr"
    and fit: "blocks_fit lba (unat count)" and count: "count \<noteq> 0"
    and len: "length src = BLOCK_SIZE * unat count"
  shows "\<exists>tr'. ata_write_blocks dev src lba count tr = Some tr'
    \<and> medium (ata_state img tr') = write_blocks (medium (ata_state img tr)) src lba count \<and> at_rest img tr'"
proof -
  let ?s = "ata_state img tr" and ?ws = "decode_array dec16 2 (HALF_BLOCK_SIZE * unat count) src"
  have src: "encode_array enc16 ?ws = src" using len by (intro word16.encode_decode) simp
  obtain tr1 where tr1: "ATA_busy_wait dev tr = Some tr1" "ata_state img tr1 = ?s\<lparr>phase := Ready\<rparr>"
    by (rule first_wait [OF drive(1) rest])
  let ?tr2 = "ata_command lba count 0x30 tr1"
  have "phase (ata_state img tr1) = Ready" by (simp add: tr1(2))
  note s2 = command_starts [OF this blocks_fit_lba [OF fit] count, of "0x30", simplified]
  have "sectors_ahead Writing (unat count) (ata_state img ?tr2)"
    using s2(1,2) count by (simp add: sectors_ahead_def unat_eq_zero)
  from write_sectors_drive [OF drive this, of 0 ?ws] obtain tr3 where
    tr3: "write_sectors dev 0 (unat count) ?ws ?tr2 = Some tr3" "phase (ata_state img tr3) = Finishing"
    "medium (ata_state img tr3) = image_write (medium ?s) (BLOCK_SIZE * unat lba) src"
    by (auto simp: s2 tr1(2) chunk_def src)
  have "write_blocks (medium ?s) src lba count = image_write (medium ?s) (BLOCK_SIZE * unat lba) src"
    using write_blocks_fit [OF fit, of src] len by simp
  with tr3 show ?thesis unfolding ata_write_blocks_def tr1(1) bind.bind_lunit by (simp add: at_rest_def)
qed

section \<open>Drives that keep the protocol\<close>

text \<open>
  A drive is given by the status it shows in each phase after so many polls. While the data port is
  closed, reading it gives 0xFFFF.
\<close>

fun polls :: "trace \<Rightarrow> nat" where
  "polls [] = 0"
| "polls (In8 p b # es) = Suc (polls es)"
| "polls (e # es) = 0"

definition sim_drive :: "(phase \<Rightarrow> nat \<Rightarrow> byte) \<Rightarrow> image \<Rightarrow> device" where
  "sim_drive status img = \<lparr>answer8 = (\<lambda>tr _. status (phase (ata_state img tr)) (polls (rev tr))),
     answer16 = (\<lambda>tr _. case phase (ata_state img tr) of
        Transfer Reading n \<Rightarrow> image_word (medium (ata_state img tr)) (position (ata_state img tr)) | _ \<Rightarrow> 0xFFFF)\<rparr>"

text \<open>Busy for two polls, with RDY set and not to be trusted, then not ready for two more, then with data.\<close>

definition steady :: "phase \<Rightarrow> nat \<Rightarrow> byte" where
  "steady ph n = (case ph of
       Transfer d m \<Rightarrow> 0x48
     | Busy d \<Rightarrow> if n < 2 then 0xC0 else if n < 4 then 0x10 else 0x48
     | Settling d \<Rightarrow> if n < 4 then 0x10 else 0x48
     | _ \<Rightarrow> if n < 2 then 0xC0 else 0x40)"

text \<open>After a command this one still shows its old status, ready and not busy, for two polls.\<close>

definition hasty :: "phase \<Rightarrow> nat \<Rightarrow> byte" where
  "hasty ph n = (case ph of
       Transfer d m \<Rightarrow> 0x48
     | Busy d \<Rightarrow> if n < 2 then 0x40 else 0x48
     | Settling d \<Rightarrow> if n < 2 then 0x40 else 0x48
     | _ \<Rightarrow> 0x40)"

lemma status_bits:
  "(0x48 :: byte) AND 0x80 = 0" "(0x48 :: byte) AND 0x40 \<noteq> 0" "(0x48 :: byte) AND 0x08 \<noteq> 0"
  "(0x40 :: byte) AND 0x80 = 0" "(0x40 :: byte) AND 0x40 \<noteq> 0" "(0x40 :: byte) AND 0x08 = 0"
  "(0x10 :: byte) AND 0x80 = 0" "(0x10 :: byte) AND 0x40 = 0" "(0xC0 :: byte) AND 0x80 \<noteq> 0"
  by code_simp+

text \<open>Polls neither start nor end a command and do not leave the protocol.\<close>

definition idle :: "phase \<Rightarrow> bool" where
  "idle ph \<longleftrightarrow> ph = Finishing \<or> ph = Ready"

lemma status_seen_kind:
  "status_seen b ph = Violated \<longleftrightarrow> ph = Violated" "idle (status_seen b ph) \<longleftrightarrow> idle ph"
  by (simp_all add: status_seen_def idle_def Let_def split: phase.split)

lemma poll_kind:
  "(phase (ata_state img (poll dev n tr)) = Violated \<longleftrightarrow> phase (ata_state img tr) = Violated)
    \<and> (idle (phase (ata_state img (poll dev n tr))) \<longleftrightarrow> idle (phase (ata_state img tr)))
    \<and> polls (rev (poll dev n tr)) = n + polls (rev tr)"
  by (induction n arbitrary: tr) (simp_all add: ata_state_snoc status_seen_kind)

lemma sim_drive_ok:
  assumes calm: "\<And>ph n. 4 \<le> n \<Longrightarrow> ph \<noteq> Violated \<Longrightarrow> status ph n AND ATA_STATUS_BSY = 0 \<and> status ph n AND ATA_STATUS_RDY \<noteq> 0
      \<and> (\<not> idle ph \<longrightarrow> status ph n AND ATA_STATUS_DRQ \<noteq> 0)"
    and open_port: "\<And>d m n. status (Transfer d m) n = 0x48"
  shows "ata_drive img (sim_drive status img)"
  unfolding ata_drive_def
proof (intro conjI allI impI)
  fix tr assume v: "phase (ata_state img tr) \<noteq> Violated"
  let ?tr = "poll (sim_drive status img) 4 tr"
  have k: "phase (ata_state img ?tr) \<noteq> Violated" "idle (phase (ata_state img ?tr)) = idle (phase (ata_state img tr))"
    "4 \<le> polls (rev ?tr)"
    using poll_kind [of img "sim_drive status img" 4 tr] v by simp_all
  have "running (phase (ata_state img tr)) \<Longrightarrow> \<not> idle (phase (ata_state img tr))" by (auto simp: running_def idle_def)
  with calm [OF k(3,1)] k(2)
  show "\<exists>n. serves (phase (ata_state img tr)) (answer8 (sim_drive status img) (poll (sim_drive status img) n tr) STATUS)"
    by (intro exI [of _ 4]) (auto simp: serves_def sim_drive_def)
qed (simp_all add: sim_drive_def open_port status_bits)

lemma steady_ok: "ata_drive img (sim_drive steady img)" and steady_settled: "settled_status img (sim_drive steady img)"
proof -
  show "ata_drive img (sim_drive steady img)"
    by (rule sim_drive_ok) (auto simp: steady_def idle_def status_bits split: phase.split)
  show "settled_status img (sim_drive steady img)"
    by (auto simp: settled_status_def sim_drive_def steady_def status_bits)
qed

lemma at_rest_Nil: "at_rest img []"
  by (simp add: at_rest_def ata_state_def)

section \<open>Ready is not data\<close>

lemma hasty_ok: "ata_drive img (sim_drive hasty img)"
  by (rule sim_drive_ok) (auto simp: hasty_def idle_def status_bits split: phase.split)

lemma hasty_bits: "hasty ph n AND ATA_STATUS_BSY = 0" "hasty ph n AND ATA_STATUS_RDY \<noteq> 0"
  by (simp_all add: hasty_def status_bits split: phase.split)

text \<open>The data port is closed and nothing was read from it yet, or the protocol is broken already.\<close>

definition too_early :: "image \<Rightarrow> trace \<Rightarrow> bool" where
  "too_early img tr \<longleftrightarrow> phase (ata_state img tr) = Settling Reading \<or> phase (ata_state img tr) = Violated"

lemma hasty_waits:
  assumes "phase (ata_state img tr) = Busy Reading \<and> polls (rev tr) = 0 \<or> phase (ata_state img tr) = Violated"
  obtains tr' where "Option.bind (ATA_busy_wait (sim_drive hasty img) tr) (\<lambda>tr. Option.bind (ATA_DRQ_wait (sim_drive hasty img) tr) f) = f tr'"
    "too_early img tr'"
proof -
  let ?dev = "sim_drive hasty img"
  let ?tr1 = "tr @ [In8 STATUS (answer8 ?dev tr STATUS)]"
  let ?tr2 = "?tr1 @ [In8 STATUS (answer8 ?dev ?tr1 STATUS)]"
  have "ATA_busy_wait ?dev tr = Some ?tr1"
    by (subst ATA_busy_wait.simps) (simp add: in_port_def Let_def sim_drive_def hasty_bits)
  moreover have "ATA_DRQ_wait ?dev ?tr1 = Some ?tr2"
    by (subst ATA_DRQ_wait.simps) (simp add: in_port_def Let_def sim_drive_def hasty_bits)
  moreover have "too_early img ?tr2"
    using assms by (auto simp: too_early_def ata_state_append sim_drive_def hasty_def status_seen_def status_bits)
  ultimately show thesis by (intro that [of ?tr2]) simp_all
qed

lemma hasty_words:
  "too_early img tr \<Longrightarrow> \<exists>tr'. read_words (sim_drive hasty img) n tr = (replicate n 0xFFFF, tr') \<and> too_early img tr'
    \<and> (0 < n \<longrightarrow> phase (ata_state img tr') = Violated)"
proof (induction n arbitrary: tr)
  case (Suc n)
  let ?tr = "tr @ [In16 DATA 0xFFFF]"
  have w: "answer16 (sim_drive hasty img) tr DATA = 0xFFFF" using Suc.prems by (auto simp: too_early_def sim_drive_def)
  have v: "phase (ata_state img ?tr) = Violated" using Suc.prems by (auto simp: too_early_def ata_state_snoc)
  from Suc.IH [of ?tr] v obtain tr' where
    tr': "read_words (sim_drive hasty img) n ?tr = (replicate n 0xFFFF, tr')" "too_early img tr'"
      "0 < n \<longrightarrow> phase (ata_state img tr') = Violated" by (auto simp: too_early_def)
  have "phase (ata_state img tr') = Violated" using tr' v by (cases n) auto
  with w tr' show ?case by (simp add: in16_def Let_def)
qed simp

lemma hasty_sectors:
  "phase (ata_state img tr) = Busy Reading \<and> polls (rev tr) = 0 \<or> phase (ata_state img tr) = Violated \<Longrightarrow>
   \<exists>tr'. read_sectors (sim_drive hasty img) n tr = Some (replicate (HALF_BLOCK_SIZE * n) 0xFFFF, tr')"
proof (induction n arbitrary: tr)
  case (Suc n)
  let ?dev = "sim_drive hasty img"
  let ?sector = "\<lambda>tr. case read_words ?dev HALF_BLOCK_SIZE tr of (ws, tr) \<Rightarrow>
          map_option (\<lambda>(rest, tr). (ws @ rest, tr)) (read_sectors ?dev n tr)"
  obtain tr1 where waits: "Option.bind (ATA_busy_wait ?dev tr) (\<lambda>tr. Option.bind (ATA_DRQ_wait ?dev tr) ?sector) = ?sector tr1"
    and early: "too_early img tr1" by (rule hasty_waits [OF Suc.prems, of ?sector])
  have first: "read_sectors ?dev (Suc n) tr = ?sector tr1" using waits by (simp only: read_sectors.simps)
  from hasty_words [OF early, of HALF_BLOCK_SIZE] obtain tr2 where
    tr2: "read_words ?dev HALF_BLOCK_SIZE tr1 = (replicate HALF_BLOCK_SIZE 0xFFFF, tr2)" "phase (ata_state img tr2) = Violated" by auto
  from Suc.IH [of tr2] tr2(2) obtain tr3 where
    tr3: "read_sectors ?dev n tr2 = Some (replicate (HALF_BLOCK_SIZE * n) 0xFFFF, tr3)" by blast
  have "replicate (HALF_BLOCK_SIZE * Suc n) w = replicate HALF_BLOCK_SIZE w @ replicate (HALF_BLOCK_SIZE * n) w" for w :: u16
    by (simp add: replicate_add)
  then show ?case unfolding first tr2(1) prod.case tr3 option.map by simp
qed simp

lemma encode_ones: "encode_array enc16 (replicate n 0xFFFF) = replicate (2 * n) 0xFF"
proof (induction n)
  case (Suc n)
  have "dec16 [0xFF, 0xFF] = 0xFFFF" unfolding dec16_def le_val.simps by simp
  moreover have "enc16 (dec16 [0xFF, 0xFF]) = [0xFF, 0xFF]" by simp
  ultimately have "enc16 0xFFFF = [0xFF, 0xFF]" by (simp only:)
  then have "encode_array enc16 (replicate (Suc n) 0xFFFF) = 0xFF # 0xFF # encode_array enc16 (replicate n 0xFFFF)"
    unfolding encode_array_def replicate.simps list.map concat.simps by (simp only: append.simps)
  then show ?case unfolding Suc.IH by (simp only: mult_Suc_right add_2_eq_Suc replicate.simps)
qed (simp add: encode_array_def)

lemma hasty_read:
  assumes rest: "at_rest img tr" and lba: "unat lba < 2 ^ 28" and count: "count \<noteq> 0"
  shows "\<exists>tr'. ata_read_blocks (sim_drive hasty img) lba count tr = Some (replicate (BLOCK_SIZE * unat count) 0xFF, tr')"
proof -
  obtain tr1 where tr1: "ATA_busy_wait (sim_drive hasty img) tr = Some tr1" "ata_state img tr1 = (ata_state img tr)\<lparr>phase := Ready\<rparr>"
    by (rule first_wait [OF hasty_ok rest])
  let ?tr2 = "ata_command lba count 0x20 tr1"
  have "phase (ata_state img tr1) = Ready" by (simp add: tr1(2))
  from command_starts(1) [OF this lba count, of "0x20"] have "phase (ata_state img ?tr2) = Busy Reading" by simp
  moreover have "polls (rev ?tr2) = 0" by (simp add: ata_command_def out_port_def Let_def)
  ultimately obtain tr3 where tr3: "read_sectors (sim_drive hasty img) (unat count) ?tr2
      = Some (replicate (HALF_BLOCK_SIZE * unat count) 0xFFFF, tr3)" using hasty_sectors by blast
  have "2 * (HALF_BLOCK_SIZE * unat count) = BLOCK_SIZE * unat count" by simp
  then have bytes: "encode_array enc16 (replicate (HALF_BLOCK_SIZE * unat count) 0xFFFF) = replicate (BLOCK_SIZE * unat count) 0xFF"
    by (simp only: encode_ones)
  show ?thesis
    unfolding ata_read_blocks_def tr1(1) bind.bind_lunit tr3 option.map prod.case bytes by blast
qed

end
