(* ===== verification/Framebuffer.thy ===== *)
theory Framebuffer
  imports Block_Store Port_IO
begin

unbundle bit_operations_syntax

text \<open>
  The text screen (\<open>src/framebuffer.c\<close>): 25 rows of 80 two-byte cells at \<open>0xC00B8000\<close>, and
  the cursor of the CRT controller. Row and column are bytes that the code does not check, so
  the cell of a row or column outside the screen is another cell, or lies behind the screen.
  Inside it, cells are a \<open>sector_store\<close> of two-byte sectors.
\<close>

abbreviation (input) SCREEN_ROWS :: nat where "SCREEN_ROWS \<equiv> 25"
abbreviation (input) SCREEN_COLS :: nat where "SCREEN_COLS \<equiv> 80"
abbreviation (input) FRAMEBUFFER_MEMORY_OFFSET :: u32 where "FRAMEBUFFER_MEMORY_OFFSET \<equiv> 0xC00B8000"
abbreviation (input) CURSOR_PORT_CMD :: u16 where "CURSOR_PORT_CMD \<equiv> 0x03D4"
abbreviation (input) CURSOR_PORT_DATA :: u16 where "CURSOR_PORT_DATA \<equiv> 0x03D5"

definition framebuffer_set_cursor :: "u8 \<Rightarrow> u8 \<Rightarrow> trace \<Rightarrow> trace" where
  "framebuffer_set_cursor r c tr =
     (let cursor_index = of_nat (unat r * 80 + unat c) :: u16;
          tr1 = out_port CURSOR_PORT_CMD 0x0F tr;
          tr2 = out_port CURSOR_PORT_DATA (ucast (cursor_index AND 0xFF)) tr1;
          tr3 = out_port CURSOR_PORT_CMD 0x0E tr2
      in out_port CURSOR_PORT_DATA (ucast (drop_bit 8 cursor_index AND 0xFF)) tr3)"

definition frame_buffer_index :: "u8 \<Rightarrow> u8 \<Rightarrow> nat" where
  "frame_buffer_index row col = (unat row * 80 + unat col) * 2"

text \<open>The address of \<open>FRAMEBUFFER_MEMORY_OFFSET[i]\<close>.\<close>

definition fb_addr :: "nat \<Rightarrow> u32" where
  "fb_addr i = FRAMEBUFFER_MEMORY_OFFSET + of_nat i"

definition framebuffer_write :: "u8 \<Rightarrow> u8 \<Rightarrow> byte \<Rightarrow> u8 \<Rightarrow> u8 \<Rightarrow> memory \<Rightarrow> memory" where
  "framebuffer_write row col c fg bg m =
     (let i = frame_buffer_index row col
      in m(fb_addr i := c, fb_addr (i + 1) := push_bit 4 bg OR fg))"

fun clear_loop :: "nat \<Rightarrow> nat \<Rightarrow> memory \<Rightarrow> memory" where
  "clear_loop i 0 m = m"
| "clear_loop i (Suc n) m =
     clear_loop (Suc i) n (m(fb_addr i := (if i mod 2 = 0 then 0x00 else 0x07)))"

definition framebuffer_clear :: "memory \<Rightarrow> memory" where
  "framebuffer_clear m = clear_loop 0 (80 * 25 * 2) m"

section \<open>Cells\<close>

definition on_screen :: "u8 \<times> u8 \<Rightarrow> bool" where
  "on_screen rc \<longleftrightarrow> unat (fst rc) < SCREEN_ROWS \<and> unat (snd rc) < SCREEN_COLS"

definition cell :: "memory \<Rightarrow> u8 \<times> u8 \<Rightarrow> byte list" where
  "cell m rc = (let i = frame_buffer_index (fst rc) (snd rc) in [m (fb_addr i), m (fb_addr (i + 1))])"

definition put_cell :: "memory \<Rightarrow> u8 \<times> u8 \<Rightarrow> byte list \<Rightarrow> memory" where
  "put_cell m rc bs = framebuffer_write (fst rc) (snd rc) (bs ! 0) (bs ! 1 AND 0xF) (drop_bit 4 (bs ! 1)) m"

lemma frame_buffer_index_less: "frame_buffer_index r c < 41312"
proof -
  have "unat r < 256" "unat c < 256" by simp_all
  then have "unat r * 80 + unat c < 20656" by linarith
  then show ?thesis by (simp add: frame_buffer_index_def)
qed

lemma unat_fb_addr: "i < 65536 \<Longrightarrow> unat (fb_addr i - FRAMEBUFFER_MEMORY_OFFSET) = i"
  by (simp add: fb_addr_def)

lemma fb_addr_eq: "i < 65536 \<Longrightarrow> j < 65536 \<Longrightarrow> fb_addr i = fb_addr j \<longleftrightarrow> i = j"
  by (metis unat_fb_addr)

lemma frame_buffer_index_even [simp]: "frame_buffer_index r c mod 2 = 0"
  by (simp add: frame_buffer_index_def)

lemma framebuffer_write_at:
  assumes "i < 65536"
  shows "framebuffer_write r c ch fg bg m (fb_addr i)
       = (if i = frame_buffer_index r c then ch
          else if i = frame_buffer_index r c + 1 then push_bit 4 bg OR fg
          else m (fb_addr i))"
proof -
  have "frame_buffer_index r c < 65536" "frame_buffer_index r c + 1 < 65536"
    using frame_buffer_index_less [of r c] by linarith+
  with assms show ?thesis by (simp add: framebuffer_write_def Let_def fb_addr_eq)
qed

lemma framebuffer_write_outside:
  assumes "41313 \<le> unat (a - FRAMEBUFFER_MEMORY_OFFSET)"
  shows "framebuffer_write r c ch fg bg m a = m a"
proof -
  have "a \<noteq> fb_addr n" if "n < 41313" for n
    using that assms unat_fb_addr [of n] by auto
  from this [of "frame_buffer_index r c"] this [of "frame_buffer_index r c + 1"] show ?thesis
    using frame_buffer_index_less [of r c] by (simp add: framebuffer_write_def Let_def)
qed

lemma cell_eq: "cell m (r, c) = [m (fb_addr (frame_buffer_index r c)), m (fb_addr (frame_buffer_index r c + 1))]"
  by (simp add: cell_def Let_def)

lemma frame_buffer_index_inj:
  assumes "on_screen (r, c)" and "on_screen (r', c')"
  shows "frame_buffer_index r c = frame_buffer_index r' c' \<longleftrightarrow> r = r' \<and> c = c'"
    and "frame_buffer_index r c \<noteq> frame_buffer_index r' c' + 1"
proof -
  have b: "unat c < 80" "unat c' < 80" using assms by (simp_all add: on_screen_def)
  have q: "(unat r * 80 + unat c) div 80 = unat r" "(unat r' * 80 + unat c') div 80 = unat r'"
    using b by simp_all
  have "unat r = unat r' \<and> unat c = unat c'" if "unat r * 80 + unat c = unat r' * 80 + unat c'"
    using that q by simp
  then show "frame_buffer_index r c = frame_buffer_index r' c' \<longleftrightarrow> r = r' \<and> c = c'"
    by (auto simp: frame_buffer_index_def word_unat_eq_iff)
  show "frame_buffer_index r c \<noteq> frame_buffer_index r' c' + 1"
    using frame_buffer_index_even [of r c] frame_buffer_index_even [of r' c'] by (metis mod_Suc Suc_eq_plus1 One_nat_def n_not_Suc_n numeral_2_eq_2)
qed

lemma cell_framebuffer_write:
  assumes "on_screen (r, c)" and "on_screen (r', c')"
  shows "cell (framebuffer_write r c ch fg bg m) (r', c')
       = (if r' = r \<and> c' = c then [ch, push_bit 4 bg OR fg] else cell m (r', c'))"
proof -
  have "frame_buffer_index r' c' < 65536" "frame_buffer_index r' c' + 1 < 65536"
    using frame_buffer_index_less [of r' c'] by linarith+
  then show ?thesis
    using frame_buffer_index_inj [OF assms(2,1)] frame_buffer_index_inj [OF assms(1,2)]
    unfolding cell_eq by (auto simp: framebuffer_write_at)
qed

lemma nibbles: "push_bit 4 (drop_bit 4 b) OR (b AND 0xF) = (b :: byte)"
proof -
  have "b AND 0xF = take_bit 4 b" by (simp add: take_bit_eq_mask mask_eq_exp_minus_1)
  then show ?thesis by (simp only:) (rule bit_word_eqI, auto simp: bit_simps)
qed

interpretation screen: sector_store cell put_cell 2 on_screen
proof unfold_locales
  fix a b :: "u8 \<times> u8" and bs :: "byte list" and m :: memory
  assume a: "on_screen a" and bs: "length bs = 2"
  obtain x y where xy: "bs = [x, y]" using bs by (cases bs; cases "tl bs") auto
  obtain r c where rc: "a = (r, c)" by (cases a)
  show "cell (put_cell m a bs) a = bs"
    using a by (simp add: xy rc put_cell_def cell_framebuffer_write nibbles)
  assume "on_screen b" "a \<noteq> b"
  with a show "cell (put_cell m a bs) b = cell m b"
    by (cases b) (auto simp: rc put_cell_def cell_framebuffer_write)
qed (simp add: cell_def Let_def)

section \<open>Clearing and the cursor\<close>

lemma clear_loop_at:
  assumes "i + n \<le> 65536" and "j < 65536"
  shows "clear_loop i n m (fb_addr j)
       = (if i \<le> j \<and> j < i + n then (if j mod 2 = 0 then 0x00 else 0x07) else m (fb_addr j))"
  using assms(1)
proof (induction n arbitrary: i m)
  case 0
  then show ?case by auto
next
  case (Suc n)
  have "i < 65536" using Suc.prems by simp
  with Suc assms(2) show ?case by (auto simp: fb_addr_eq)
qed

lemma clear_loop_outside:
  assumes "i + n \<le> 4000" and "4000 \<le> unat (a - FRAMEBUFFER_MEMORY_OFFSET)"
  shows "clear_loop i n m a = m a"
  using assms(1)
proof (induction n arbitrary: i m)
  case 0
  then show ?case by simp
next
  case (Suc n)
  have "a \<noteq> fb_addr i"
    using assms(2) Suc.prems unat_fb_addr [of i] by auto
  with Suc show ?case by simp
qed

lemma cell_clear:
  assumes "on_screen rc"
  shows "cell (framebuffer_clear m) rc = [0x00, 0x07]"
proof -
  obtain r c where rc: "rc = (r, c)" by (cases rc)
  have i: "frame_buffer_index r c + 1 < 4000"
    using assms by (simp add: rc on_screen_def frame_buffer_index_def)
  then show ?thesis
    unfolding rc cell_eq framebuffer_clear_def
    using frame_buffer_index_even [of r c] by (simp add: clear_loop_at mod_Suc del: clear_loop.simps)
qed

definition cursor_index :: "byte list \<Rightarrow> nat" where
  "cursor_index bs = unat (bs ! 0) + 256 * unat (bs ! 1)"

lemma cursor_trace:
  "\<exists>lo hi. framebuffer_set_cursor r c tr
      = tr @ [Out8 CURSOR_PORT_CMD 0x0F, Out8 CURSOR_PORT_DATA lo, Out8 CURSOR_PORT_CMD 0x0E, Out8 CURSOR_PORT_DATA hi]
    \<and> cursor_index [lo, hi] = unat r * 80 + unat c"
proof -
  let ?n = "unat r * 80 + unat c" let ?w = "of_nat ?n :: u16"
  have n: "?n < 65536" using unat_u8_lt [of r] unat_u8_lt [of c] by (simp del: unat_u8_lt)
  then have w: "unat ?w = ?n" by (simp add: unat_of_nat del: of_nat_add)
  have m: "x AND 0xFF = take_bit 8 x" for x :: u16 by (simp add: take_bit_eq_mask mask_eq_exp_minus_1)
  have b: "unat (ucast (x AND 0xFF) :: byte) = unat x mod 256" for x :: u16
    unfolding m by (simp add: unsigned_ucast_eq take_bit_eq_mod unat_mod)
  have "unat (drop_bit 8 x) = unat x div 256" for x :: u16 by (simp add: drop_bit_eq_div unat_div)
  from this [of ?w] have "unat (drop_bit 8 ?w) = ?n div 256" unfolding w .
  then have hi: "unat (ucast (drop_bit 8 ?w AND 0xFF) :: byte) = ?n div 256"
    using b [of "drop_bit 8 ?w"] n by simp
  have "cursor_index [ucast (?w AND 0xFF), ucast (drop_bit 8 ?w AND 0xFF)] = ?n"
    unfolding cursor_index_def using b [of ?w] hi w by simp
  then show ?thesis by (auto simp: framebuffer_set_cursor_def out_port_def Let_def)
qed

end
