(* ===== verification/Pic.thy ===== *)
theory Pic
  imports Port_IO
begin

unbundle bit_operations_syntax

text \<open>
  The programmable interrupt controllers (\<open>io_wait\<close>, \<open>pic_ack\<close>, \<open>pic_remap\<close> and
  \<open>activate_keyboard_interrupt\<close> of \<open>src/interrupt.c\<close>) as the accesses they make.
\<close>

abbreviation (input) PIC1_OFFSET :: byte where "PIC1_OFFSET \<equiv> 0x20"
abbreviation (input) PIC2_OFFSET :: byte where "PIC2_OFFSET \<equiv> 0x28"
abbreviation (input) PIC1_COMMAND :: u16 where "PIC1_COMMAND \<equiv> 0x20"
abbreviation (input) PIC1_DATA :: u16 where "PIC1_DATA \<equiv> 0x21"
abbreviation (input) PIC2_COMMAND :: u16 where "PIC2_COMMAND \<equiv> 0xA0"
abbreviation (input) PIC2_DATA :: u16 where "PIC2_DATA \<equiv> 0xA1"
abbreviation (input) PIC_ACK :: byte where "PIC_ACK \<equiv> 0x20"
abbreviation (input) PIC_DISABLE_ALL_MASK :: byte where "PIC_DISABLE_ALL_MASK \<equiv> 0xFF"
abbreviation (input) ICW1_ICW4 :: byte where "ICW1_ICW4 \<equiv> 0x01"
abbreviation (input) ICW1_INIT :: byte where "ICW1_INIT \<equiv> 0x10"
abbreviation (input) ICW4_8086 :: byte where "ICW4_8086 \<equiv> 0x01"
abbreviation (input) IRQ_KEYBOARD :: byte where "IRQ_KEYBOARD \<equiv> 1"

definition io_wait :: "trace \<Rightarrow> trace" where
  "io_wait tr = out_port 0x80 0 tr"

definition pic_ack :: "byte \<Rightarrow> trace \<Rightarrow> trace" where
  "pic_ack irq tr =
     (let tr = (if 8 \<le> irq then out_port PIC2_COMMAND PIC_ACK tr else tr)
      in out_port PIC1_COMMAND PIC_ACK tr)"

text \<open>An initialisation word to each controller, each followed by a wait.\<close>

definition out_wait :: "u16 \<Rightarrow> byte \<Rightarrow> trace \<Rightarrow> trace" where
  "out_wait port data tr = io_wait (out_port port data tr)"

definition pic_remap :: "trace \<Rightarrow> trace" where
  "pic_remap tr =
     (let tr = out_wait PIC1_COMMAND (ICW1_INIT OR ICW1_ICW4) tr;
          tr = out_wait PIC2_COMMAND (ICW1_INIT OR ICW1_ICW4) tr;
          tr = out_wait PIC1_DATA PIC1_OFFSET tr;
          tr = out_wait PIC2_DATA PIC2_OFFSET tr;
          tr = out_wait PIC1_DATA 0b0100 tr;
          tr = out_wait PIC2_DATA 0b0010 tr;
          tr = out_wait PIC1_DATA ICW4_8086 tr;
          tr = out_wait PIC2_DATA ICW4_8086 tr;
          tr = out_port PIC1_DATA PIC_DISABLE_ALL_MASK tr
      in out_port PIC2_DATA PIC_DISABLE_ALL_MASK tr)"

definition activate_keyboard_interrupt :: "device \<Rightarrow> trace \<Rightarrow> trace" where
  "activate_keyboard_interrupt dev tr =
     (case in_port dev PIC1_DATA tr of (m, tr) \<Rightarrow>
        out_port PIC1_DATA (m AND NOT (push_bit (unat IRQ_KEYBOARD) 1)) tr)"

lemmas pic_defs = io_wait_def pic_ack_def out_wait_def pic_remap_def activate_keyboard_interrupt_def

lemma pic_ack_trace: "irq < 8 \<Longrightarrow> pic_ack irq tr = tr @ [Out8 PIC1_COMMAND PIC_ACK]"
  by (simp add: pic_ack_def out_port_def not_le)

text \<open>Each controller gets its four initialisation words in order, then its mask.\<close>

lemma pic_remap_words:
  "sent_to PIC1_COMMAND (pic_remap tr) = sent_to PIC1_COMMAND tr @ [0x11]"
  "sent_to PIC1_DATA (pic_remap tr) = sent_to PIC1_DATA tr @ [0x20, 0x04, 0x01, 0xFF]"
  "sent_to PIC2_COMMAND (pic_remap tr) = sent_to PIC2_COMMAND tr @ [0x11]"
  "sent_to PIC2_DATA (pic_remap tr) = sent_to PIC2_DATA tr @ [0x28, 0x02, 0x01, 0xFF]"
  by (simp_all add: pic_defs port_defs Let_def)

lemma keyboard_mask:
  "sent_to PIC1_DATA (activate_keyboard_interrupt dev tr)
     = sent_to PIC1_DATA tr @ [answer8 dev tr PIC1_DATA AND 0xFD]"
proof -
  have m: "(- 3 :: byte) = 0xFD" by simp
  show ?thesis
    by (simp add: pic_defs port_defs Let_def) (simp only: m)
qed

end
