(* ===== verification/Keyboard.thy ===== *)
theory Keyboard
  imports Framebuffer Pic
begin

unbundle bit_operations_syntax

text \<open>
  The keyboard driver (\<open>src/keyboard.c\<close>): the scancode map, the one-character buffer, the
  position at which typed characters are echoed, and the interrupt handler with its
  press and release states. \<open>console\<close> puts the driver's statics together with the
  text cursor of \<open>src/interrupt.c\<close>, the memory that holds the screen, and the port trace.
\<close>

section \<open>State\<close>

record keyboard =
  read_extended_mode :: bool
  keyboard_input_on :: bool
  keyboard_buffer :: byte
  krow :: u32
  kcol :: u32
  key_pressed :: bool
  backspace_pressed :: bool

record console =
  kbd :: keyboard
  cursor_row :: u8
  cursor_col :: u8
  video :: memory
  ports :: trace

definition initial_keyboard :: keyboard where
  "initial_keyboard = \<lparr>read_extended_mode = False, keyboard_input_on = False, keyboard_buffer = 0, krow = 0, kcol = 0,
     key_pressed = False, backspace_pressed = False\<rparr>"

abbreviation (input) KEYBOARD_DATA_PORT :: u16 where "KEYBOARD_DATA_PORT \<equiv> 0x60"
abbreviation (input) terminal_length :: u32 where "terminal_length \<equiv> 0"

definition keyboard_scancode_1_to_ascii_map :: "byte list" where
  "keyboard_scancode_1_to_ascii_map =
     [0, 0x1B] @ str ''1234567890-='' @ [8, 9]
     @ str ''qwertyuiop[]'' @ [10, 0] @ str ''as''
     @ str ''dfghjkl;'' @ [39, 96, 0, 92] @ str ''zxcv''
     @ str ''bnm,./'' @ [0, 42, 0, 32, 0, 0, 0, 0, 0, 0]
     @ replicate 10 0 @ [45, 0, 0, 0, 43, 0]
     @ replicate 176 0"

section \<open>Operations\<close>

definition set_row :: "u32 \<Rightarrow> console \<Rightarrow> console" where
  "set_row v c = c\<lparr>kbd := (kbd c)\<lparr>krow := v\<rparr>\<rparr>"

definition set_col :: "u32 \<Rightarrow> console \<Rightarrow> console" where
  "set_col v c = c\<lparr>kbd := (kbd c)\<lparr>kcol := v\<rparr>\<rparr>"

definition keyboard_state_activate :: "keyboard \<Rightarrow> keyboard" where
  "keyboard_state_activate k = k\<lparr>keyboard_input_on := True\<rparr>"

definition keyboard_state_deactivate :: "keyboard \<Rightarrow> keyboard" where
  "keyboard_state_deactivate k = k\<lparr>keyboard_input_on := False\<rparr>"

definition get_keyboard_buffer :: "keyboard \<Rightarrow> byte \<times> keyboard" where
  "get_keyboard_buffer k = (keyboard_buffer k, k\<lparr>keyboard_buffer := 0\<rparr>)"

definition echo :: "u32 \<Rightarrow> u32 \<Rightarrow> byte \<Rightarrow> console \<Rightarrow> console" where
  "echo r cl ch c = c\<lparr>video := framebuffer_write (ucast r) (ucast cl) ch 0x0F 0x00 (video c)\<rparr>"

definition move_cursor :: "u32 \<Rightarrow> u32 \<Rightarrow> console \<Rightarrow> console" where
  "move_cursor r cl c = c\<lparr>ports := framebuffer_set_cursor (ucast r) (ucast cl) (ports c)\<rparr>"

text \<open>The branches of \<open>keyboard_isr\<close> after the scancode is read.\<close>

definition handle_scancode :: "byte \<Rightarrow> console \<Rightarrow> console" where
  "handle_scancode scancode c =
     (let k = kbd c; mapped_char = keyboard_scancode_1_to_ascii_map ! unat scancode
      in if mapped_char = 8 then
           if terminal_length + 1 \<le>s kcol k then
             move_cursor (krow k) (kcol k - 1) (echo (krow k) (kcol k - 1) 0
               (c\<lparr>kbd := k\<lparr>backspace_pressed := True, kcol := kcol k - 1, keyboard_buffer := 0\<rparr>\<rparr>))
           else c
         else if scancode = 0x1C \<and> \<not> key_pressed k then
           move_cursor (krow k + 1) 0
             (c\<lparr>kbd := keyboard_state_activate
                ((keyboard_state_deactivate k)\<lparr>krow := krow k + 1, kcol := 0, key_pressed := True, keyboard_buffer := 10\<rparr>)\<rparr>)
         else if 0x02 \<le> scancode \<and> scancode \<le> 0x4A \<and> \<not> key_pressed k then
           move_cursor (krow k) (kcol k + 1) (echo (krow k) (kcol k) mapped_char
             (c\<lparr>kbd := k\<lparr>keyboard_buffer := mapped_char, key_pressed := True\<rparr>\<rparr>))
         else if 0x80 \<le> scancode \<and> backspace_pressed k then
           (let k1 = k\<lparr>backspace_pressed := False\<rparr>
            in if keyboard_buffer k1 \<noteq> 0 then c\<lparr>kbd := k1\<lparr>keyboard_buffer := 0, kcol := kcol k1 - 1\<rparr>\<rparr>
               else c\<lparr>kbd := k1\<rparr>)
         else if 0x80 \<le> scancode \<and> scancode \<noteq> 0x9C \<and> key_pressed k then
           c\<lparr>kbd := k\<lparr>key_pressed := False, kcol := kcol k + 1\<rparr>\<rparr>
         else if scancode = 0x9C then c\<lparr>kbd := k\<lparr>key_pressed := False\<rparr>\<rparr>
         else if scancode = 0xE0 then
           move_cursor (krow k) (kcol k - 1) (c\<lparr>kbd := k\<lparr>kcol := kcol k - 1\<rparr>\<rparr>)
         else c)"

definition keyboard_isr :: "device \<Rightarrow> console \<Rightarrow> console" where
  "keyboard_isr dev c =
     (let c1 = (if \<not> keyboard_input_on (kbd c)
                then c\<lparr>kbd := (kbd c)\<lparr>keyboard_buffer := 0\<rparr>\<rparr>
                else case in_port dev KEYBOARD_DATA_PORT (ports c) of
                  (scancode, tr) \<Rightarrow> handle_scancode scancode (c\<lparr>ports := tr\<rparr>))
      in c1\<lparr>ports := pic_ack IRQ_KEYBOARD (ports c1)\<rparr>)"

section \<open>The map\<close>

lemma length_scancode_map [simp]: "length keyboard_scancode_1_to_ascii_map = 256"
  by (simp add: keyboard_scancode_1_to_ascii_map_def)

text \<open>The keys with a character of their own: neither backspace nor enter, and not a modifier.\<close>

definition printable :: "byte \<Rightarrow> bool" where
  "printable sc \<longleftrightarrow> 0x02 \<le> sc \<and> sc \<le> 0x4A \<and> sc \<noteq> 0x0E \<and> sc \<noteq> 0x1C
     \<and> keyboard_scancode_1_to_ascii_map ! unat sc \<noteq> 0"

definition key_char :: "byte \<Rightarrow> byte" where
  "key_char sc = keyboard_scancode_1_to_ascii_map ! unat sc"

text \<open>Only the backspace key maps to \<open>\b\<close>.\<close>

lemma backspace_index: "map fst (filter (\<lambda>p. snd p = 8) (List.enumerate 0 keyboard_scancode_1_to_ascii_map)) = [14]"
  by code_simp

lemma map_backspace_iff:
  fixes sc :: byte
  shows "keyboard_scancode_1_to_ascii_map ! unat sc = 8 \<longleftrightarrow> sc = 0x0E"
proof -
  let ?m = "keyboard_scancode_1_to_ascii_map"
  have "?m ! unat sc = 8 \<longleftrightarrow> unat sc \<in> set (map fst (filter (\<lambda>p. snd p = 8) (List.enumerate 0 ?m)))"
    using unat_u8_lt [of sc] by (force simp: in_set_enumerate_eq image_iff)
  also have "\<dots> \<longleftrightarrow> unat sc = 14" unfolding backspace_index by simp
  also have "\<dots> \<longleftrightarrow> sc = 0x0E" by (simp add: word_unat_eq_iff)
  finally show ?thesis .
qed

section \<open>One interrupt\<close>

text \<open>The handler reads one byte from the device; a device that answers \<open>sc\<close> stands for all.\<close>

definition delivering :: "byte \<Rightarrow> device" where
  "delivering sc = \<lparr>answer8 = (\<lambda>_ _. sc), answer16 = (\<lambda>_ _. 0)\<rparr>"

lemma keyboard_isr_cong:
  "keyboard_isr dev c = keyboard_isr (delivering (answer8 dev (ports c) KEYBOARD_DATA_PORT)) c"
  by (simp add: keyboard_isr_def in_port_def delivering_def Let_def)

lemma handle_scancode_ports:
  "\<exists>es. ports (handle_scancode sc c) = ports c @ es \<and> sent_to PIC1_COMMAND es = []"
  by (simp add: handle_scancode_def move_cursor_def echo_def framebuffer_set_cursor_def port_defs Let_def)

lemma keyboard_isr_ports:
  "\<exists>es. ports (keyboard_isr dev c) = ports c @ es @ [Out8 PIC1_COMMAND PIC_ACK] \<and> sent_to PIC1_COMMAND es = []"
proof (cases "keyboard_input_on (kbd c)")
  case True
  let ?sc = "answer8 dev (ports c) KEYBOARD_DATA_PORT"
  from handle_scancode_ports [of ?sc "c\<lparr>ports := ports c @ [In8 KEYBOARD_DATA_PORT ?sc]\<rparr>"]
  obtain es where "ports (handle_scancode ?sc (c\<lparr>ports := ports c @ [In8 KEYBOARD_DATA_PORT ?sc]\<rparr>))
      = ports c @ [In8 KEYBOARD_DATA_PORT ?sc] @ es" "sent_to PIC1_COMMAND es = []" by auto
  with True show ?thesis
    by (intro exI [of _ "In8 KEYBOARD_DATA_PORT ?sc # es"])
      (simp add: keyboard_isr_def in_port_def pic_ack_trace Let_def)
next
  case False
  then show ?thesis by (simp add: keyboard_isr_def pic_ack_trace Let_def)
qed

text \<open>The handler leaves the text cursor of \<open>puts\<close> alone, and stays activated.\<close>

lemma keyboard_isr_frame [simp]:
  "cursor_row (keyboard_isr dev c) = cursor_row c"
  "cursor_col (keyboard_isr dev c) = cursor_col c"
  "keyboard_input_on (kbd (keyboard_isr dev c)) = keyboard_input_on (kbd c)"
  by (simp_all add: keyboard_isr_def in_port_def handle_scancode_def move_cursor_def echo_def Let_def
      keyboard_state_activate_def keyboard_state_deactivate_def)

lemma isr_delivering:
  assumes "keyboard_input_on (kbd c)"
  shows "kbd (keyboard_isr (delivering sc) c) = kbd (handle_scancode sc (c\<lparr>ports := ports c @ [In8 KEYBOARD_DATA_PORT sc]\<rparr>))"
    and "video (keyboard_isr (delivering sc) c) = video (handle_scancode sc (c\<lparr>ports := ports c @ [In8 KEYBOARD_DATA_PORT sc]\<rparr>))"
  using assms by (simp_all add: keyboard_isr_def in_port_def delivering_def Let_def)

definition ready :: "console \<Rightarrow> bool" where
  "ready c \<longleftrightarrow> keyboard_input_on (kbd c) \<and> \<not> key_pressed (kbd c) \<and> \<not> backspace_pressed (kbd c)"

lemma printableD:
  assumes "printable sc"
  shows "0x02 \<le> sc" "sc \<le> 0x4A" "sc \<noteq> 0x0E" "sc \<noteq> 0x1C" "key_char sc \<noteq> 0"
    "keyboard_scancode_1_to_ascii_map ! unat sc \<noteq> 8" "keyboard_scancode_1_to_ascii_map ! unat sc = key_char sc"
  using assms by (simp_all add: printable_def map_backspace_iff key_char_def)

lemma release_code:
  assumes "printable sc"
  shows "0x80 \<le> sc + 0x80" "sc + 0x80 \<noteq> 0x9C" "keyboard_scancode_1_to_ascii_map ! unat (sc + 0x80) \<noteq> 8"
    "sc + 0x80 \<noteq> 0x1C" "\<not> sc + 0x80 \<le> 0x4A"
proof -
  have b: "unat sc \<le> 74" "unat sc \<noteq> 28" using printableD [OF assms]
    by (auto simp: word_le_nat_alt word_unat_eq_iff)
  then have u: "unat (sc + 0x80) = unat sc + 128" by (simp add: unat_word_ariths)
  show "0x80 \<le> sc + 0x80" "sc + 0x80 \<noteq> 0x9C" "sc + 0x80 \<noteq> 0x1C" "\<not> sc + 0x80 \<le> 0x4A"
    using b u by (auto simp: word_le_nat_alt word_unat_eq_iff)
  show "keyboard_scancode_1_to_ascii_map ! unat (sc + 0x80) \<noteq> 8"
    unfolding map_backspace_iff using b u by (auto simp: word_unat_eq_iff)
qed

lemma press_printable:
  assumes "printable sc" and "\<not> key_pressed (kbd c)"
  shows "handle_scancode sc c = move_cursor (krow (kbd c)) (kcol (kbd c) + 1)
    (echo (krow (kbd c)) (kcol (kbd c)) (key_char sc)
      (c\<lparr>kbd := (kbd c)\<lparr>keyboard_buffer := key_char sc, key_pressed := True\<rparr>\<rparr>))"
  using assms(2) printableD [OF assms(1)] by (simp add: handle_scancode_def Let_def)

lemma release_printable:
  assumes "printable sc" and "key_pressed (kbd c)" and "\<not> backspace_pressed (kbd c)"
  shows "handle_scancode (sc + 0x80) c
       = c\<lparr>kbd := (kbd c)\<lparr>key_pressed := False, kcol := kcol (kbd c) + 1\<rparr>\<rparr>"
  using assms(2,3) release_code [OF assms(1)] by (simp add: handle_scancode_def Let_def)

text \<open>A key that is held repeats its press code: nothing but the port trace changes.\<close>

lemma repeat_ignored:
  assumes "printable sc" and "key_pressed (kbd c)" and "keyboard_input_on (kbd c)"
  shows "kbd (keyboard_isr (delivering sc) c) = kbd c"
    and "video (keyboard_isr (delivering sc) c) = video c"
proof -
  have "\<not> 0x80 \<le> sc" "sc \<noteq> 0x9C" "sc \<noteq> 0xE0"
    using printableD(2) [OF assms(1)] by (auto simp: word_le_nat_alt)
  then have "handle_scancode sc c' = c'" if "kbd c' = kbd c" for c'
    using that assms(2) printableD [OF assms(1)] by (simp add: handle_scancode_def Let_def)
  then show "kbd (keyboard_isr (delivering sc) c) = kbd c"
    and "video (keyboard_isr (delivering sc) c) = video c"
    using assms(3) by (simp_all add: keyboard_isr_def in_port_def delivering_def Let_def)
qed

section \<open>Typing\<close>

text \<open>A key stroke with a reader that polls the buffer between press and release.\<close>

definition type_key :: "byte \<Rightarrow> console \<Rightarrow> byte \<times> console" where
  "type_key sc c =
     (let c1 = keyboard_isr (delivering sc) c
      in case get_keyboard_buffer (kbd c1) of
           (ch, k) \<Rightarrow> (ch, keyboard_isr (delivering (sc + 0x80)) (c1\<lparr>kbd := k\<rparr>)))"

fun type_keys :: "byte list \<Rightarrow> console \<Rightarrow> byte list \<times> console" where
  "type_keys [] c = ([], c)"
| "type_keys (sc # scs) c =
     (case type_key sc c of (ch, c1) \<Rightarrow> case type_keys scs c1 of (chs, c2) \<Rightarrow> (ch # chs, c2))"

lemma type_key_printable:
  assumes "printable sc" and "ready c"
  shows "fst (type_key sc c) = key_char sc"
    and "ready (snd (type_key sc c))"
    and "keyboard_buffer (kbd (snd (type_key sc c))) = 0"
    and "krow (kbd (snd (type_key sc c))) = krow (kbd c)"
    and "kcol (kbd (snd (type_key sc c))) = kcol (kbd c) + 1"
    and "kbd (snd (type_key sc c))
       = (kbd c)\<lparr>keyboard_buffer := 0, key_pressed := False, kcol := kcol (kbd c) + 1\<rparr>"
    and "video (snd (type_key sc c))
       = framebuffer_write (ucast (krow (kbd c))) (ucast (kcol (kbd c))) (key_char sc) 0x0F 0x00 (video c)"
proof -
  let ?c1 = "keyboard_isr (delivering sc) c"
  let ?c2 = "?c1\<lparr>kbd := (kbd ?c1)\<lparr>keyboard_buffer := 0\<rparr>\<rparr>"
  have on: "keyboard_input_on (kbd c)" "\<not> key_pressed (kbd c)" "\<not> backspace_pressed (kbd c)"
    using assms(2) by (simp_all add: ready_def)
  have c1: "kbd ?c1 = (kbd c)\<lparr>keyboard_buffer := key_char sc, key_pressed := True\<rparr>"
    "video ?c1 = framebuffer_write (ucast (krow (kbd c))) (ucast (kcol (kbd c))) (key_char sc) 0x0F 0x00 (video c)"
    using on press_printable [OF assms(1)] by (simp_all add: isr_delivering move_cursor_def echo_def)
  have c3: "kbd (keyboard_isr (delivering (sc + 0x80)) ?c2)
      = (kbd c)\<lparr>keyboard_buffer := 0, key_pressed := False, kcol := kcol (kbd c) + 1\<rparr>"
    "video (keyboard_isr (delivering (sc + 0x80)) ?c2) = video ?c1"
    using on release_printable [OF assms(1)] by (simp_all add: isr_delivering c1(1))
  have eq: "type_key sc c = (key_char sc, keyboard_isr (delivering (sc + 0x80)) ?c2)"
    by (simp add: type_key_def get_keyboard_buffer_def c1 Let_def)
  show "fst (type_key sc c) = key_char sc" "ready (snd (type_key sc c))"
    "keyboard_buffer (kbd (snd (type_key sc c))) = 0"
    "krow (kbd (snd (type_key sc c))) = krow (kbd c)"
    "kcol (kbd (snd (type_key sc c))) = kcol (kbd c) + 1"
    "kbd (snd (type_key sc c))
       = (kbd c)\<lparr>keyboard_buffer := 0, key_pressed := False, kcol := kcol (kbd c) + 1\<rparr>"
    "video (snd (type_key sc c))
       = framebuffer_write (ucast (krow (kbd c))) (ucast (kcol (kbd c))) (key_char sc) 0x0F 0x00 (video c)"
    using on by (simp_all add: eq c3 c1(2) ready_def)
qed

lemma ucast_of_nat_u8: "(ucast (of_nat m :: u32) :: u8) = of_nat m"
  by (simp add: unsigned_of_nat word_unat_eq_iff unat_of_nat take_bit_eq_mod mod_mod_cancel)

lemma type_keys_spec:
  assumes "list_all printable scs" and "ready c"
    and "krow (kbd c) = of_nat r" and "r < SCREEN_ROWS"
    and "kcol (kbd c) = of_nat n" and "n + length scs \<le> SCREEN_COLS"
  shows "fst (type_keys scs c) = map key_char scs \<and> ready (snd (type_keys scs c))
    \<and> krow (kbd (snd (type_keys scs c))) = of_nat r
    \<and> kcol (kbd (snd (type_keys scs c))) = of_nat (n + length scs)
    \<and> (\<forall>y x. on_screen (y, x) \<longrightarrow> cell (video (snd (type_keys scs c))) (y, x)
         = (if unat y = r \<and> n \<le> unat x \<and> unat x < n + length scs
            then [key_char (scs ! (unat x - n)), 0x0F] else cell (video c) (y, x)))"
  using assms
proof (induction scs arbitrary: c n)
  case Nil
  then show ?case by auto
next
  case (Cons sc scs)
  let ?c1 = "snd (type_key sc c)"
  have p: "printable sc" using Cons.prems(1) by simp
  note k = type_key_printable [OF p Cons.prems(2)]
  have n: "n < 80" using Cons.prems(6) by simp
  have col: "kcol (kbd ?c1) = of_nat (Suc n)" using k(5) Cons.prems(5) by simp
  have row: "krow (kbd ?c1) = of_nat r" using k(4) Cons.prems(3) by simp
  have b: "n + 1 + length scs \<le> 80" "list_all printable scs" using Cons.prems by simp_all
  note IH = Cons.IH [OF b(2) k(2) row Cons.prems(4) col]
  have v: "video ?c1 = framebuffer_write (of_nat r) (of_nat n) (key_char sc) 0x0F 0 (video c)"
    using k(7) Cons.prems(3,5) by (simp add: ucast_of_nat_u8)
  have on: "on_screen (of_nat r, of_nat n)"
    using n Cons.prems(4) by (simp add: on_screen_def unat_of_nat)
  have pos: "y = of_nat r \<and> x = of_nat n \<longleftrightarrow> unat y = r \<and> unat x = n" for y x :: u8
    using n Cons.prems(4) by (auto simp: unat_of_nat)
  have c1: "cell (video ?c1) (y, x) = (if unat y = r \<and> unat x = n then [key_char sc, 0x0F] else cell (video c) (y, x))"
    if "on_screen (y, x)" for y x
    using cell_framebuffer_write [OF on that, of "key_char sc" "0x0F" 0 "video c"] pos [of y x] by (simp add: v)
  have eq: "type_keys (sc # scs) c = (key_char sc # fst (type_keys scs ?c1), snd (type_keys scs ?c1))"
    using k(1) by (cases "type_key sc c"; cases "type_keys scs ?c1") simp
  have "cell (video (snd (type_keys scs ?c1))) (y, x)
         = (if unat y = r \<and> n \<le> unat x \<and> unat x < n + length (sc # scs)
            then [key_char ((sc # scs) ! (unat x - n)), 0x0F] else cell (video c) (y, x))"
    if o: "on_screen (y, x)" for y x
  proof (cases "unat y = r \<and> Suc n \<le> unat x \<and> unat x < Suc n + length scs")
    case True
    then have "unat x - n = Suc (unat x - Suc n)" by linarith
    with True IH b o show ?thesis by simp
  next
    case False
    then have "cell (video (snd (type_keys scs ?c1))) (y, x) = cell (video ?c1) (y, x)"
      using IH b o by auto
    with False c1 [OF o] show ?thesis by (cases "unat x = n") auto
  qed
  with IH b show ?case unfolding eq by simp
qed

section \<open>Enter and backspace\<close>

lemma press_enter:
  assumes "ready c"
  shows "kbd (keyboard_isr (delivering 0x1C) c)
      = (kbd c)\<lparr>krow := krow (kbd c) + 1, kcol := 0, key_pressed := True, keyboard_buffer := 10\<rparr>"
    and "video (keyboard_isr (delivering 0x1C) c) = video c"
  using assms map_backspace_iff [of "0x1C"]
  by (simp_all add: isr_delivering ready_def handle_scancode_def move_cursor_def Let_def
      keyboard_state_activate_def keyboard_state_deactivate_def)

lemma release_enter:
  assumes "keyboard_input_on (kbd c)" and "\<not> backspace_pressed (kbd c)"
  shows "kbd (keyboard_isr (delivering 0x9C) c) = (kbd c)\<lparr>key_pressed := False\<rparr>"
    and "video (keyboard_isr (delivering 0x9C) c) = video c"
  using assms map_backspace_iff [of "0x9C"]
  by (simp_all add: isr_delivering handle_scancode_def Let_def)

lemma press_backspace:
  assumes "keyboard_input_on (kbd c)" and "1 \<le>s kcol (kbd c)"
  shows "kbd (keyboard_isr (delivering 0x0E) c)
      = (kbd c)\<lparr>backspace_pressed := True, kcol := kcol (kbd c) - 1, keyboard_buffer := 0\<rparr>"
    and "video (keyboard_isr (delivering 0x0E) c)
      = framebuffer_write (ucast (krow (kbd c))) (ucast (kcol (kbd c) - 1)) 0 0x0F 0x00 (video c)"
  using assms map_backspace_iff [of "0x0E"]
  by (simp_all add: isr_delivering handle_scancode_def move_cursor_def echo_def Let_def)

lemma release_backspace:
  assumes "keyboard_input_on (kbd c)" and "backspace_pressed (kbd c)" and "keyboard_buffer (kbd c) = 0"
  shows "kbd (keyboard_isr (delivering 0x8E) c) = (kbd c)\<lparr>backspace_pressed := False\<rparr>"
    and "video (keyboard_isr (delivering 0x8E) c) = video c"
  using assms map_backspace_iff [of "0x8E"]
  by (simp_all add: isr_delivering handle_scancode_def Let_def)

lemma sint_u32:
  fixes w :: u32
  assumes "unat w < 2 ^ 31"
  shows "sint w = int (unat w)"
proof -
  have "int (unat w) < int (2 ^ 31)" using assms by (simp only: of_nat_less_iff)
  then have "uint w < 2 ^ 31" by simp
  then have "signed_take_bit 31 (uint w) = uint w"
    by (intro signed_take_bit_int_eq_self) (use uint_ge_0 [of w] in linarith)+
  then have "sint w = uint w" by (simp add: sint_uint)
  then show ?thesis using uint_nat [of w] by linarith
qed

text \<open>Typing a key and erasing it: the screen and the column are back, and the reader has the character.\<close>

lemma erase_key:
  assumes sc: "printable sc" and c: "ready c" and n: "kcol (kbd c) = of_nat n" "n < SCREEN_COLS"
    and r: "krow (kbd c) = of_nat r" "r < SCREEN_ROWS"
  defines "c1 \<equiv> snd (type_key sc c)"
  shows "fst (type_key sc c) = key_char sc" and "fst (type_key 0x0E c1) = 0"
    and "kbd (snd (type_key 0x0E c1)) = (kbd c)\<lparr>keyboard_buffer := 0\<rparr>"
    and "cell (video (snd (type_key 0x0E c1))) (of_nat r, of_nat n) = [0, 0x0F]"
proof -
  note k = type_key_printable [OF sc c, folded c1_def]
  show "fst (type_key sc c) = key_char sc" by (rule k(1))
  have kb: "kbd c1 = (kbd c)\<lparr>keyboard_buffer := 0, kcol := kcol (kbd c) + 1\<rparr>"
    using k(6) c by (simp add: ready_def)
  have on: "keyboard_input_on (kbd c1)" using c by (simp add: kb ready_def)
  have "unat (kcol (kbd c1)) = Suc n" using n by (simp add: kb unat_word_ariths)
  then have pos: "1 \<le>s kcol (kbd c1)" using n by (simp add: word_sle_eq sint_u32)
  let ?c2 = "keyboard_isr (delivering 0x0E) c1"
  let ?c3 = "?c2\<lparr>kbd := (kbd ?c2)\<lparr>keyboard_buffer := 0\<rparr>\<rparr>"
  note p = press_backspace [OF on pos]
  have t: "type_key 0x0E c1 = (0, keyboard_isr (delivering 0x8E) ?c3)"
    by (simp add: type_key_def get_keyboard_buffer_def p(1))
  have "keyboard_input_on (kbd ?c3)" "backspace_pressed (kbd ?c3)" "keyboard_buffer (kbd ?c3) = 0"
    using on by (simp_all add: p(1))
  note q = release_backspace [OF this]
  show "fst (type_key 0x0E c1) = 0" by (simp add: t)
  show "kbd (snd (type_key 0x0E c1)) = (kbd c)\<lparr>keyboard_buffer := 0\<rparr>"
    unfolding t snd_conv q(1) using c by (simp add: p(1) kb ready_def)
  have os: "on_screen (of_nat r, of_nat n)" using n r by (simp add: on_screen_def unat_of_nat)
  have "video (snd (type_key 0x0E c1)) = framebuffer_write (of_nat r) (of_nat n) 0 0x0F 0 (video c1)"
    unfolding t snd_conv q(2) using n r by (simp add: p(2) kb ucast_of_nat_u8)
  then show "cell (video (snd (type_key 0x0E c1))) (of_nat r, of_nat n) = [0, 0x0F]"
    using cell_framebuffer_write [OF os os] by simp
qed

end
