(* ===== verification/Terminal.thy ===== *)
theory Terminal
  imports Keyboard
begin

unbundle bit_operations_syntax

text \<open>
  Printing (\<open>puts\<close>, \<open>puts_terminal\<close> and \<open>update_cursor_position\<close> of \<open>src/interrupt.c\<close>).
  The string is read from the memory that also holds the screen. The abstract view is a
  text position in the 2000 cells: \<open>puts\<close> is a fold of one-character steps over the string
  up to its terminator, each of which fills the cell at the position or starts the next line,
  both modulo the size of the screen. \<open>put_on\<close> is that step on the cells alone.
\<close>

section \<open>Operations\<close>

definition update_cursor_position :: "console \<Rightarrow> console" where
  "update_cursor_position c = c\<lparr>ports := framebuffer_set_cursor (cursor_row c) (cursor_col c) (ports c)\<rparr>"

text \<open>The body of the loop of \<open>puts\<close>, after the test for the terminator.\<close>

definition put_char :: "u8 \<Rightarrow> u8 \<Rightarrow> byte \<Rightarrow> console \<Rightarrow> console" where
  "put_char fg bg ch c =
     (let c1 =
        (if ch = 10 then
           (let c = c\<lparr>cursor_row := cursor_row c + 1, cursor_col := 0\<rparr>
            in set_row (ucast (cursor_row c)) (set_col (ucast (cursor_col c)) c))
         else
           (let c = c\<lparr>video := framebuffer_write (cursor_row c) (cursor_col c) ch fg bg (video c),
                      cursor_col := cursor_col c + 1\<rparr>;
                c = set_col (ucast (cursor_col c)) c
            in if 80 \<le> cursor_col c then
                 (let c = c\<lparr>cursor_col := 0, cursor_row := cursor_row c + 1\<rparr>
                  in set_row (ucast (cursor_row c)) (set_col (ucast (cursor_col c)) c))
               else c))
      in if 25 \<le> cursor_row c1 then set_col (ucast (cursor_col c1)) (c1\<lparr>cursor_row := 0\<rparr>) else c1)"

fun puts_loop :: "u32 \<Rightarrow> nat \<Rightarrow> u8 \<Rightarrow> u8 \<Rightarrow> console \<Rightarrow> console" where
  "puts_loop s 0 fg bg c = c"
| "puts_loop s (Suc n) fg bg c =
     (if video c s = 0 then c else puts_loop (s + 1) n fg bg (put_char fg bg (video c s) c))"

definition puts :: "u32 \<Rightarrow> u32 \<Rightarrow> u32 \<Rightarrow> console \<Rightarrow> console" where
  "puts s n attr c =
     update_cursor_position
       (puts_loop s (unat n) (ucast (attr AND 0x0F)) (ucast (drop_bit 4 attr AND 0x0F)) c)"

text \<open>\<open>puts_terminal\<close> writes to row 0, the value that \<open>row_now\<close> always has.\<close>

fun puts_terminal_loop :: "u32 \<Rightarrow> nat \<Rightarrow> nat \<Rightarrow> u32 \<Rightarrow> memory \<Rightarrow> memory" where
  "puts_terminal_loop s i 0 color m = m"
| "puts_terminal_loop s i (Suc n) color m =
     puts_terminal_loop s (Suc i) n color
       (framebuffer_write 0 (of_nat i) (m (s + of_nat i)) (ucast color) 0 m)"

definition puts_terminal :: "u32 \<Rightarrow> u32 \<Rightarrow> u32 \<Rightarrow> memory \<Rightarrow> memory" where
  "puts_terminal s n color m = puts_terminal_loop s 0 (unat n) color m"

section \<open>The text position\<close>

definition cursor_ok :: "console \<Rightarrow> bool" where
  "cursor_ok c \<longleftrightarrow> on_screen (cursor_row c, cursor_col c)"

definition text_pos :: "console \<Rightarrow> nat" where
  "text_pos c = unat (cursor_row c) * 80 + unat (cursor_col c)"

definition next_pos :: "byte \<Rightarrow> nat \<Rightarrow> nat" where
  "next_pos ch p = (if ch = 10 then (p div 80 + 1) * 80 mod 2000 else (p + 1) mod 2000)"

lemma cursor_okD: "cursor_ok c \<Longrightarrow> unat (cursor_row c) < 25 \<and> unat (cursor_col c) < 80"
  by (simp add: cursor_ok_def on_screen_def)

lemma text_pos_div: "cursor_ok c \<Longrightarrow> text_pos c div 80 = unat (cursor_row c) \<and> text_pos c mod 80 = unat (cursor_col c)"
  using cursor_okD [of c] by (simp add: text_pos_def)

lemma set_row_col_simps [simp]:
  "cursor_row (set_row v c) = cursor_row c" "cursor_col (set_row v c) = cursor_col c"
  "cursor_row (set_col v c) = cursor_row c" "cursor_col (set_col v c) = cursor_col c"
  "video (set_row v c) = video c" "video (set_col v c) = video c"
  "ports (set_row v c) = ports c" "ports (set_col v c) = ports c"
  "kbd (set_row v c) = (kbd c)\<lparr>krow := v\<rparr>" "kbd (set_col v c) = (kbd c)\<lparr>kcol := v\<rparr>"
  by (simp_all add: set_row_def set_col_def)

lemma unat_Suc_small: "unat (w :: u8) < 80 \<Longrightarrow> unat (w + 1) = Suc (unat w)"
  by (simp add: unat_word_ariths)

lemma put_char_video:
  "video (put_char fg bg ch c) =
     (if ch = 10 then video c else framebuffer_write (cursor_row c) (cursor_col c) ch fg bg (video c))"
  by (simp add: put_char_def Let_def)

lemma put_char_pos:
  assumes "cursor_ok c"
  shows "cursor_ok (put_char fg bg ch c)" and "text_pos (put_char fg bg ch c) = next_pos ch (text_pos c)"
    and "kcol (kbd (put_char fg bg ch c)) = ucast (cursor_col (put_char fg bg ch c))"
proof -
  let ?c = "put_char fg bg ch c" let ?r = "cursor_row c" let ?l = "cursor_col c"
  have b: "unat ?r < 25" "unat ?l < 80" using cursor_okD [OF assms] by simp_all
  have r1: "unat (?r + 1) = Suc (unat ?r)" and l1: "unat (?l + 1) = Suc (unat ?l)"
    using b by (simp_all add: unat_Suc_small)
  have le: "25 \<le> w \<longleftrightarrow> 25 \<le> unat w" "80 \<le> w \<longleftrightarrow> 80 \<le> unat w" for w :: u8
    by (simp_all add: word_le_nat_alt)
  have row: "unat (cursor_row ?c) =
      (if ch = 10 \<or> unat ?l = 79 then (if unat ?r = 24 then 0 else Suc (unat ?r)) else unat ?r)"
    using b by (auto simp: put_char_def Let_def le r1 l1)
  have col: "unat (cursor_col ?c) = (if ch = 10 \<or> unat ?l = 79 then 0 else Suc (unat ?l))"
    using b by (auto simp: put_char_def Let_def le r1 l1)
  show "cursor_ok ?c" using b row col by (auto simp: cursor_ok_def on_screen_def)
  have q: "text_pos c div 80 = unat ?r" using text_pos_div [OF assms] by simp
  have "(text_pos c + 1) mod 2000 = (if unat ?r = 24 \<and> unat ?l = 79 then 0 else text_pos c + 1)"
    using b by (auto simp: text_pos_def)
  moreover have "(unat ?r + 1) * 80 mod 2000 = (if unat ?r = 24 then 0 else (unat ?r + 1) * 80)"
    using b by auto
  ultimately show "text_pos ?c = next_pos ch (text_pos c)"
    unfolding next_pos_def q using row col by (auto simp: text_pos_def)
  show "kcol (kbd ?c) = ucast (cursor_col ?c)"
    by (simp add: put_char_def Let_def)
qed

section \<open>puts as a fold over its string\<close>

definition off_screen :: "u32 \<Rightarrow> bool" where
  "off_screen a \<longleftrightarrow> 4000 \<le> unat (a - FRAMEBUFFER_MEMORY_OFFSET)"

lemma framebuffer_write_off_screen:
  assumes "on_screen (r, l)" and "off_screen a"
  shows "framebuffer_write r l ch fg bg m a = m a"
proof -
  have i: "frame_buffer_index r l + 1 < 4000"
    using assms(1) by (simp add: on_screen_def frame_buffer_index_def)
  have "a \<noteq> fb_addr n" if "n < 4000" for n
    using that assms(2) unat_fb_addr [of n] by (auto simp: off_screen_def)
  from this [of "frame_buffer_index r l"] this [of "frame_buffer_index r l + 1"] i show ?thesis
    by (simp add: framebuffer_write_def Let_def)
qed

lemma put_char_off_screen:
  assumes "cursor_ok c" and "off_screen a"
  shows "video (put_char fg bg ch c) a = video c a"
  using assms framebuffer_write_off_screen [of "cursor_row c" "cursor_col c" a]
  by (simp add: put_char_video cursor_ok_def)

definition print :: "u8 \<Rightarrow> u8 \<Rightarrow> byte list \<Rightarrow> console \<Rightarrow> console" where
  "print fg bg bs c = fold (put_char fg bg) bs c"

lemma print_simps [simp]:
  "print fg bg [] c = c"
  "print fg bg (b # bs) c = print fg bg bs (put_char fg bg b c)"
  by (simp_all add: print_def)

lemma print_ok:
  "cursor_ok c \<Longrightarrow> cursor_ok (print fg bg bs c) \<and> text_pos (print fg bg bs c) = fold next_pos bs (text_pos c)
     \<and> (\<forall>a. off_screen a \<longrightarrow> video (print fg bg bs c) a = video c a)"
  by (induction bs arbitrary: c) (simp_all add: put_char_pos put_char_off_screen)

lemma puts_loop_print:
  assumes "cursor_ok c" and "\<forall>i < n. off_screen (s + of_nat i)"
  shows "puts_loop s n fg bg c = print fg bg (takeWhile (\<lambda>b. b \<noteq> 0) (mem_read (video c) s n)) c"
  using assms
proof (induction n arbitrary: s c)
  case 0
  then show ?case by simp
next
  case (Suc n)
  let ?c = "put_char fg bg (video c s) c"
  have off: "\<forall>i < n. off_screen (s + 1 + of_nat i)"
    using Suc.prems(2) by (auto dest: spec [of _ "Suc _"] simp: algebra_simps)
  have "mem_read (video ?c) (s + 1) n = mem_read (video c) (s + 1) n"
    using off put_char_off_screen [OF Suc.prems(1)] by (simp add: mem_read_def)
  with Suc.IH [OF put_char_pos(1) [OF Suc.prems(1)] off] show ?case
    by (simp add: mem_read_Suc)
qed

lemma update_cursor_simps [simp]:
  "kbd (update_cursor_position c) = kbd c" "cursor_row (update_cursor_position c) = cursor_row c"
  "cursor_col (update_cursor_position c) = cursor_col c" "video (update_cursor_position c) = video c"
  "cursor_ok (update_cursor_position c) = cursor_ok c" "text_pos (update_cursor_position c) = text_pos c"
  by (simp_all add: update_cursor_position_def cursor_ok_def text_pos_def)

lemma puts_loop_ok:
  "cursor_ok c \<Longrightarrow> cursor_ok (puts_loop s n fg bg c) \<and> (\<forall>a. off_screen a \<longrightarrow> video (puts_loop s n fg bg c) a = video c a)"
  by (induction s n fg bg c rule: puts_loop.induct) (simp_all add: put_char_pos put_char_off_screen)

lemma puts_ok:
  assumes "cursor_ok c"
  shows "cursor_ok (puts s n attr c)" and "off_screen a \<Longrightarrow> video (puts s n attr c) a = video c a"
  using puts_loop_ok [OF assms] by (simp_all add: puts_def)

text \<open>The cells of text without line breaks that fits before the end of the screen.\<close>

definition cell_at :: "memory \<Rightarrow> nat \<Rightarrow> byte list" where
  "cell_at m p = cell m (of_nat (p div 80), of_nat (p mod 80))"

lemma cell_at_on_screen:
  assumes "p < 2000"
  shows "on_screen (of_nat (p div 80), of_nat (p mod 80))"
proof -
  have "p div 80 < 25" "p mod 80 < 80" using assms by (simp_all add: div_less_iff_less_mult)
  then show ?thesis by (simp add: on_screen_def unat_of_nat)
qed

lemma put_char_cell:
  assumes "cursor_ok c" and "ch \<noteq> 10" and "p < 2000"
  shows "cell_at (video (put_char fg bg ch c)) p
       = (if p = text_pos c then [ch, push_bit 4 bg OR fg] else cell_at (video c) p)"
proof -
  have b: "p div 80 < 25" "p mod 80 < 80" using assms(3) by (simp_all add: div_less_iff_less_mult)
  have "of_nat (p div 80) = cursor_row c \<and> of_nat (p mod 80) = cursor_col c \<longleftrightarrow>
      p div 80 = unat (cursor_row c) \<and> p mod 80 = unat (cursor_col c)"
    using b by (auto simp: word_unat_eq_iff unat_of_nat)
  also have "\<dots> \<longleftrightarrow> p = text_pos c"
    using text_pos_div [OF assms(1)] by (metis div_mult_mod_eq)
  finally show ?thesis
    using cell_framebuffer_write [OF assms(1) [unfolded cursor_ok_def] cell_at_on_screen [OF assms(3)]] assms(2)
    by (simp add: cell_at_def put_char_video)
qed

lemma print_cells:
  assumes "cursor_ok c" and "10 \<notin> set bs" and "text_pos c + length bs < 2000" and "p < 2000"
  shows "cell_at (video (print fg bg bs c)) p
       = (if text_pos c \<le> p \<and> p < text_pos c + length bs
          then [bs ! (p - text_pos c), push_bit 4 bg OR fg] else cell_at (video c) p)"
  using assms(1-3)
proof (induction bs arbitrary: c)
  case Nil
  then show ?case by auto
next
  case (Cons b bs)
  let ?c = "put_char fg bg b c"
  have nl: "b \<noteq> 10" using Cons.prems(2) by auto
  have pos: "text_pos ?c = Suc (text_pos c)"
    using put_char_pos(2) [OF Cons.prems(1)] nl Cons.prems(3) by (simp add: next_pos_def)
  have IH: "cell_at (video (print fg bg bs ?c)) p
      = (if Suc (text_pos c) \<le> p \<and> p < Suc (text_pos c) + length bs
         then [bs ! (p - Suc (text_pos c)), push_bit 4 bg OR fg] else cell_at (video ?c) p)"
    using Cons.IH [OF put_char_pos(1) [OF Cons.prems(1)]] Cons.prems pos by simp
  show ?case
  proof (cases "Suc (text_pos c) \<le> p \<and> p < Suc (text_pos c) + length bs")
    case True
    then have "p - text_pos c = Suc (p - Suc (text_pos c))" by linarith
    with True IH show ?thesis by simp
  next
    case False
    with IH put_char_cell [OF Cons.prems(1) nl assms(4)] show ?thesis by (cases "p = text_pos c") auto
  qed
qed

section \<open>The screen as cells\<close>

text \<open>
  The text position and the 2000 cells. Every string is printed on them one character after the
  other, whatever line breaks and wraps it has.
\<close>

type_synonym screen = "nat \<times> (nat \<Rightarrow> byte list)"

definition cells :: "memory \<Rightarrow> nat \<Rightarrow> byte list" where
  "cells m p = (if p < 2000 then cell_at m p else [])"

text \<open>One character in an ink: a line break moves the position, any other fills the cell.\<close>

definition put_on :: "u8 \<Rightarrow> byte \<Rightarrow> screen \<Rightarrow> screen" where
  "put_on ink ch = (\<lambda>(p, cs). (next_pos ch p, if ch = 10 then cs else cs(p := [ch, ink])))"

lemma text_pos_less: "cursor_ok c \<Longrightarrow> text_pos c < 2000"
  using cursor_okD [of c] by (simp add: text_pos_def)

lemma put_char_screen:
  assumes "cursor_ok c"
  shows "(text_pos (put_char fg bg ch c), cells (video (put_char fg bg ch c)))
       = put_on (push_bit 4 bg OR fg) ch (text_pos c, cells (video c))"
proof -
  have "cells (video (put_char fg bg ch c)) p
      = (if ch = 10 then cells (video c) else (cells (video c))(text_pos c := [ch, push_bit 4 bg OR fg])) p" for p
    using put_char_cell [OF assms, of ch p fg bg] text_pos_less [OF assms]
    by (auto simp: cells_def put_char_video)
  then show ?thesis
    using put_char_pos(2) [OF assms] by (auto simp: put_on_def)
qed

lemma print_screen:
  "cursor_ok c \<Longrightarrow> (text_pos (print fg bg bs c), cells (video (print fg bg bs c)))
     = fold (put_on (push_bit 4 bg OR fg)) bs (text_pos c, cells (video c))"
  by (induction bs arbitrary: c) (simp_all add: put_char_screen put_char_pos(1))

lemma put_char_ports: "ports (put_char fg bg ch c) = ports c"
  by (simp add: put_char_def Let_def)

lemma print_ports: "ports (print fg bg bs c) = ports c"
  by (induction bs arbitrary: c) (simp_all add: put_char_ports)

lemma update_cursor_ports:
  "ports (update_cursor_position c) = framebuffer_set_cursor (cursor_row c) (cursor_col c) (ports c)"
  by (simp add: update_cursor_position_def)

end
