(* ===== verification/Paging.thy ===== *)
theory Paging
  imports Bytes
begin

unbundle bit_operations_syntax

text \<open>
  The page manager (\<open>src/paging.c\<close>, \<open>header/memory/paging.h\<close>): page directory entries for
  4 MiB pages, the kernel's directory, and the frame map with its free counter. The frame map
  is an array of 32 booleans: \<open>paging_free_user_page_frame\<close> may be led past its end by an
  entry that the caller wrote, which is a fault here.

  \<open>paging_inv\<close> is the invariant of manager and directory: the counter counts the free frames,
  frame 0 is taken, and every present entry above the kernel's maps a frame that is taken and
  that no other entry maps. \<open>frame_pool\<close> states what the page manager promises as an allocator;
  the interpretation at the end discharges it for this one.
\<close>

section \<open>Data\<close>

record pde_flag =
  present_bit :: bool
  write_bit :: bool
  user_bit :: bool
  write_through_bit :: bool
  cache_disabled_bit :: bool
  accessed_bit :: bool
  dirty_bit :: bool
  page_size_bit :: bool

record pde =
  pflag :: pde_flag
  lower_address :: "10 word"
  reserved_1 :: bool
  available :: "3 word"
  higher_address :: "8 word"

type_synonym page_directory = "pde list"

record page_manager =
  page_frame_map :: "bool list"
  free_page_frame_count :: u32

abbreviation (input) PAGE_ENTRY_COUNT :: nat where "PAGE_ENTRY_COUNT \<equiv> 1024"
abbreviation (input) PAGE_FRAME_SIZE :: u32 where "PAGE_FRAME_SIZE \<equiv> 0x400000"
abbreviation (input) PAGE_FRAME_MAX_COUNT :: nat where "PAGE_FRAME_MAX_COUNT \<equiv> 32"

definition zero_flag :: pde_flag where
  "zero_flag = \<lparr>present_bit = False, write_bit = False, user_bit = False, write_through_bit = False,
     cache_disabled_bit = False, accessed_bit = False, dirty_bit = False, page_size_bit = False\<rparr>"

definition zero_pde :: pde where
  "zero_pde = \<lparr>pflag = zero_flag, lower_address = 0, reserved_1 = False, available = 0, higher_address = 0\<rparr>"

definition kernel_pde :: pde where
  "kernel_pde = zero_pde\<lparr>pflag := zero_flag\<lparr>present_bit := True, write_bit := True, page_size_bit := True\<rparr>\<rparr>"

definition kernel_page_directory :: page_directory where
  "kernel_page_directory = (replicate PAGE_ENTRY_COUNT zero_pde)[0 := kernel_pde, 0x300 := kernel_pde]"

definition initial_page_manager :: page_manager where
  "initial_page_manager = \<lparr>page_frame_map = True # replicate (PAGE_FRAME_MAX_COUNT - 1) False,
     free_page_frame_count = of_nat (PAGE_FRAME_MAX_COUNT - 1)\<rparr>"

section \<open>Operations\<close>

definition page_index :: "u32 \<Rightarrow> nat" where
  "page_index virtual_addr = unat (drop_bit 22 virtual_addr AND 0x3FF)"

text \<open>\<open>invlpg\<close> drops a cached translation, which the model does not keep: it has no effect here.\<close>

definition update_page_directory_entry :: "page_directory \<Rightarrow> u32 \<Rightarrow> u32 \<Rightarrow> pde_flag \<Rightarrow> page_directory" where
  "update_page_directory_entry page_dir physical_addr virtual_addr flag =
     (let i = page_index virtual_addr
      in page_dir[i := (page_dir ! i)\<lparr>pflag := flag, lower_address := ucast (drop_bit 22 physical_addr AND 0x3FF)\<rparr>])"

definition paging_allocate_check :: "page_manager \<Rightarrow> u32 \<Rightarrow> bool" where
  "paging_allocate_check st amount \<longleftrightarrow> amount \<le> free_page_frame_count st * PAGE_FRAME_SIZE"

definition user_flag :: pde_flag where
  "user_flag = zero_flag\<lparr>present_bit := True, write_bit := True, user_bit := True, page_size_bit := True\<rparr>"

fun first_free :: "nat \<Rightarrow> bool list \<Rightarrow> nat option" where
  "first_free i [] = None"
| "first_free i (used # rest) = (if \<not> used then Some i else first_free (Suc i) rest)"

definition paging_allocate_user_page_frame ::
    "page_directory \<Rightarrow> u32 \<Rightarrow> page_manager \<Rightarrow> bool \<times> page_directory \<times> page_manager" where
  "paging_allocate_user_page_frame page_dir virtual_addr st =
     (case first_free 0 (page_frame_map st) of
        None \<Rightarrow> (False, page_dir, st)
      | Some i \<Rightarrow>
          (True,
           update_page_directory_entry page_dir (of_nat i * PAGE_FRAME_SIZE) virtual_addr user_flag,
           st\<lparr>page_frame_map := (page_frame_map st)[i := True],
              free_page_frame_count := free_page_frame_count st - 1\<rparr>))"

definition paging_free_user_page_frame ::
    "page_directory \<Rightarrow> u32 \<Rightarrow> page_manager \<Rightarrow> (bool \<times> page_directory \<times> page_manager) outcome" where
  "paging_free_user_page_frame page_dir virtual_addr st =
     (let i = page_index virtual_addr;
          physical_addr = push_bit 22 (ucast (lower_address (page_dir ! i)) :: u32);
          f = unat (physical_addr div PAGE_FRAME_SIZE)
      in if \<not> present_bit (pflag (page_dir ! i)) then Inr (False, page_dir, st)
         else if length (page_frame_map st) \<le> f then Inl OutOfBounds
         else if \<not> page_frame_map st ! f then Inr (False, page_dir, st)
         else Inr (True, page_dir[i := zero_pde],
                st\<lparr>page_frame_map := (page_frame_map st)[f := False],
                   free_page_frame_count := free_page_frame_count st + 1\<rparr>))"

section \<open>Addresses and frames\<close>

lemma page_index_eq: "page_index v = unat v div 2 ^ 22"
proof -
  have "(drop_bit 22 v AND 0x3FF :: u32) = take_bit 10 (drop_bit 22 v)"
    by (simp add: take_bit_eq_mask mask_eq_exp_minus_1)
  then have "page_index v = unat v div 2 ^ 22 mod 2 ^ 10"
    by (simp add: page_index_def take_bit_eq_mod drop_bit_eq_div unat_mod unat_div)
  moreover have "unat v div 2 ^ 22 < 2 ^ 10" by (simp add: div_less_iff_less_mult)
  ultimately show ?thesis by simp
qed

lemma page_index_less [simp]: "page_index v < 1024"
  by (simp add: page_index_eq div_less_iff_less_mult)

definition entry_frame :: "pde \<Rightarrow> nat" where
  "entry_frame e = unat (lower_address e)"

lemma unat_u10_lt [simp]: "unat (w :: 10 word) < 1024"
  using unsigned_less [of w] by simp

lemma freed_frame:
  "unat (push_bit 22 (ucast (lower_address e) :: u32) div PAGE_FRAME_SIZE) = entry_frame e"
proof -
  have l: "unat (lower_address e) < 2 ^ 10" using unat_u10_lt [of "lower_address e"] by simp
  then have "unat (lower_address e) < 2 ^ 32" by (rule less_trans) simp
  then have "unat (ucast (lower_address e) :: u32) = unat (lower_address e)"
    by (simp add: unsigned_ucast_eq take_bit_nat_eq_self)
  with l have "unat (push_bit 22 (ucast (lower_address e) :: u32)) = unat (lower_address e) * 2 ^ 22"
    by (simp add: push_bit_eq_mult unat_word_ariths)
  then show ?thesis by (simp add: unat_div entry_frame_def)
qed

lemma allocated_frame:
  assumes "i < PAGE_FRAME_MAX_COUNT"
  shows "entry_frame (e\<lparr>pflag := f, lower_address := ucast (drop_bit 22 (of_nat i * PAGE_FRAME_SIZE) AND 0x3FF :: u32)\<rparr>) = i"
proof -
  have "unat (of_nat i * PAGE_FRAME_SIZE :: u32) = i * 2 ^ 22"
    using assms by (simp add: unat_word_ariths)
  then have "page_index (of_nat i * PAGE_FRAME_SIZE) = i" by (simp add: page_index_eq)
  moreover have "unat (ucast (w AND 0x3FF :: u32) :: 10 word) = unat (w AND 0x3FF)" for w :: u32
  proof -
    have "(w AND 0x3FF) = take_bit 10 w" by (simp add: take_bit_eq_mask mask_eq_exp_minus_1)
    then show ?thesis by (simp add: unsigned_ucast_eq unsigned_take_bit_eq)
  qed
  ultimately show ?thesis by (simp add: entry_frame_def page_index_def)
qed

lemma first_free_Some_iff:
  "first_free k xs = Some i \<longleftrightarrow>
     k \<le> i \<and> i < k + length xs \<and> \<not> xs ! (i - k) \<and> (\<forall>j < i - k. xs ! j)"
proof (induction xs arbitrary: k)
  case Nil
  then show ?case by auto
next
  case (Cons x xs)
  show ?case
  proof (cases "x")
    case False
    have "i = k" if "k \<le> i" "\<forall>j < i - k. (x # xs) ! j"
      using that False by (metis le_neq_implies_less nth_Cons_0 zero_less_diff)
    with False show ?thesis by auto
  next
    case True
    have "(Suc k \<le> i \<and> i < Suc k + length xs \<and> \<not> xs ! (i - Suc k) \<and> (\<forall>j < i - Suc k. xs ! j))
      \<longleftrightarrow> (k \<le> i \<and> i < k + length (x # xs) \<and> \<not> (x # xs) ! (i - k) \<and> (\<forall>j < i - k. (x # xs) ! j))"
    proof (cases "k < i")
      case True
      then have "i - k = Suc (i - Suc k)" by simp
      with True \<open>x\<close> show ?thesis by (auto simp: All_less_Suc2)
    next
      case False
      with \<open>x\<close> show ?thesis by (cases "i = k") auto
    qed
    with True Cons.IH [of "Suc k"] show ?thesis by simp
  qed
qed

lemma first_free_None_iff: "first_free k xs = None \<longleftrightarrow> (\<forall>x \<in> set xs. x)"
  by (induction xs arbitrary: k) auto

section \<open>The invariant\<close>

type_synonym paging_state = "page_directory \<times> page_manager"

abbreviation (input) KERNEL_PAGE :: nat where "KERNEL_PAGE \<equiv> 0x300"

definition owner :: "page_directory \<Rightarrow> nat \<Rightarrow> nat option" where
  "owner dir i =
     (if i < PAGE_ENTRY_COUNT \<and> i \<noteq> KERNEL_PAGE \<and> present_bit (pflag (dir ! i))
      then Some (entry_frame (dir ! i)) else None)"

definition paging_inv :: "paging_state \<Rightarrow> bool" where
  "paging_inv s \<longleftrightarrow>
     (let dir = fst s; fmap = page_frame_map (snd s)
      in length dir = PAGE_ENTRY_COUNT \<and> length fmap = PAGE_FRAME_MAX_COUNT
         \<and> unat (free_page_frame_count (snd s)) = count_if Not fmap
         \<and> dir ! KERNEL_PAGE = kernel_pde \<and> fmap ! 0
         \<and> ran (owner dir) = {f. 0 < f \<and> f < PAGE_FRAME_MAX_COUNT \<and> fmap ! f}
         \<and> inj_on (owner dir) (dom (owner dir)))"

text \<open>The directory after the entry code has removed the identity mapping (\<open>kernel-entrypoint.s\<close>).\<close>

definition boot_state :: paging_state where
  "boot_state = (kernel_page_directory[0 := zero_pde], initial_page_manager)"

lemma owner_update:
  assumes "length dir = PAGE_ENTRY_COUNT" and "i < PAGE_ENTRY_COUNT" and "i \<noteq> KERNEL_PAGE"
  shows "owner (dir[i := e]) = (owner dir)(i := if present_bit (pflag e) then Some (entry_frame e) else None)"
  using assms by (auto simp: owner_def fun_eq_iff nth_list_update)

lemma boot_inv: "paging_inv boot_state"
proof -
  have dir: "kernel_page_directory[0 := zero_pde] = (replicate PAGE_ENTRY_COUNT zero_pde)[0x300 := kernel_pde]"
  proof (rule nth_equalityI)
    fix i assume "i < length (kernel_page_directory[0 := zero_pde])"
    then show "kernel_page_directory[0 := zero_pde] ! i = (replicate PAGE_ENTRY_COUNT zero_pde)[0x300 := kernel_pde] ! i"
      by (simp add: kernel_page_directory_def nth_list_update)
  qed (simp add: kernel_page_directory_def)
  have none: "owner ((replicate PAGE_ENTRY_COUNT zero_pde)[0x300 := kernel_pde]) = Map.empty"
    by (auto simp: owner_def fun_eq_iff zero_pde_def zero_flag_def)
  have "{f. 0 < f \<and> f < PAGE_FRAME_MAX_COUNT \<and> (True # replicate (PAGE_FRAME_MAX_COUNT - 1) False) ! f} = {}"
    by (auto simp: nth_Cons split: nat.splits)
  then show ?thesis
    by (simp add: paging_inv_def boot_state_def dir none initial_page_manager_def Let_def)
qed

lemma update_entry:
  "update_page_directory_entry dir p v f =
     dir[page_index v := (dir ! page_index v)\<lparr>pflag := f, lower_address := ucast (drop_bit 22 p AND 0x3FF)\<rparr>]"
  by (simp add: update_page_directory_entry_def Let_def)

lemma ran_remove:
  assumes inj: "inj_on m (dom m)" and i: "m i = Some f"
  shows "ran (m(i := None)) = ran m - {f}"
proof (intro equalityI subsetI)
  have only: "a = i" if "m a = Some f" for a
    using inj_onD [OF inj, of a i] i that by (simp add: domI)
  fix x assume "x \<in> ran (m(i := None))"
  then obtain a where a: "(m(i := None)) a = Some x" by (auto simp: ran_def)
  then have "a \<noteq> i" and m: "m a = Some x" by (simp_all split: if_splits)
  with only [of a] have "x \<noteq> f" by blast
  with m show "x \<in> ran m - {f}" by (auto intro: ranI)
next
  fix x assume x: "x \<in> ran m - {f}"
  then obtain a where a: "m a = Some x" by (auto simp: ran_def)
  with x i have "a \<noteq> i" by auto
  with a have "(m(i := None)) a = Some x" by simp
  then show "x \<in> ran (m(i := None))" by (rule ranI)
qed

lemma inj_update: "inj_on m (dom m) \<Longrightarrow> f \<notin> ran m \<Longrightarrow> inj_on (m(i \<mapsto> f)) (dom (m(i \<mapsto> f)))"
  by (auto simp: inj_on_def ran_def dom_def)

lemma inj_remove: "inj_on m (dom m) \<Longrightarrow> inj_on (m(i := None)) (dom (m(i := None)))"
  by (auto simp: inj_on_def dom_def)

section \<open>Allocation and release against the invariant\<close>

definition map_page :: "u32 \<Rightarrow> paging_state \<Rightarrow> (bool \<times> paging_state)" where
  "map_page v s = paging_allocate_user_page_frame (fst s) v (snd s)"

definition unmap_page :: "u32 \<Rightarrow> paging_state \<Rightarrow> (bool \<times> paging_state) outcome" where
  "unmap_page v s = paging_free_user_page_frame (fst s) v (snd s)"

lemma paging_invD:
  assumes "paging_inv s"
  shows pi_dir: "length (fst s) = PAGE_ENTRY_COUNT"
    and pi_map: "length (page_frame_map (snd s)) = PAGE_FRAME_MAX_COUNT"
    and pi_count: "unat (free_page_frame_count (snd s)) = count_if Not (page_frame_map (snd s))"
    and pi_kernel: "fst s ! KERNEL_PAGE = kernel_pde"
    and pi_zero: "page_frame_map (snd s) ! 0"
    and pi_ran: "ran (owner (fst s)) = {f. 0 < f \<and> f < PAGE_FRAME_MAX_COUNT \<and> page_frame_map (snd s) ! f}"
    and pi_inj: "inj_on (owner (fst s)) (dom (owner (fst s)))"
  using assms by (simp_all add: paging_inv_def Let_def)

lemma first_free_full:
  assumes inv: "paging_inv s"
  shows "first_free 0 (page_frame_map (snd s)) = None \<longleftrightarrow> ran (owner (fst s)) = {1..<PAGE_FRAME_MAX_COUNT}"
proof -
  let ?m = "page_frame_map (snd s)"
  have "first_free 0 ?m = None \<longleftrightarrow> (\<forall>f < PAGE_FRAME_MAX_COUNT. ?m ! f)"
    unfolding first_free_None_iff all_set_conv_all_nth pi_map [OF inv] ..
  also have "\<dots> \<longleftrightarrow> (\<forall>f. 0 < f \<and> f < PAGE_FRAME_MAX_COUNT \<longrightarrow> ?m ! f)"
    using pi_zero [OF inv] by (metis gr0I)
  also have "\<dots> \<longleftrightarrow> ran (owner (fst s)) = {1..<PAGE_FRAME_MAX_COUNT}"
    unfolding pi_ran [OF inv] set_eq_iff mem_Collect_eq atLeastLessThan_iff One_nat_def Suc_le_eq by blast
  finally show ?thesis .
qed

lemma map_page_full:
  "paging_inv s \<Longrightarrow> ran (owner (fst s)) = {1..<PAGE_FRAME_MAX_COUNT} \<Longrightarrow> map_page v s = (False, s)"
  using first_free_full [of s] by (simp add: map_page_def paging_allocate_user_page_frame_def)

lemma map_page_ok:
  assumes inv: "paging_inv s" and v: "page_index v \<noteq> KERNEL_PAGE" and none: "owner (fst s) (page_index v) = None"
    and room: "ran (owner (fst s)) \<noteq> {1..<PAGE_FRAME_MAX_COUNT}"
  shows "\<exists>f s'. map_page v s = (True, s') \<and> paging_inv s' \<and> f \<notin> ran (owner (fst s))
    \<and> owner (fst s') = (owner (fst s))(page_index v \<mapsto> f)"
proof -
  obtain dir st where s: "s = (dir, st)" by (cases s)
  let ?m = "page_frame_map st"
  note i = paging_invD [OF inv, unfolded s, simplified]
  obtain f where f: "first_free 0 ?m = Some f"
    using first_free_full [OF inv] room s by fastforce
  then have f': "f < PAGE_FRAME_MAX_COUNT" "\<not> ?m ! f" using i(2) by (simp_all add: first_free_Some_iff)
  then have f0: "0 < f" using i(5) by (cases f) auto
  let ?dir = "update_page_directory_entry dir (of_nat f * PAGE_FRAME_SIZE) v user_flag"
  let ?st = "st\<lparr>page_frame_map := ?m[f := True], free_page_frame_count := free_page_frame_count st - 1\<rparr>"
  have step: "map_page v s = (True, ?dir, ?st)"
    using f by (simp add: map_page_def s paging_allocate_user_page_frame_def)
  have own: "owner ?dir = (owner dir)(page_index v \<mapsto> f)"
    using i(1) v f'(1) by (simp add: update_entry owner_update allocated_frame) (simp add: user_flag_def)
  have fresh: "f \<notin> ran (owner dir)" using i(6) f' by simp
  have cnt: "count_if Not (?m[f := True]) + 1 = count_if Not ?m"
    using count_if_update [of f ?m Not True] i(2) f' by simp
  have "unat (free_page_frame_count st - 1) = unat (free_page_frame_count st) - 1"
    using i(3) cnt by (intro unat_minus_one) auto
  then have "unat (free_page_frame_count ?st) = count_if Not (?m[f := True])"
    using i(3) cnt by simp
  moreover have "ran (owner ?dir) = {g. 0 < g \<and> g < PAGE_FRAME_MAX_COUNT \<and> ?m[f := True] ! g}"
    using i(2,6) f' f0 none s by (auto simp: own ran_map_upd nth_list_update)
  moreover have "inj_on (owner ?dir) (dom (owner ?dir))"
    unfolding own using i(7) fresh by (intro inj_update)
  ultimately have "paging_inv (?dir, ?st)"
    using i(1,2,4,5) v f0 by (simp add: paging_inv_def Let_def update_entry)
  with step own fresh show ?thesis by (auto simp: s)
qed

lemma unmap_page_none:
  assumes "paging_inv s" and "page_index v \<noteq> KERNEL_PAGE" and "owner (fst s) (page_index v) = None"
  shows "unmap_page v s = Inr (False, s)"
  using assms by (auto simp: unmap_page_def paging_free_user_page_frame_def owner_def Let_def split: if_splits)

lemma unmap_page_ok:
  assumes inv: "paging_inv s" and own: "owner (fst s) (page_index v) = Some f"
  shows "\<exists>s'. unmap_page v s = Inr (True, s') \<and> paging_inv s'
    \<and> owner (fst s') = (owner (fst s))(page_index v := None)"
proof -
  obtain dir st where s: "s = (dir, st)" by (cases s)
  let ?m = "page_frame_map st" let ?i = "page_index v"
  note i = paging_invD [OF inv, unfolded s, simplified]
  have o: "?i \<noteq> KERNEL_PAGE" "present_bit (pflag (dir ! ?i))" "entry_frame (dir ! ?i) = f"
    using own by (auto simp: owner_def s split: if_splits)
  have "f \<in> ran (owner dir)" using own s by (auto intro: ranI)
  then have f: "0 < f" "f < PAGE_FRAME_MAX_COUNT" "?m ! f" using i(6) by auto
  let ?dir = "dir[?i := zero_pde]"
  let ?st = "st\<lparr>page_frame_map := ?m[f := False], free_page_frame_count := free_page_frame_count st + 1\<rparr>"
  have step: "unmap_page v s = Inr (True, ?dir, ?st)"
    using o f i(2) by (simp add: unmap_page_def s paging_free_user_page_frame_def freed_frame)
  have own': "owner ?dir = (owner dir)(?i := None)"
    using i(1) o by (simp add: owner_update) (simp add: zero_pde_def zero_flag_def)
  have cnt: "count_if Not (?m[f := False]) = count_if Not ?m + 1"
    using count_if_update [of f ?m Not False] i(2) f by simp
  have "unat (free_page_frame_count st) < 33" using i(2,3) count_if_le_length [of Not ?m] by simp
  then have "unat (free_page_frame_count st + 1) = unat (free_page_frame_count st) + 1"
    by (intro unat_plus_simple [THEN iffD1, THEN trans]) (simp_all add: word_le_nat_alt unat_word_ariths)
  then have "unat (free_page_frame_count ?st) = count_if Not (?m[f := False])"
    using i(3) cnt by simp
  moreover have "ran (owner ?dir) = {g. 0 < g \<and> g < PAGE_FRAME_MAX_COUNT \<and> ?m[f := False] ! g}"
    using i(2,6,7) f own s by (auto simp: own' ran_remove nth_list_update)
  moreover have "inj_on (owner ?dir) (dom (owner ?dir))"
    unfolding own' using i(7) by (intro inj_remove)
  ultimately have "paging_inv (?dir, ?st)"
    using i(1,2,4,5) o f by (simp add: paging_inv_def Let_def)
  with step own' show ?thesis by (auto simp: s)
qed

section \<open>The page manager as a frame pool\<close>

text \<open>
  The contract of an allocator of frames for pages: \<open>take\<close> gives an unheld page a frame that no
  page holds unless all frames of the pool are held, \<open>give\<close> returns the frame of a held page,
  and neither can fault. A client may run any script of calls.
\<close>

datatype 'v page_call = Take 'v | Give 'v

locale frame_pool =
  fixes take_frame :: "'v \<Rightarrow> 's \<Rightarrow> bool \<times> 's"
    and give_frame :: "'v \<Rightarrow> 's \<Rightarrow> (bool \<times> 's) outcome"
    and held :: "'s \<Rightarrow> 'p \<Rightarrow> 'f option"
    and page :: "'v \<Rightarrow> 'p"
    and client_page :: "'v \<Rightarrow> bool"
    and ok :: "'s \<Rightarrow> bool"
    and pool :: "'f set"
  assumes finite_pool: "finite pool"
    and in_pool: "ok s \<Longrightarrow> ran (held s) \<subseteq> pool"
    and one_holder: "ok s \<Longrightarrow> inj_on (held s) (dom (held s))"
    and take_full: "ok s \<Longrightarrow> ran (held s) = pool \<Longrightarrow> take_frame v s = (False, s)"
    and take_ok: "ok s \<Longrightarrow> client_page v \<Longrightarrow> held s (page v) = None \<Longrightarrow> ran (held s) \<noteq> pool \<Longrightarrow>
      \<exists>f s'. take_frame v s = (True, s') \<and> ok s' \<and> f \<notin> ran (held s) \<and> held s' = (held s)(page v \<mapsto> f)"
    and give_none: "ok s \<Longrightarrow> client_page v \<Longrightarrow> held s (page v) = None \<Longrightarrow> give_frame v s = Inr (False, s)"
    and give_ok: "ok s \<Longrightarrow> held s (page v) = Some f \<Longrightarrow>
      \<exists>s'. give_frame v s = Inr (True, s') \<and> ok s' \<and> held s' = (held s)(page v := None)"
begin

fun run_calls :: "'v page_call list \<Rightarrow> 's \<Rightarrow> 's outcome" where
  "run_calls [] s = Inr s"
| "run_calls (Take v # cs) s =
     run_calls cs (if held s (page v) = None then snd (take_frame v s) else s)"
| "run_calls (Give v # cs) s = bind_outcome (give_frame v s) (\<lambda>r. run_calls cs (snd r))"

definition client_call :: "'v page_call \<Rightarrow> bool" where
  "client_call c \<longleftrightarrow> (case c of Take v \<Rightarrow> client_page v | Give v \<Rightarrow> client_page v)"

lemma take_keeps: "ok s \<Longrightarrow> client_page v \<Longrightarrow> held s (page v) = None \<Longrightarrow> ok (snd (take_frame v s))"
  using take_full [of s v] take_ok [of s v] by (cases "ran (held s) = pool") fastforce+

lemma give_keeps: "ok s \<Longrightarrow> client_page v \<Longrightarrow> \<exists>b s'. give_frame v s = Inr (b, s') \<and> ok s'"
  using give_none [of s v] give_ok [of s v] by (cases "held s (page v)") blast+

lemma run_calls_ok: "ok s \<Longrightarrow> list_all client_call cs \<Longrightarrow> \<exists>s'. run_calls cs s = Inr s' \<and> ok s'"
proof (induction cs arbitrary: s)
  case Nil
  then show ?case by simp
next
  case (Cons c cs)
  show ?case
  proof (cases c)
    case (Take v)
    with Cons show ?thesis using take_keeps [of s v] by (simp add: client_call_def)
  next
    case (Give v)
    with Cons.prems have "client_page v" by (simp add: client_call_def)
    from give_keeps [OF Cons.prems(1) this] obtain b s' where "give_frame v s = Inr (b, s')" "ok s'" by blast
    with Cons Give show ?thesis by simp
  qed
qed

lemma held_bound:
  assumes "ok s"
  shows "card (dom (held s)) \<le> card pool"
    and "card (dom (held s)) = card pool \<longleftrightarrow> ran (held s) = pool"
proof -
  have fin: "finite (ran (held s))" using finite_subset [OF in_pool [OF assms] finite_pool] .
  have ran: "held s ` dom (held s) = Some ` ran (held s)"
    unfolding ran_def dom_def by force
  have "card (dom (held s)) = card (held s ` dom (held s))"
    using card_image [OF one_holder [OF assms]] by simp
  also have "\<dots> = card (ran (held s))" unfolding ran by (rule card_image) simp
  finally have c: "card (dom (held s)) = card (ran (held s))" .
  show "card (dom (held s)) \<le> card pool"
    unfolding c by (rule card_mono [OF finite_pool in_pool [OF assms]])
  show "card (dom (held s)) = card pool \<longleftrightarrow> ran (held s) = pool"
    unfolding c using card_subset_eq [OF finite_pool in_pool [OF assms]] by auto
qed

lemma take_succeeds_iff:
  assumes "ok s" and "client_page v" and "held s (page v) = None"
  shows "fst (take_frame v s) \<longleftrightarrow> card (dom (held s)) < card pool"
  using take_full [OF assms(1)] take_ok [OF assms] held_bound [OF assms(1)] by fastforce

lemma give_then_take:
  assumes "ok s" and "client_page v" and "held s (page v) = Some f"
  shows "\<exists>s'. give_frame v s = Inr (True, s') \<and> fst (take_frame v s')"
proof -
  from give_ok [OF assms(1,3)] obtain s' where s':
    "give_frame v s = Inr (True, s')" "ok s'" "held s' = (held s)(page v := None)" by blast
  have "f \<notin> ran (held s')"
    unfolding s'(3) using ran_remove [OF one_holder [OF assms(1)] assms(3)] by simp
  moreover have "f \<in> pool" using in_pool [OF assms(1)] assms(3) by (auto intro: ranI)
  ultimately have "ran (held s') \<noteq> pool" by blast
  with take_ok [OF s'(2) assms(2)] s'(1,3) show ?thesis by fastforce
qed

end

interpretation frames: frame_pool map_page unmap_page "\<lambda>s. owner (fst s)" page_index
  "\<lambda>v. page_index v \<noteq> KERNEL_PAGE" paging_inv "{1..<PAGE_FRAME_MAX_COUNT}"
proof unfold_locales
  fix s :: paging_state assume "paging_inv s"
  then show "ran (owner (fst s)) \<subseteq> {1..<PAGE_FRAME_MAX_COUNT}"
    and "inj_on (owner (fst s)) (dom (owner (fst s)))"
    using pi_ran pi_inj by auto
next
  fix s v assume "paging_inv s" "ran (owner (fst s)) = {1..<PAGE_FRAME_MAX_COUNT}"
  then show "map_page v s = (False, s)" by (rule map_page_full)
next
  fix s v assume "paging_inv s" "page_index v \<noteq> KERNEL_PAGE" "owner (fst s) (page_index v) = None"
    "ran (owner (fst s)) \<noteq> {1..<PAGE_FRAME_MAX_COUNT}"
  then show "\<exists>f s'. map_page v s = (True, s') \<and> paging_inv s' \<and> f \<notin> ran (owner (fst s))
      \<and> owner (fst s') = (owner (fst s))(page_index v \<mapsto> f)"
    by (rule map_page_ok)
next
  fix s v f assume "paging_inv s" "owner (fst s) (page_index v) = Some f"
  then show "\<exists>s'. unmap_page v s = Inr (True, s') \<and> paging_inv s'
      \<and> owner (fst s') = (owner (fst s))(page_index v := None)"
    by (rule unmap_page_ok)
qed (simp_all add: unmap_page_none)

section \<open>The layout of an entry\<close>

text \<open>
  The 32 bits of the packed structure, least significant first: eight flags, ten bits of
  \<open>lower_address\<close>, \<open>reserved_1\<close>, three bits of \<open>available\<close> and eight of \<open>higher_address\<close>;
  the two bits left are padding.
\<close>

definition flag_bits :: "pde_flag \<Rightarrow> nat" where
  "flag_bits f = of_bool (present_bit f) + 2 * of_bool (write_bit f) + 4 * of_bool (user_bit f)
     + 8 * of_bool (write_through_bit f) + 16 * of_bool (cache_disabled_bit f)
     + 32 * of_bool (accessed_bit f) + 64 * of_bool (dirty_bit f) + 128 * of_bool (page_size_bit f)"

definition encode_pde :: "pde \<Rightarrow> nat" where
  "encode_pde e = flag_bits (pflag e) + 2 ^ 8 * unat (lower_address e) + 2 ^ 18 * of_bool (reserved_1 e)
     + 2 ^ 19 * unat (available e) + 2 ^ 22 * unat (higher_address e)"

text \<open>The frame number the processor takes from the entry of a 4 MiB page: bits 22 to 31.\<close>

definition hardware_frame :: "nat \<Rightarrow> nat" where
  "hardware_frame w = w div 2 ^ 22"

lemma flag_bits_less: "flag_bits f < 256"
  by (simp add: flag_bits_def of_bool_def)

lemma hardware_frame_encode: "hardware_frame (encode_pde e) = unat (higher_address e)"
proof -
  have av: "unat (available e) < 8" using unsigned_less [of "available e"] by simp
  have "flag_bits (pflag e) + 2 ^ 8 * unat (lower_address e) + 2 ^ 18 * of_bool (reserved_1 e)
      + 2 ^ 19 * unat (available e) < 2 ^ 22"
    using av flag_bits_less [of "pflag e"] unat_u10_lt [of "lower_address e"]
      of_bool_less_eq_one [of "reserved_1 e", where 'a = nat]
    by (simp del: unat_u10_lt)
  then show ?thesis by (simp add: hardware_frame_def encode_pde_def)
qed

end
