(* ===== verification/Gdt.thy ===== *)
theory Gdt
  imports Bytes
begin

unbundle bit_operations_syntax

text \<open>
  The global descriptor table (\<open>header/cpu/gdt.c\<close>, \<open>gdt.h\<close>) and the task state segment
  that its sixth entry describes (\<open>header/cpu/interrupt.h\<close>). A descriptor is a record of the
  bit fields; \<open>encode_descriptor\<close> is its packed layout in two 32-bit words, and the base, limit
  and privilege that the processor takes from those words are read back from them.
\<close>

section \<open>Data\<close>

record segment_descriptor =
  segment_low :: u16
  base_low :: u16
  base_mid :: u8
  type_bit :: "4 word"
  non_system :: bool
  DPL :: "2 word"
  seg_present :: bool
  limit_high :: "4 word"
  AVL :: bool
  long_mode :: bool
  DB :: bool
  granularity :: bool
  base_high :: u8

abbreviation (input) GDT_MAX_ENTRY_COUNT :: nat where "GDT_MAX_ENTRY_COUNT \<equiv> 32"
abbreviation (input) GDT_KERNEL_CODE_SEGMENT_SELECTOR :: u16 where "GDT_KERNEL_CODE_SEGMENT_SELECTOR \<equiv> 0x8"
abbreviation (input) GDT_KERNEL_DATA_SEGMENT_SELECTOR :: u16 where "GDT_KERNEL_DATA_SEGMENT_SELECTOR \<equiv> 0x10"
abbreviation (input) GDT_USER_CODE_SEGMENT_SELECTOR :: u16 where "GDT_USER_CODE_SEGMENT_SELECTOR \<equiv> 0x18"
abbreviation (input) GDT_USER_DATA_SEGMENT_SELECTOR :: u16 where "GDT_USER_DATA_SEGMENT_SELECTOR \<equiv> 0x20"
abbreviation (input) GDT_TSS_SELECTOR :: u16 where "GDT_TSS_SELECTOR \<equiv> 0x28"

definition zero_descriptor :: segment_descriptor where
  "zero_descriptor = \<lparr>segment_low = 0, base_low = 0, base_mid = 0, type_bit = 0, non_system = False,
     DPL = 0, seg_present = False, limit_high = 0, AVL = False, long_mode = False, DB = False,
     granularity = False, base_high = 0\<rparr>"

text \<open>The four flat segments differ in type, privilege and the \<open>L\<close> bit only.\<close>

definition flat_descriptor :: "4 word \<Rightarrow> 2 word \<Rightarrow> bool \<Rightarrow> segment_descriptor" where
  "flat_descriptor ty dpl l = zero_descriptor\<lparr>segment_low := 0xFFFF, type_bit := ty, non_system := True,
     DPL := dpl, seg_present := True, limit_high := 0b1111, long_mode := l, DB := True, granularity := True\<rparr>"

record tss_entry =
  prev_tss :: u32
  esp0 :: u32
  ss0 :: u32
  unused_register :: "u32 list"

definition sizeof_tss :: u32 where
  "sizeof_tss = 4 + 4 + 4 + 23 * 4"

definition interrupt_tss_entry :: tss_entry where
  "interrupt_tss_entry = \<lparr>prev_tss = 0, esp0 = 0, ss0 = ucast GDT_KERNEL_DATA_SEGMENT_SELECTOR,
     unused_register = replicate 23 0\<rparr>"

definition tss_descriptor :: segment_descriptor where
  "tss_descriptor = zero_descriptor\<lparr>limit_high := ucast (drop_bit 16 (sizeof_tss AND push_bit 16 0xF)),
     segment_low := ucast sizeof_tss, type_bit := 0x9, seg_present := True, DB := True\<rparr>"

definition global_descriptor_table :: "segment_descriptor list" where
  "global_descriptor_table =
     [zero_descriptor, flat_descriptor 0b1010 0 True, flat_descriptor 0b0010 0 False,
      flat_descriptor 0b1010 3 True, flat_descriptor 0b0010 3 False, tss_descriptor]
     @ replicate (GDT_MAX_ENTRY_COUNT - 6) zero_descriptor"

text \<open>\<open>GDTR.size\<close>: the table size in bytes minus one.\<close>

definition gdtr_size :: u16 where
  "gdtr_size = of_nat (GDT_MAX_ENTRY_COUNT * 8 - 1)"

section \<open>Operations\<close>

definition gdt_install_tss :: "u32 \<Rightarrow> segment_descriptor list \<Rightarrow> segment_descriptor list" where
  "gdt_install_tss base gdt =
     gdt[5 := (gdt ! 5)\<lparr>base_high := ucast (drop_bit 24 (base AND push_bit 24 0xFF)),
                        base_mid := ucast (drop_bit 16 (base AND push_bit 16 0xFF)),
                        base_low := ucast (base AND 0xFFFF)\<rparr>]"

definition set_tss_kernel_current_stack :: "u32 \<Rightarrow> tss_entry \<Rightarrow> tss_entry" where
  "set_tss_kernel_current_stack ebp tss = tss\<lparr>esp0 := ebp + 8\<rparr>"

section \<open>Layout\<close>

definition descriptor_low :: "segment_descriptor \<Rightarrow> nat" where
  "descriptor_low d = unat (segment_low d) + 2 ^ 16 * unat (base_low d)"

definition descriptor_high :: "segment_descriptor \<Rightarrow> nat" where
  "descriptor_high d = unat (base_mid d) + 2 ^ 8 * unat (type_bit d) + 2 ^ 12 * of_bool (non_system d)
     + 2 ^ 13 * unat (DPL d) + 2 ^ 15 * of_bool (seg_present d) + 2 ^ 16 * unat (limit_high d)
     + 2 ^ 20 * of_bool (AVL d) + 2 ^ 21 * of_bool (long_mode d) + 2 ^ 22 * of_bool (DB d)
     + 2 ^ 23 * of_bool (granularity d) + 2 ^ 24 * unat (base_high d)"

text \<open>What the processor takes from the two words.\<close>

definition hw_base :: "nat \<times> nat \<Rightarrow> nat" where
  "hw_base w = fst w div 2 ^ 16 + 2 ^ 16 * (snd w mod 2 ^ 8) + 2 ^ 24 * (snd w div 2 ^ 24)"

definition hw_limit :: "nat \<times> nat \<Rightarrow> nat" where
  "hw_limit w = fst w mod 2 ^ 16 + 2 ^ 16 * (snd w div 2 ^ 16 mod 2 ^ 4)"

definition hw_dpl :: "nat \<times> nat \<Rightarrow> nat" where
  "hw_dpl w = snd w div 2 ^ 13 mod 4"

definition encode_descriptor :: "segment_descriptor \<Rightarrow> nat \<times> nat" where
  "encode_descriptor d = (descriptor_low d, descriptor_high d)"

definition linear_base :: "segment_descriptor \<Rightarrow> nat" where
  "linear_base d = unat (base_low d) + 2 ^ 16 * unat (base_mid d) + 2 ^ 24 * unat (base_high d)"

lemma digits_base:
  fixes a b c d e f g :: nat
  assumes "a < 2 ^ 8" "b < 2 ^ 16"
  shows "(a + 2 ^ 8 * b + 2 ^ 24 * c) mod 2 ^ 8 = a" and "(a + 2 ^ 8 * b + 2 ^ 24 * c) div 2 ^ 24 = c"
proof -
  have "a + 2 ^ 8 * b < 2 ^ 24" using assms by simp
  then show "(a + 2 ^ 8 * b + 2 ^ 24 * c) div 2 ^ 24 = c" by simp
  have "a + 2 ^ 8 * b + 2 ^ 24 * c = a + 2 ^ 8 * (b + 2 ^ 16 * c)" by simp
  then show "(a + 2 ^ 8 * b + 2 ^ 24 * c) mod 2 ^ 8 = a" using assms(1) by (simp only: mod_mult_self2 mod_less)
qed

definition middle_bits :: "segment_descriptor \<Rightarrow> nat" where
  "middle_bits d = unat (type_bit d) + 2 ^ 4 * of_bool (non_system d) + 2 ^ 5 * unat (DPL d)
     + 2 ^ 7 * of_bool (seg_present d) + 2 ^ 8 * unat (limit_high d) + 2 ^ 12 * of_bool (AVL d)
     + 2 ^ 13 * of_bool (long_mode d) + 2 ^ 14 * of_bool (DB d) + 2 ^ 15 * of_bool (granularity d)"

lemma descriptor_high_middle:
  "descriptor_high d = unat (base_mid d) + 2 ^ 8 * middle_bits d + 2 ^ 24 * unat (base_high d)"
  by (simp add: descriptor_high_def middle_bits_def)

lemma unat_field: "unat (w :: 4 word) < 16" "unat (v :: 2 word) < 4"
  using unsigned_less [of w] unsigned_less [of v] by simp_all

lemma middle_bits_less: "middle_bits d < 2 ^ 16"
  using unat_field(1) [of "type_bit d"] unat_field(2) [of "DPL d"] unat_field(1) [of "limit_high d"]
  unfolding middle_bits_def of_bool_def by (simp split: if_splits)

lemma hw_base_encode: "hw_base (encode_descriptor d) = linear_base d"
proof -
  have "unat (base_mid d) < 2 ^ 8" by simp
  note m = digits_base [OF this middle_bits_less [of d], of "unat (base_high d)"]
  have "descriptor_low d div 2 ^ 16 = unat (base_low d)" by (simp add: descriptor_low_def)
  then show ?thesis
    using m by (simp only: hw_base_def encode_descriptor_def fst_conv snd_conv descriptor_high_middle linear_base_def)
qed

lemma three_parts: "n mod 2 ^ 16 + 2 ^ 16 * (n div 2 ^ 16 mod 2 ^ 8) + 2 ^ 24 * (n div 2 ^ 24) = (n :: nat)"
proof -
  have "n div 16777216 = n div 65536 div 256" by (simp flip: div_mult2_eq)
  moreover have "n mod 65536 + 65536 * (n div 65536) = n" by (rule mod_mult_div_eq)
  moreover have "n div 65536 mod 256 + 256 * (n div 65536 div 256) = n div 65536"
    by (rule mod_mult_div_eq)
  ultimately have "n mod 65536 + 65536 * (n div 65536 mod 256) + 16777216 * (n div 16777216) = n" by linarith
  then show ?thesis by simp
qed

lemma base_parts:
  fixes base :: u32
  shows "unat (ucast (base AND 0xFFFF) :: u16) = unat base mod 2 ^ 16"
    and "unat (ucast (drop_bit 16 (base AND push_bit 16 0xFF)) :: u8) = unat base div 2 ^ 16 mod 2 ^ 8"
    and "unat (ucast (drop_bit 24 (base AND push_bit 24 0xFF)) :: u8) = unat base div 2 ^ 24"
proof -
  have m: "x AND 0xFFFF = take_bit 16 x" "x AND 0xFF = take_bit 8 x" for x :: u32
    by (simp_all add: take_bit_eq_mask mask_eq_exp_minus_1)
  have d: "drop_bit n (base AND push_bit n 0xFF) = take_bit 8 (drop_bit n base)" if "n + 8 \<le> 32" for n
  proof -
    have ff: "(0xFF :: u32) = mask 8" by (simp add: mask_eq_exp_minus_1)
    show ?thesis unfolding ff using that by (intro bit_word_eqI) (auto simp: bit_simps)
  qed
  show "unat (ucast (base AND 0xFFFF) :: u16) = unat base mod 2 ^ 16"
    unfolding m by (simp add: unsigned_ucast_eq take_bit_eq_mod unat_mod)
  show "unat (ucast (drop_bit 16 (base AND push_bit 16 0xFF)) :: u8) = unat base div 2 ^ 16 mod 2 ^ 8"
    by (subst d) (simp_all add: unsigned_ucast_eq take_bit_eq_mod drop_bit_eq_div unat_mod unat_div)
  have "unat base div 2 ^ 24 < 2 ^ 8" by (simp add: div_less_iff_less_mult)
  then show "unat (ucast (drop_bit 24 (base AND push_bit 24 0xFF)) :: u8) = unat base div 2 ^ 24"
    by (subst d) (simp_all add: unsigned_ucast_eq take_bit_eq_mod drop_bit_eq_div unat_mod unat_div)
qed

lemma length_gdt [simp]: "length global_descriptor_table = GDT_MAX_ENTRY_COUNT"
  by (simp add: global_descriptor_table_def)

lemma install_tss_fields:
  "5 < length gdt \<Longrightarrow> base_low (gdt_install_tss base gdt ! 5) = ucast (base AND 0xFFFF)"
  "5 < length gdt \<Longrightarrow> base_mid (gdt_install_tss base gdt ! 5) = ucast (drop_bit 16 (base AND push_bit 16 0xFF))"
  "5 < length gdt \<Longrightarrow> base_high (gdt_install_tss base gdt ! 5) = ucast (drop_bit 24 (base AND push_bit 24 0xFF))"
  by (simp_all add: gdt_install_tss_def)

lemma install_tss_base: "5 < length gdt \<Longrightarrow> linear_base (gdt_install_tss base gdt ! 5) = unat base"
  by (simp only: linear_base_def install_tss_fields base_parts three_parts)

lemma install_tss_other: "i \<noteq> 5 \<Longrightarrow> gdt_install_tss base gdt ! i = gdt ! i"
  by (simp add: gdt_install_tss_def)

text \<open>The limit and the privilege of a flat segment, out of the encoded words.\<close>

lemma flat_fields:
  "descriptor_low (flat_descriptor ty dpl l) = 0xFFFF"
  "descriptor_high (flat_descriptor ty dpl l)
     = 2 ^ 8 * (unat ty + 2 ^ 4 + 2 ^ 5 * unat dpl) + 2 ^ 15 * (1 + 2 * 15 + 2 ^ 6 * of_bool l + 2 ^ 7 + 2 ^ 8)"
  by (simp_all add: descriptor_low_def descriptor_high_def flat_descriptor_def zero_descriptor_def)

lemma flat_limit: "hw_limit (encode_descriptor (flat_descriptor ty dpl l)) = 0xFFFFF"
proof -
  have "unat ty + 2 ^ 4 + 2 ^ 5 * unat dpl < 2 ^ 7"
    using unat_field(1) [of ty] unat_field(2) [of dpl] by simp
  then have "descriptor_high (flat_descriptor ty dpl l) div 2 ^ 16 = 15 + 2 ^ 5 * of_bool l + 2 ^ 6 + 2 ^ 7"
    unfolding flat_fields by (cases l) simp_all
  then show ?thesis
    unfolding hw_limit_def encode_descriptor_def fst_conv snd_conv flat_fields(1) by (cases l) simp_all
qed

lemma flat_dpl: "hw_dpl (encode_descriptor (flat_descriptor ty dpl l)) = unat dpl"
proof -
  have b: "unat ty + 2 ^ 4 < 2 ^ 5" "unat dpl < 4"
    using unat_field(1) [of ty] unat_field(2) [of dpl] by simp_all
  let ?k = "1 + 2 * 15 + 2 ^ 6 * of_bool l + 2 ^ 7 + 2 ^ 8 :: nat"
  have "descriptor_high (flat_descriptor ty dpl l) = 2 ^ 13 * (unat dpl + 4 * ?k) + 2 ^ 8 * (unat ty + 2 ^ 4)"
    unfolding flat_fields by simp
  then have "descriptor_high (flat_descriptor ty dpl l) div 2 ^ 13 = unat dpl + 4 * ?k"
    using b(1) by simp
  then show ?thesis
    using b(2) unfolding hw_dpl_def encode_descriptor_def snd_conv by (simp only: mod_mult_self2 mod_less)
qed

end
