(* ===== verification/Idt.thy ===== *)
theory Idt
  imports Gdt
begin

unbundle bit_operations_syntax

text \<open>
  The interrupt descriptor table (\<open>src/idt.c\<close>, \<open>header/cpu/idt.h\<close>). A gate is a record of the
  bit fields and \<open>encode_gate\<close> its packed layout. The handler addresses come from the
  assembler's \<open>isr_stub_table\<close> and are a parameter.
\<close>

record idt_gate =
  offset_low :: u16
  segment :: u16
  gate_reserved :: "5 word"
  r_bit_1 :: "3 word"
  r_bit_2 :: "3 word"
  gate_32 :: bool
  r_bit_3 :: bool
  gate_DPL :: "2 word"
  gate_valid :: bool
  offset_high :: u16

abbreviation (input) IDT_MAX_ENTRY_COUNT :: nat where "IDT_MAX_ENTRY_COUNT \<equiv> 256"
abbreviation (input) ISR_STUB_TABLE_LIMIT :: nat where "ISR_STUB_TABLE_LIMIT \<equiv> 64"
abbreviation (input) INTERRUPT_GATE_R_BIT_1 :: "3 word" where "INTERRUPT_GATE_R_BIT_1 \<equiv> 0b000"
abbreviation (input) INTERRUPT_GATE_R_BIT_2 :: "3 word" where "INTERRUPT_GATE_R_BIT_2 \<equiv> 0b110"

type_synonym idt = "idt_gate list"

definition zero_gate :: idt_gate where
  "zero_gate = \<lparr>offset_low = 0, segment = 0, gate_reserved = 0, r_bit_1 = 0, r_bit_2 = 0,
     gate_32 = False, r_bit_3 = False, gate_DPL = 0, gate_valid = False, offset_high = 0\<rparr>"

text \<open>The table is a global without initialiser, hence zero at start.\<close>

definition interrupt_descriptor_table :: idt where
  "interrupt_descriptor_table = replicate IDT_MAX_ENTRY_COUNT zero_gate"

definition idtr_limit :: u16 where
  "idtr_limit = of_nat (IDT_MAX_ENTRY_COUNT * 8 - 1)"

definition set_interrupt_gate :: "u8 \<Rightarrow> u32 \<Rightarrow> u16 \<Rightarrow> u8 \<Rightarrow> idt \<Rightarrow> idt" where
  "set_interrupt_gate int_vector handler_address gdt_seg_selector privilege idt =
     idt[unat int_vector := (idt ! unat int_vector)\<lparr>
       gate_DPL := ucast privilege,
       offset_low := ucast handler_address,
       offset_high := ucast (drop_bit 16 handler_address),
       segment := gdt_seg_selector,
       gate_reserved := 0,
       r_bit_1 := INTERRUPT_GATE_R_BIT_1,
       r_bit_2 := INTERRUPT_GATE_R_BIT_2,
       r_bit_3 := False,
       gate_32 := True,
       gate_valid := True\<rparr>]"

definition initialize_idt :: "u32 list \<Rightarrow> idt \<Rightarrow> idt" where
  "initialize_idt isr_stub_table idt =
     (let idt = fold (\<lambda>i. set_interrupt_gate (of_nat i) (isr_stub_table ! i) GDT_KERNEL_CODE_SEGMENT_SELECTOR 0)
                  [0..<ISR_STUB_TABLE_LIMIT] idt
      in set_interrupt_gate 0x30 (isr_stub_table ! 0x30) GDT_KERNEL_CODE_SEGMENT_SELECTOR 3 idt)"

section \<open>Layout\<close>

definition gate_low :: "idt_gate \<Rightarrow> nat" where
  "gate_low g = unat (offset_low g) + 2 ^ 16 * unat (segment g)"

definition gate_high :: "idt_gate \<Rightarrow> nat" where
  "gate_high g = unat (gate_reserved g) + 2 ^ 5 * unat (r_bit_1 g) + 2 ^ 8 * unat (r_bit_2 g)
     + 2 ^ 11 * of_bool (gate_32 g) + 2 ^ 12 * of_bool (r_bit_3 g) + 2 ^ 13 * unat (gate_DPL g)
     + 2 ^ 15 * of_bool (gate_valid g) + 2 ^ 16 * unat (offset_high g)"

text \<open>What the processor takes from a gate: the handler, the selector, and the type and access byte.\<close>

definition hw_offset :: "idt_gate \<Rightarrow> nat" where
  "hw_offset g = gate_low g mod 2 ^ 16 + 2 ^ 16 * (gate_high g div 2 ^ 16)"

definition hw_selector :: "idt_gate \<Rightarrow> nat" where
  "hw_selector g = gate_low g div 2 ^ 16"

definition hw_access :: "idt_gate \<Rightarrow> nat" where
  "hw_access g = gate_high g div 2 ^ 8 mod 2 ^ 8"

definition interrupt_gate :: "u32 \<Rightarrow> u8 \<Rightarrow> idt_gate" where
  "interrupt_gate handler privilege = \<lparr>offset_low = ucast handler, segment = GDT_KERNEL_CODE_SEGMENT_SELECTOR,
     gate_reserved = 0, r_bit_1 = 0, r_bit_2 = 0b110, gate_32 = True, r_bit_3 = False,
     gate_DPL = ucast privilege, gate_valid = True, offset_high = ucast (drop_bit 16 handler)\<rparr>"

lemma set_interrupt_gate_eq:
  "length idt = IDT_MAX_ENTRY_COUNT \<Longrightarrow>
   set_interrupt_gate v h GDT_KERNEL_CODE_SEGMENT_SELECTOR p idt = idt[unat v := interrupt_gate h p]"
  unfolding set_interrupt_gate_def interrupt_gate_def
  by (rule arg_cong [where f = "list_update idt (unat v)"]) (cases "idt ! unat v", simp)

lemma length_set_interrupt_gate [simp]: "length (set_interrupt_gate v h s p idt) = length idt"
  by (simp add: set_interrupt_gate_def)

lemma idt_loop:
  fixes stubs :: "u32 list"
  assumes "length idt = IDT_MAX_ENTRY_COUNT" and "n \<le> IDT_MAX_ENTRY_COUNT"
  defines loop_def: "loop \<equiv> \<lambda>n. fold (\<lambda>i. set_interrupt_gate (of_nat i) (stubs ! i) GDT_KERNEL_CODE_SEGMENT_SELECTOR 0) [0..<n] idt"
  shows "length (loop n) = IDT_MAX_ENTRY_COUNT"
    and "i < IDT_MAX_ENTRY_COUNT \<Longrightarrow> loop n ! i = (if i < n then interrupt_gate (stubs ! i) 0 else idt ! i)"
proof -
  have "length (loop n) = IDT_MAX_ENTRY_COUNT \<and>
      (\<forall>i < IDT_MAX_ENTRY_COUNT. loop n ! i = (if i < n then interrupt_gate (stubs ! i) 0 else idt ! i))"
    using assms(2)
  proof (induction n)
    case 0
    then show ?case using assms(1) by (simp add: loop_def)
  next
    case (Suc n)
    then have l: "length (loop n) = IDT_MAX_ENTRY_COUNT" by simp
    have "loop (Suc n) = set_interrupt_gate (of_nat n) (stubs ! n) GDT_KERNEL_CODE_SEGMENT_SELECTOR 0 (loop n)"
      by (simp add: loop_def)
    also have "\<dots> = (loop n)[n := interrupt_gate (stubs ! n) 0]"
      using Suc.prems by (simp add: set_interrupt_gate_eq [OF l] unat_of_nat)
    finally show ?case using Suc by (auto simp: nth_list_update less_Suc_eq)
  qed
  then show "length (loop n) = IDT_MAX_ENTRY_COUNT"
    and "i < IDT_MAX_ENTRY_COUNT \<Longrightarrow> loop n ! i = (if i < n then interrupt_gate (stubs ! i) 0 else idt ! i)"
    by blast+
qed

lemma initialize_idt_nth:
  assumes "length idt = IDT_MAX_ENTRY_COUNT" and "i < IDT_MAX_ENTRY_COUNT"
  shows "initialize_idt stubs idt ! i =
     (if i = 0x30 then interrupt_gate (stubs ! i) 3
      else if i < ISR_STUB_TABLE_LIMIT then interrupt_gate (stubs ! i) 0 else idt ! i)"
proof -
  let ?l = "fold (\<lambda>i. set_interrupt_gate (of_nat i) (stubs ! i) GDT_KERNEL_CODE_SEGMENT_SELECTOR 0) [0..<ISR_STUB_TABLE_LIMIT] idt"
  note l = idt_loop [OF assms(1), where n = ISR_STUB_TABLE_LIMIT and stubs = stubs]
  have len: "length ?l = IDT_MAX_ENTRY_COUNT" by (rule l(1)) simp
  have "initialize_idt stubs idt = ?l[0x30 := interrupt_gate (stubs ! 0x30) 3]"
    unfolding initialize_idt_def Let_def using set_interrupt_gate_eq [OF len, of "0x30" "stubs ! 0x30" 3] by simp
  moreover have "?l ! i = (if i < ISR_STUB_TABLE_LIMIT then interrupt_gate (stubs ! i) 0 else idt ! i)"
    by (rule l(2)) (use assms(2) in simp_all)
  ultimately show ?thesis using len by (auto simp: nth_list_update)
qed

lemma hw_interrupt_gate:
  assumes "unat p < 4"
  shows "hw_offset (interrupt_gate h p) = unat h" and "hw_selector (interrupt_gate h p) = 0x8"
    and "hw_access (interrupt_gate h p) = 0x8E + 0x20 * unat p"
proof -
  have lo: "unat (ucast h :: u16) = unat h mod 2 ^ 16"
    by (simp add: unsigned_ucast_eq take_bit_eq_mod)
  have "unat h div 2 ^ 16 < 2 ^ 16" by (simp add: div_less_iff_less_mult)
  then have hi: "unat (ucast (drop_bit 16 h) :: u16) = unat h div 2 ^ 16"
    by (simp add: unsigned_ucast_eq take_bit_eq_mod drop_bit_eq_div unat_div)
  have p: "unat (ucast p :: 2 word) = unat p" using assms by (simp add: unsigned_ucast_eq take_bit_eq_mod)
  have high: "gate_high (interrupt_gate h p) = 0x8E00 + 2 ^ 13 * unat p + 2 ^ 16 * (unat h div 2 ^ 16)"
    unfolding gate_high_def interrupt_gate_def idt_gate.simps hi p by simp
  have low: "gate_low (interrupt_gate h p) = unat h mod 2 ^ 16 + 2 ^ 16 * 8"
    unfolding gate_low_def interrupt_gate_def idt_gate.simps lo by simp
  have "gate_low (interrupt_gate h p) mod 2 ^ 16 = unat h mod 2 ^ 16"
    unfolding low by (simp only: mod_mult_self2 mod_mod_trivial)
  moreover have "gate_high (interrupt_gate h p) div 2 ^ 16 = unat h div 2 ^ 16"
    unfolding high using assms by simp
  ultimately show "hw_offset (interrupt_gate h p) = unat h"
    unfolding hw_offset_def by (simp only: mod_mult_div_eq)
  show "hw_selector (interrupt_gate h p) = 0x8" unfolding hw_selector_def low by simp
  have "gate_high (interrupt_gate h p) = 2 ^ 8 * (0x8E + 0x20 * unat p + 2 ^ 8 * (unat h div 2 ^ 16))"
    unfolding high by simp
  then have "gate_high (interrupt_gate h p) div 2 ^ 8 = 0x8E + 0x20 * unat p + 2 ^ 8 * (unat h div 2 ^ 16)"
    by (simp only: nonzero_mult_div_cancel_left) simp
  then show "hw_access (interrupt_gate h p) = 0x8E + 0x20 * unat p"
    unfolding hw_access_def using assms by simp
qed

end
