(* ===== verification/Machine_Properties.thy ===== *)
theory Machine_Properties
  imports Disk Terminal Pic Paging Idt String_C
begin

unbundle bit_operations_syntax

text \<open>
  The properties of the library routines, the drivers and the tables of the processor, each
  with an instance at concrete values.
\<close>

section \<open>Memory routines\<close>

text \<open>C37: \<open>memmove\<close> copies as if through a temporary, for overlapping areas in either direction:
  the destination holds the bytes that the source held before the call, and nothing else
  changes, whenever neither area wraps around the address space.\<close>

theorem memmove_copies_overlapping:
  assumes "unat src + unat n \<le> 2 ^ 32" and "unat dest + unat n \<le> 2 ^ 32"
  shows "mem_read (memmove m dest src n) dest (unat n) = mem_read m src (unat n)
    \<and> (\<forall>a. unat n \<le> unat (a - dest) \<longrightarrow> memmove m dest src n a = m a)"
  unfolding memmove_eq [OF assms]
proof
  have "unat n < 2 ^ 32" by simp
  then have "length (mem_read m src (unat n)) \<le> 2 ^ 32" by (simp add: less_imp_le)
  from mem_read_write [OF order_refl this, of m dest]
  show "mem_read (mem_write m dest (mem_read m src (unat n))) dest (unat n) = mem_read m src (unat n)" by simp
  show "\<forall>a. unat n \<le> unat (a - dest) \<longrightarrow> mem_write m dest (mem_read m src (unat n)) a = m a"
    by (simp add: mem_write_def Let_def)
qed

theorem memmove_copies_overlapping_witness:
  "mem_read (memmove (\<lambda>a. ucast a) 12 10 5) 12 5 = [10, 11, 12, 13, 14]
    \<and> mem_read (memmove (\<lambda>a. ucast a) 8 10 5) 8 5 = [10, 11, 12, 13, 14]"
  using memmove_copies_overlapping [of 10 5 12 "\<lambda>a. ucast a"] memmove_copies_overlapping [of 10 5 8 "\<lambda>a. ucast a"]
  by (simp add: mem_read_def upt_rec)

text \<open>\<open>memcmp\<close> is the three-way lexicographic comparison of unsigned bytes: zero exactly for
  equal areas, -1 exactly when the first difference is smaller on the left, and antisymmetric.\<close>

theorem memcmp_is_lexicographic:
  "(memcmp m p q n = 0 \<longleftrightarrow> mem_read m p (unat n) = mem_read m q (unat n))
    \<and> (memcmp m p q n = -1 \<longleftrightarrow>
        (\<exists>k < unat n. m (p + of_nat k) < m (q + of_nat k) \<and> (\<forall>j < k. m (p + of_nat j) = m (q + of_nat j))))
    \<and> memcmp m q p n = - memcmp m p q n"
proof (intro conjI)
  show "memcmp m p q n = 0 \<longleftrightarrow> mem_read m p (unat n) = mem_read m q (unat n)"
    by (auto simp: memcmp_def memcmp_loop_0_iff mem_read_def)
  show "memcmp m p q n = -1 \<longleftrightarrow>
      (\<exists>k < unat n. m (p + of_nat k) < m (q + of_nat k) \<and> (\<forall>j < k. m (p + of_nat j) = m (q + of_nat j)))"
    by (auto simp: memcmp_def memcmp_loop_less_iff)
  show "memcmp m q p n = - memcmp m p q n" unfolding memcmp_def by (rule memcmp_loop_swap)
qed

theorem memcmp_is_lexicographic_witness:
  "memcmp (\<lambda>a. if a = 0x1002 then 9 else 5) 0x1000 0x2000 4 \<noteq> 0
    \<and> memcmp (\<lambda>a. if a = 0x1002 then 9 else 5) 0x2000 0x1000 4 = -1"
proof
  let ?m = "\<lambda>a :: u32. if a = 0x1002 then 9 else (5 :: byte)"
  have "\<exists>k < unat (4 :: u32). ?m (0x2000 + of_nat k) < ?m (0x1000 + of_nat k)
      \<and> (\<forall>j < k. ?m (0x2000 + of_nat j) = ?m (0x1000 + of_nat j))"
    by (intro exI [of _ 2]) (simp add: less_2_cases_iff)
  with memcmp_is_lexicographic [of ?m "0x2000" "0x1000" 4] show l: "memcmp ?m 0x2000 0x1000 4 = -1" by blast
  then show "memcmp ?m 0x1000 0x2000 4 \<noteq> 0" using memcmp_is_lexicographic [of ?m "0x2000" "0x1000" 4] by simp
qed

section \<open>The disk\<close>

text \<open>C22: The ATA driver's \<open>read_blocks\<close> implements the block store. The drive is any device that
  keeps the PIO protocol: it opens the data port for a sector only when a status without BSY and with
  DRQ was read, and a word read at another time is undefined. If moreover RDY comes only with DRQ while
  a command runs, which the driver's second wait needs beyond the standard, and no command is left
  over, then the call returns, the buffer holds exactly the requested blocks, the medium is unchanged
  and the next command can follow. A count of 0, which means 256 sectors to the drive, is excluded.\<close>

theorem ata_read_implements_block_store:
  assumes "ata_drive img dev" and "settled_status img dev" and "at_rest img tr"
    and "blocks_fit lba (unat count)" and "count \<noteq> 0"
  shows "\<exists>tr'. ata_read_blocks dev lba count tr = Some (read_blocks (medium (ata_state img tr)) lba count, tr')
    \<and> medium (ata_state img tr') = medium (ata_state img tr) \<and> at_rest img tr'"
  by (rule ata_read_refines [OF assms])

theorem ata_read_implements_block_store_witness:
  "\<exists>tr'. ata_read_blocks (sim_drive steady (\<lambda>a. of_nat a)) 7 2 [] = Some (read_blocks (\<lambda>a. of_nat a) 7 2, tr')"
  using ata_read_implements_block_store [OF steady_ok steady_settled at_rest_Nil, of 7 2 "\<lambda>a. of_nat a"]
  by (auto simp: blocks_fit_def ata_state_def)

text \<open>C23: The ATA driver's \<open>write_blocks\<close> implements the block store, with the same drives: the call
  returns and the medium afterwards is the old one with exactly the given blocks replaced. A word
  written while the data port is closed is not accepted.\<close>

theorem ata_write_implements_block_store:
  assumes "ata_drive img dev" and "settled_status img dev" and "at_rest img tr"
    and "blocks_fit lba (unat count)" and "count \<noteq> 0" and "length src = BLOCK_SIZE * unat count"
  shows "\<exists>tr'. ata_write_blocks dev src lba count tr = Some tr'
    \<and> medium (ata_state img tr') = write_blocks (medium (ata_state img tr)) src lba count \<and> at_rest img tr'"
  by (rule ata_write_refines [OF assms])

theorem ata_write_implements_block_store_witness:
  "\<exists>tr'. ata_write_blocks (sim_drive steady (\<lambda>_. 0)) (replicate 512 7) 3 1 [] = Some tr'
    \<and> medium (ata_state (\<lambda>_. 0) tr') = write_blocks (\<lambda>_. 0) (replicate 512 7) 3 1"
  using ata_write_implements_block_store [OF steady_ok steady_settled at_rest_Nil, of 3 1 "replicate 512 7" "\<lambda>_. 0"]
  by (auto simp: blocks_fit_def ata_state_def)

text \<open>The second wait tests RDY instead of DRQ. The protocol alone is not enough for it: the drive
  \<open>hasty\<close> keeps the protocol but still shows RDY without BSY for two polls after a command, and a
  read of it returns the bytes of the closed port, whatever the medium holds.\<close>

theorem ready_is_not_data:
  "ata_drive img (sim_drive hasty img)"
  "unat lba < 2 ^ 28 \<Longrightarrow> count \<noteq> 0 \<Longrightarrow>
   \<exists>tr'. ata_read_blocks (sim_drive hasty img) lba count [] = Some (replicate (BLOCK_SIZE * unat count) 0xFF, tr')"
  by (rule hasty_ok) (rule hasty_read [OF at_rest_Nil])

section \<open>Paging\<close>

text \<open>C20: Any sequence of frame allocations and releases by a client that stays off the kernel's
  page and maps a page only when it is unmapped runs without an access past the frame map and
  keeps the paging invariant: no frame has two owners, frame 0 has none, the counter is exact.\<close>

theorem paging_calls_are_safe:
  assumes "\<forall>c \<in> set calls. case c of Take v \<Rightarrow> page_index v \<noteq> KERNEL_PAGE | Give v \<Rightarrow> page_index v \<noteq> KERNEL_PAGE"
  shows "\<exists>s. frames.run_calls calls boot_state = Inr s \<and> paging_inv s"
proof -
  have "list_all frames.client_call calls"
    using assms by (auto simp: list_all_iff frames.client_call_def split: page_call.splits)
  then show ?thesis using frames.run_calls_ok [OF boot_inv] by blast
qed

theorem paging_calls_are_safe_witness:
  "\<exists>s. frames.run_calls [Take 0, Take 0x400000, Give 0, Take 0x800000] boot_state = Inr s \<and> paging_inv s"
  by (rule paging_calls_are_safe) (simp add: page_index_eq)

text \<open>C21: An allocation for an unmapped client page succeeds exactly while fewer than 31 frames are
  in use, and then gives the page a frame that no page had.\<close>

theorem allocation_succeeds_while_frames_remain:
  assumes "paging_inv s" and "page_index v \<noteq> KERNEL_PAGE" and "owner (fst s) (page_index v) = None"
  shows "(fst (map_page v s) \<longleftrightarrow> card (dom (owner (fst s))) < 31)
    \<and> (fst (map_page v s) \<longrightarrow> (\<exists>f. f \<notin> ran (owner (fst s))
         \<and> owner (fst (snd (map_page v s))) = (owner (fst s))(page_index v \<mapsto> f)))"
proof
  show iff: "fst (map_page v s) \<longleftrightarrow> card (dom (owner (fst s))) < 31"
    using frames.take_succeeds_iff [OF assms] by simp
  show "fst (map_page v s) \<longrightarrow> (\<exists>f. f \<notin> ran (owner (fst s))
      \<and> owner (fst (snd (map_page v s))) = (owner (fst s))(page_index v \<mapsto> f))"
    using map_page_full [OF assms(1)] map_page_ok [OF assms] by fastforce
qed

theorem allocation_succeeds_while_frames_remain_witness:
  "fst (map_page 0 boot_state)"
proof -
  have "owner (fst boot_state) = Map.empty"
    by (auto simp: owner_def boot_state_def kernel_page_directory_def nth_list_update zero_pde_def zero_flag_def)
  then show ?thesis
    using allocation_succeeds_while_frames_remain [OF boot_inv, of 0] by (simp add: page_index_eq)
qed

text \<open>\<open>paging_allocate_check\<close> compares with the free memory without overflow in 32 bits.\<close>

theorem allocate_check_is_exact:
  assumes "paging_inv s"
  shows "paging_allocate_check (snd s) amount \<longleftrightarrow>
    unat amount \<le> count_if Not (page_frame_map (snd s)) * (4 * 1024 * 1024)"
proof -
  let ?n = "count_if Not (page_frame_map (snd s))"
  have n: "unat (free_page_frame_count (snd s)) = ?n" by (rule pi_count [OF assms])
  have "?n \<le> 32" using count_if_le_length [of Not "page_frame_map (snd s)"] pi_map [OF assms] by simp
  moreover have "?n \<noteq> 32"
  proof
    assume "?n = 32"
    then have "\<forall>x \<in> set (page_frame_map (snd s)). \<not> x"
      using pi_map [OF assms] unfolding count_if_def by (metis length_filter_less less_irrefl)
    moreover have "page_frame_map (snd s) ! 0 \<in> set (page_frame_map (snd s))"
      using pi_map [OF assms] by (intro nth_mem) simp
    ultimately show False using pi_zero [OF assms] by blast
  qed
  ultimately have "?n * 4194304 < 2 ^ 32" by simp
  then have "unat (free_page_frame_count (snd s) * PAGE_FRAME_SIZE) = ?n * 4194304"
    using n by (simp add: unat_word_ariths)
  then show ?thesis by (simp add: paging_allocate_check_def word_le_nat_alt)
qed

theorem allocate_check_is_exact_witness:
  "paging_allocate_check (snd boot_state) 0x7C00000 \<and> \<not> paging_allocate_check (snd boot_state) 0x7C00001"
  using allocate_check_is_exact [OF boot_inv] by (simp add: boot_state_def initial_page_manager_def)

text \<open>C27: The entry that \<open>paging_allocate_user_page_frame\<close> installs does not reach its frame: the
  structure puts the frame number at bits 8 to 17, while the processor takes the frame of a
  4 MiB page from bits 22 to 31, which keep the value of \<open>higher_address\<close>; after boot that is 0,
  so that every user page is frame 0, whatever frame was reserved for it.\<close>

theorem user_pages_map_frame_zero:
  assumes "paging_inv s" and "page_index v \<noteq> KERNEL_PAGE" and "owner (fst s) (page_index v) = None"
    and "fst (map_page v s)" and "higher_address (fst s ! page_index v) = 0"
  shows "(\<exists>f > 0. owner (fst (snd (map_page v s))) (page_index v) = Some f)
    \<and> hardware_frame (encode_pde (fst (snd (map_page v s)) ! page_index v)) = 0"
proof -
  have ne: "ran (owner (fst s)) \<noteq> {1..<PAGE_FRAME_MAX_COUNT}"
    using map_page_full [OF assms(1), of v] assms(4) by auto
  from map_page_ok [OF assms(1,2,3) ne] obtain f s' where s': "map_page v s = (True, s')" "paging_inv s'"
    "owner (fst s') = (owner (fst s))(page_index v \<mapsto> f)" by blast
  have "f \<in> ran (owner (fst s'))" using s'(3) by (auto simp: ran_def)
  then have "0 < f" using pi_ran [OF s'(2)] by simp
  moreover have "higher_address (fst s' ! page_index v) = higher_address (fst s ! page_index v)"
    using s'(1) pi_dir [OF assms(1)]
    by (auto simp: map_page_def paging_allocate_user_page_frame_def update_page_directory_entry_def Let_def
        split: option.splits prod.splits)
  ultimately show ?thesis using s' assms(5) by (simp add: hardware_frame_encode)
qed

theorem user_pages_map_frame_zero_witness:
  "\<exists>f > 0. owner (fst (snd (map_page 0 boot_state))) 0 = Some f
    \<and> hardware_frame (encode_pde (fst (snd (map_page 0 boot_state)) ! 0)) = 0"
proof -
  have o: "owner (fst boot_state) = Map.empty"
    by (auto simp: owner_def boot_state_def kernel_page_directory_def nth_list_update zero_pde_def zero_flag_def)
  then have "ran (owner (fst boot_state)) \<noteq> {1..<PAGE_FRAME_MAX_COUNT}" by auto
  with map_page_ok [OF boot_inv, of 0] o have "fst (map_page 0 boot_state)" by (fastforce simp: page_index_eq)
  moreover have "higher_address (fst boot_state ! 0) = 0"
    by (simp add: boot_state_def kernel_page_directory_def zero_pde_def)
  ultimately show ?thesis
    using user_pages_map_frame_zero [OF boot_inv, of 0] o by (auto simp: page_index_eq)
qed

section \<open>Screen, keyboard and terminal\<close>

text \<open>A write to an on-screen cell changes that cell to the character and the packed colours
  and no other cell of the screen; \<open>framebuffer_clear\<close> blanks every cell and nothing else; the
  two bytes sent to the cursor ports are the position of the cell.\<close>

theorem screen_cells_are_independent:
  assumes "on_screen (r, c)" and "on_screen (r', c')"
  shows "cell (framebuffer_write r c ch fg bg m) (r', c')
      = (if (r', c') = (r, c) then [ch, push_bit 4 bg OR fg] else cell m (r', c'))
    \<and> cell (framebuffer_clear m) (r, c) = [0x00, 0x07]
    \<and> (\<forall>a. off_screen a \<longrightarrow> framebuffer_write r c ch fg bg m a = m a \<and> framebuffer_clear m a = m a)"
proof (intro conjI allI impI)
  show "cell (framebuffer_write r c ch fg bg m) (r', c')
      = (if (r', c') = (r, c) then [ch, push_bit 4 bg OR fg] else cell m (r', c'))"
    using cell_framebuffer_write [OF assms] by simp
  show "cell (framebuffer_clear m) (r, c) = [0x00, 0x07]" by (rule cell_clear [OF assms(1)])
  show "off_screen a \<Longrightarrow> framebuffer_write r c ch fg bg m a = m a" for a
    by (rule framebuffer_write_off_screen [OF assms(1)])
  show "off_screen a \<Longrightarrow> framebuffer_clear m a = m a" for a
    using clear_loop_outside [of 0 4000 a m] by (simp add: framebuffer_clear_def off_screen_def)
qed

theorem screen_cells_are_independent_witness:
  "cell (framebuffer_write 3 4 65 0xF 0 (\<lambda>_. 1)) (3, 4) = [65, 0xF]
    \<and> cell (framebuffer_write 3 4 65 0xF 0 (\<lambda>_. 1)) (4, 3) = cell (\<lambda>_. 1) (4, 3)"
  using screen_cells_are_independent [of 3 4 3 4 65 "0xF" 0 "\<lambda>_. 1"]
    screen_cells_are_independent [of 3 4 4 3 65 "0xF" 0 "\<lambda>_. 1"] by (simp add: on_screen_def)

text \<open>C29: Typing keys, each pressed, fetched with \<open>get_keyboard_buffer\<close> and released, delivers their
  characters in order, echoes them from the cursor on in one row of the screen, moves the column
  by one each, changes no other cell, and leaves the driver ready for the next key.\<close>

theorem typed_keys_are_delivered_and_echoed:
  assumes "list_all printable scs" and "ready c"
    and "krow (kbd c) = of_nat r" and "r < SCREEN_ROWS"
    and "kcol (kbd c) = of_nat n" and "n + length scs \<le> SCREEN_COLS"
  shows "fst (type_keys scs c) = map key_char scs \<and> ready (snd (type_keys scs c))
    \<and> kcol (kbd (snd (type_keys scs c))) = of_nat (n + length scs)
    \<and> (\<forall>y x. on_screen (y, x) \<longrightarrow> cell (video (snd (type_keys scs c))) (y, x)
         = (if unat y = r \<and> n \<le> unat x \<and> unat x < n + length scs
            then [key_char (scs ! (unat x - n)), 0x0F] else cell (video c) (y, x)))"
  using type_keys_spec [OF assms] by simp

definition demo_console :: console where
  "demo_console = \<lparr>kbd = initial_keyboard\<lparr>keyboard_input_on := True\<rparr>, cursor_row = 0, cursor_col = 0,
     video = (\<lambda>_. 0), ports = []\<rparr>"

lemma demo_console_simps [simp]:
  "ready demo_console" "krow (kbd demo_console) = 0" "kcol (kbd demo_console) = 0"
  "keyboard_input_on (kbd demo_console)" "cursor_ok demo_console"
  by (simp_all add: demo_console_def initial_keyboard_def ready_def cursor_ok_def on_screen_def)

theorem typed_keys_are_delivered_and_echoed_witness:
  "fst (type_keys [0x26, 0x1F] demo_console) = str ''ls''"
proof -
  have "list_all printable [0x26, 0x1F]" by code_simp
  moreover have "map key_char [0x26, 0x1F] = str ''ls''" by code_simp
  ultimately show ?thesis using typed_keys_are_delivered_and_echoed [of "[0x26, 0x1F]" demo_console 0 0] by simp
qed

text \<open>Backspace does not take back a character: after a key and a backspace the driver's state
  and the screen are as before the key, but the program has received the character and then a
  zero byte, so that the erased character stays in the line that the shell builds.\<close>

theorem backspace_erases_only_the_screen:
  assumes "printable sc" and "ready c" and "kcol (kbd c) = of_nat n" and "n < SCREEN_COLS"
    and "krow (kbd c) = of_nat r" and "r < SCREEN_ROWS"
  shows "fst (type_key sc c) = key_char sc
    \<and> fst (type_key 0x0E (snd (type_key sc c))) = 0
    \<and> kbd (snd (type_key 0x0E (snd (type_key sc c)))) = (kbd c)\<lparr>keyboard_buffer := 0\<rparr>
    \<and> cell (video (snd (type_key 0x0E (snd (type_key sc c))))) (of_nat r, of_nat n) = [0, 0x0F]"
  using erase_key [OF assms] by blast

theorem backspace_erases_only_the_screen_witness:
  "fst (type_key 0x26 demo_console) = 108 \<and> fst (type_key 0x0E (snd (type_key 0x26 demo_console))) = 0"
proof -
  have "printable 0x26" "key_char 0x26 = 108" by code_simp+
  then show ?thesis using backspace_erases_only_the_screen [of "0x26" demo_console 0 0] by simp
qed

text \<open>Every keyboard interrupt is acknowledged exactly once and last, whatever the scancode and
  the state; it neither switches the input off or on nor touches the position of the printer.\<close>

theorem keyboard_interrupt_acknowledged_once:
  "\<exists>es. ports (keyboard_isr dev c) = ports c @ es @ [Out8 PIC1_COMMAND PIC_ACK]
    \<and> sent_to PIC1_COMMAND es = []
    \<and> keyboard_input_on (kbd (keyboard_isr dev c)) = keyboard_input_on (kbd c)
    \<and> cursor_row (keyboard_isr dev c) = cursor_row c \<and> cursor_col (keyboard_isr dev c) = cursor_col c"
  using keyboard_isr_ports [of dev c] by auto

text \<open>C28: \<open>puts\<close> prints exactly its string up to the terminator, line breaks and wraps included: on
  the text position and the 2000 cells it is one step per character, which fills the cell at the
  position with the character in the colours of the attribute and goes to the next cell, or for a
  newline fills no cell and goes to the next row, both modulo the size of the screen. All other cells
  and all bytes outside the screen are unchanged, and the device's cursor is set once, to the end of
  the text. So a string without line breaks that fits is found in consecutive cells.\<close>

theorem puts_prints_the_string:
  fixes attr :: u32
  assumes "cursor_ok c" and "\<forall>i < unat n. off_screen (s + of_nat i)"
  defines "txt \<equiv> takeWhile (\<lambda>b. b \<noteq> 0) (mem_read (video c) s (unat n))"
    and "colours \<equiv> push_bit 4 (ucast (drop_bit 4 attr AND 0x0F)) OR ucast (attr AND 0x0F)"
  shows "(text_pos (puts s n attr c), cells (video (puts s n attr c)))
      = fold (\<lambda>ch (p, cs). (next_pos ch p, if ch = 10 then cs else cs(p := [ch, colours]))) txt (text_pos c, cells (video c))
    \<and> cursor_ok (puts s n attr c) \<and> text_pos (puts s n attr c) = fold next_pos txt (text_pos c)
    \<and> (\<forall>a. off_screen a \<longrightarrow> video (puts s n attr c) a = video c a)
    \<and> ports (puts s n attr c)
      = framebuffer_set_cursor (cursor_row (puts s n attr c)) (cursor_col (puts s n attr c)) (ports c)
    \<and> (10 \<notin> set txt \<and> text_pos c + length txt < 2000 \<longrightarrow>
        (\<forall>p < 2000. cell_at (video (puts s n attr c)) p
           = (if text_pos c \<le> p \<and> p < text_pos c + length txt
              then [txt ! (p - text_pos c), colours] else cell_at (video c) p)))"
  unfolding txt_def colours_def puts_def puts_loop_print [OF assms(1,2)] put_on_def [symmetric]
  using print_ok [OF assms(1)] print_cells [OF assms(1)] print_screen [OF assms(1)]
  by (simp add: update_cursor_ports print_ports)

text \<open>\<open>A\<close>, a line break and \<open>B\<close>.\<close>

definition two_lines :: console where
  "two_lines = demo_console\<lparr>video := \<lambda>a. if a = 0x1000 then 65 else if a = 0x1001 then 10 else if a = 0x1002 then 66 else 0\<rparr>"

theorem puts_prints_the_string_witness:
  "text_pos (puts 0x1000 5 0x2F two_lines) = 81
   \<and> cells (video (puts 0x1000 5 0x2F two_lines)) = (cells (video two_lines))(0 := [65, 0x2F], 80 := [66, 0x2F])"
proof -
  have ok: "cursor_ok two_lines" by (simp add: two_lines_def demo_console_def cursor_ok_def on_screen_def)
  have off: "\<forall>i < unat (5 :: u32). off_screen (0x1000 + of_nat i)"
  proof (intro allI impI)
    fix i assume "i < unat (5 :: u32)"
    then have "i = 0 \<or> i = 1 \<or> i = 2 \<or> i = 3 \<or> i = 4" by simp presburger
    then show "off_screen (0x1000 + of_nat i)" by (elim disjE) (simp_all add: off_screen_def)
  qed
  have str: "takeWhile (\<lambda>b. b \<noteq> 0) (mem_read (video two_lines) 0x1000 (unat (5 :: u32))) = [65, 10, 66]"
    by (simp add: two_lines_def mem_read_def upt_rec)
  have "push_bit 4 (ucast (drop_bit 4 (0x2F :: u32) AND 0x0F)) OR ucast ((0x2F :: u32) AND 0x0F) = (0x2F :: u8)"
    by code_simp
  moreover have "text_pos two_lines = 0" by (simp add: text_pos_def two_lines_def demo_console_def)
  ultimately show ?thesis
    using puts_prints_the_string [OF ok off, of "0x2F"] unfolding str by (simp add: next_pos_def)
qed

text \<open>When \<open>puts\<close> wraps from the last row to the first, the printer's row becomes 0 but the
  keyboard driver keeps the row number 25, so that the next key is echoed below the screen.\<close>

theorem wrap_leaves_keyboard_below_the_screen:
  assumes "cursor_ok c" and "cursor_row c = 24" and "ch = 10 \<or> cursor_col c = 79"
  shows "cursor_row (put_char fg bg ch c) = 0 \<and> cursor_col (put_char fg bg ch c) = 0
    \<and> krow (kbd (put_char fg bg ch c)) = 25
    \<and> (printable sc \<and> \<not> key_pressed (kbd c) \<longrightarrow>
        fb_addr (frame_buffer_index (ucast (krow (kbd (put_char fg bg ch c)))) 0) = FRAMEBUFFER_MEMORY_OFFSET + 4000)"
proof -
  have "80 \<le> cursor_col c + 1" if "cursor_col c = 79" using that by simp
  then have "cursor_row (put_char fg bg ch c) = 0 \<and> cursor_col (put_char fg bg ch c) = 0
      \<and> krow (kbd (put_char fg bg ch c)) = 25"
    using assms(2,3) by (auto simp: put_char_def Let_def set_row_def set_col_def)
  then show ?thesis by (simp add: fb_addr_def frame_buffer_index_def)
qed

theorem wrap_leaves_keyboard_below_the_screen_witness:
  "krow (kbd (put_char 0xF 0 10 (demo_console\<lparr>cursor_row := 24\<rparr>))) = 25"
proof -
  have "cursor_ok (demo_console\<lparr>cursor_row := 24\<rparr>)" by (simp add: demo_console_def cursor_ok_def on_screen_def)
  from wrap_leaves_keyboard_below_the_screen [OF this, of 10 "0xF" 0 0] show ?thesis by simp
qed

section \<open>Interrupt controller and descriptor tables\<close>

text \<open>\<open>pic_remap\<close> sends each controller its four initialisation words and the mask that
  disables all lines, in order, with the vector offsets 0x20 and 0x28 and the cascade wiring;
  \<open>activate_keyboard_interrupt\<close> clears exactly bit 1 of the mask it reads.\<close>

theorem pic_remap_sends_the_words:
  "sent_to PIC1_COMMAND (pic_remap tr) = sent_to PIC1_COMMAND tr @ [0x11]
    \<and> sent_to PIC1_DATA (pic_remap tr) = sent_to PIC1_DATA tr @ [0x20, 0x04, 0x01, 0xFF]
    \<and> sent_to PIC2_COMMAND (pic_remap tr) = sent_to PIC2_COMMAND tr @ [0x11]
    \<and> sent_to PIC2_DATA (pic_remap tr) = sent_to PIC2_DATA tr @ [0x28, 0x02, 0x01, 0xFF]
    \<and> sent_to PIC1_DATA (activate_keyboard_interrupt dev tr) = sent_to PIC1_DATA tr @ [answer8 dev tr PIC1_DATA AND 0xFD]"
  using pic_remap_words [of tr] keyboard_mask [of dev tr] by blast

text \<open>C38: \<open>initialize_idt\<close> installs the 64 stubs as present 32-bit interrupt gates of the kernel's
  code segment, and the processor lets user mode raise vector 0x30 only.\<close>

theorem only_the_system_call_is_user_callable:
  assumes "i < ISR_STUB_TABLE_LIMIT"
  shows "hw_offset (initialize_idt stubs interrupt_descriptor_table ! i) = unat (stubs ! i)
    \<and> hw_selector (initialize_idt stubs interrupt_descriptor_table ! i) = 8
    \<and> hw_access (initialize_idt stubs interrupt_descriptor_table ! i) = (if i = 0x30 then 0xEE else 0x8E)"
proof -
  have "length interrupt_descriptor_table = IDT_MAX_ENTRY_COUNT" by (simp add: interrupt_descriptor_table_def)
  from initialize_idt_nth [OF this, of i stubs] show ?thesis
    using assms hw_interrupt_gate [of 0 "stubs ! i"] hw_interrupt_gate [of 3 "stubs ! i"]
    by (cases "i = 0x30") simp_all
qed

theorem only_the_system_call_is_user_callable_witness:
  "hw_access (initialize_idt (replicate 64 0xC0100000) interrupt_descriptor_table ! 0x30) = 0xEE
    \<and> hw_access (initialize_idt (replicate 64 0xC0100000) interrupt_descriptor_table ! 0x21) = 0x8E"
  using only_the_system_call_is_user_callable [of "0x30" "replicate 64 0xC0100000"]
    only_the_system_call_is_user_callable [of "0x21" "replicate 64 0xC0100000"] by simp

text \<open>C39: The global descriptor table as the processor reads it: the kernel's and the user's code and
  data segments are flat over 4 GiB with privilege 0 and 3, and after \<open>gdt_install_tss\<close> entry 5
  has the address of the task state as its base; no other entry changes.\<close>

theorem segments_as_the_processor_reads_them:
  "(\<forall>i \<in> {1, 2, 3, 4}. hw_base (encode_descriptor (global_descriptor_table ! i)) = 0
      \<and> hw_limit (encode_descriptor (global_descriptor_table ! i)) = 0xFFFFF
      \<and> granularity (global_descriptor_table ! i)
      \<and> hw_dpl (encode_descriptor (global_descriptor_table ! i)) = (if i \<le> 2 then 0 else 3))
    \<and> hw_base (encode_descriptor (gdt_install_tss base global_descriptor_table ! 5)) = unat base
    \<and> (\<forall>i. i \<noteq> 5 \<longrightarrow> gdt_install_tss base global_descriptor_table ! i = global_descriptor_table ! i)"
proof (intro conjI ballI allI impI)
  fix i :: nat assume "i \<in> {1, 2, 3, 4}"
  then have "\<exists>ty l. global_descriptor_table ! i = flat_descriptor ty (if i \<le> 2 then 0 else 3) l"
    unfolding global_descriptor_table_def by (elim insertE emptyE) (simp_all, blast+)
  then obtain ty l where d: "global_descriptor_table ! i = flat_descriptor ty (if i \<le> 2 then 0 else 3) l" by blast
  show "hw_base (encode_descriptor (global_descriptor_table ! i)) = 0"
    unfolding d hw_base_encode by (simp add: linear_base_def flat_descriptor_def zero_descriptor_def)
  show "hw_limit (encode_descriptor (global_descriptor_table ! i)) = 0xFFFFF"
    unfolding d by (rule flat_limit)
  show "granularity (global_descriptor_table ! i)" unfolding d by (simp add: flat_descriptor_def)
  show "hw_dpl (encode_descriptor (global_descriptor_table ! i)) = (if i \<le> 2 then 0 else 3)"
    unfolding d flat_dpl by simp
next
  show "hw_base (encode_descriptor (gdt_install_tss base global_descriptor_table ! 5)) = unat base"
    unfolding hw_base_encode by (rule install_tss_base) simp
  show "i \<noteq> 5 \<Longrightarrow> gdt_install_tss base global_descriptor_table ! i = global_descriptor_table ! i" for i
    by (rule install_tss_other)
qed

theorem segments_as_the_processor_reads_them_witness:
  "hw_dpl (encode_descriptor (global_descriptor_table ! 3)) = 3
    \<and> hw_base (encode_descriptor (gdt_install_tss 0xC0105A60 global_descriptor_table ! 5)) = 0xC0105A60"
  using segments_as_the_processor_reads_them [of "0xC0105A60"] by simp

end
