(* ===== verification/Statements.thy ===== *)
theory Statements
  imports Prelude
begin

text \<open>
  Statements of a C function: a statement takes the state to the outcome of running it, which may
  be a fault or no return at all. \<open>block\<close> runs statements in order, \<open>with_value\<close> passes the value of
  an expression that may fault. \<open>returns\<close> is total correctness, with one introduction rule per
  combinator. The locale \<open>kept_relation\<close> is the contract of a group of statements that all return and
  keep a relation to the state before: any block of them does, too.
\<close>

section \<open>Sequencing\<close>

definition bind_run :: "'a run \<Rightarrow> ('a \<Rightarrow> 'b run) \<Rightarrow> 'b run" where
  "bind_run x f = (case x of None \<Rightarrow> None | Some (Inl e) \<Rightarrow> Some (Inl e) | Some (Inr a) \<Rightarrow> f a)"

lemma bind_run_simps [simp]:
  "bind_run None f = None"
  "bind_run (Some (Inl e)) f = Some (Inl e)"
  "bind_run (Some (Inr a)) f = f a"
  by (simp_all add: bind_run_def)

primrec block :: "('s \<Rightarrow> 's run) list \<Rightarrow> 's \<Rightarrow> 's run" where
  "block [] s = Some (Inr s)"
| "block (f # fs) s = bind_run (f s) (block fs)"

definition with_value :: "'a outcome \<Rightarrow> ('a \<Rightarrow> 's \<Rightarrow> 's run) \<Rightarrow> 's \<Rightarrow> 's run" where
  "with_value x f s = bind_run (Some x) (\<lambda>a. f a s)"

lemma with_value_simps [simp]:
  "with_value (Inl e) f s = Some (Inl e)"
  "with_value (Inr a) f s = f a s"
  by (simp_all add: with_value_def)

lemma block_append: "block (fs @ gs) s = bind_run (block fs s) (block gs)"
  by (induction fs arbitrary: s) (simp_all add: bind_run_def split: option.splits sum.splits)

section \<open>Total correctness\<close>

definition returns :: "'a run \<Rightarrow> ('a \<Rightarrow> bool) \<Rightarrow> bool" where
  "returns x Q \<longleftrightarrow> (\<exists>a. x = Some (Inr a) \<and> Q a)"

named_theorems returns_intros \<open>total correctness of the combinators\<close>

lemma returns_Inr [simp]: "returns (Some (Inr a)) Q = Q a"
  by (simp add: returns_def)

lemma returns_bind [returns_intros]: "returns x (\<lambda>a. returns (f a) Q) \<Longrightarrow> returns (bind_run x f) Q"
  by (auto simp: returns_def)

lemma returns_block_Cons [returns_intros]:
  "returns (f s) (\<lambda>s'. returns (block fs s') Q) \<Longrightarrow> returns (block (f # fs) s) Q"
  by (simp add: returns_bind)

lemma returns_block_Nil [returns_intros]: "Q s \<Longrightarrow> returns (block [] s) Q"
  by simp

lemma returns_mono: "returns x Q \<Longrightarrow> (\<And>a. Q a \<Longrightarrow> R a) \<Longrightarrow> returns x R"
  by (auto simp: returns_def)

lemma returnsE:
  assumes "returns x Q"
  obtains a where "x = Some (Inr a)" "Q a"
  using assms by (auto simp: returns_def)

section \<open>Frames\<close>

locale kept_relation =
  fixes ok :: "'s \<Rightarrow> bool"
    and same :: "'s \<Rightarrow> 's \<Rightarrow> bool"
  assumes same_refl: "same s s"
    and same_trans: "same s t \<Longrightarrow> same t u \<Longrightarrow> same s u"
    and same_ok: "same s t \<Longrightarrow> ok s \<Longrightarrow> ok t"
begin

definition keeps :: "('s \<Rightarrow> 's run) \<Rightarrow> bool" where
  "keeps f \<longleftrightarrow> (\<forall>s. ok s \<longrightarrow> returns (f s) (same s))"

lemma keepsI: "(\<And>s. ok s \<Longrightarrow> returns (f s) (same s)) \<Longrightarrow> keeps f"
  by (simp add: keeps_def)

lemma keepsD: "keeps f \<Longrightarrow> ok s \<Longrightarrow> returns (f s) (same s)"
  by (simp add: keeps_def)

lemma keeps_block: "list_all keeps fs \<Longrightarrow> keeps (block fs)"
proof (induction fs)
  case Nil
  then show ?case by (simp add: keeps_def same_refl)
next
  case (Cons f fs)
  show ?case
  proof (rule keepsI)
    fix s assume s: "ok s"
    have "returns (f s) (same s)" using Cons.prems s by (simp add: keepsD)
    then obtain t where t: "f s = Some (Inr t)" "same s t" by (rule returnsE)
    have "returns (block fs t) (same t)"
      using Cons s t by (simp add: keepsD same_ok)
    with t show "returns (block (f # fs) s) (same s)"
      by (auto intro: same_trans elim!: returns_mono)
  qed
qed

text \<open>A statement that keeps the state within the frame may be added before or behind another.\<close>

lemma keeps_then:
  assumes "keeps f" and "ok s" and "\<And>t. same s t \<Longrightarrow> returns (g t) Q"
  shows "returns (bind_run (f s) g) Q"
proof -
  obtain t where "f s = Some (Inr t)" "same s t" using keepsD [OF assms(1,2)] by (rule returnsE)
  then show ?thesis using assms(3) by simp
qed

end

end
