(* ===== verification/Shell_Strings.thy ===== *)
theory Shell_Strings
  imports String_C Statements
begin

text \<open>
  The strings of the user shell (\<open>strLength\<close>, \<open>strCompare\<close>, \<open>struct StringBuff\<close> with its two
  operations, and the splitting of a command line at the start of \<open>parseCommand\<close>, in
  \<open>src/user-shell.c\<close>). An argument \<open>char*\<close> is the list of bytes from the pointer to the end of the
  object it points into; a loop that runs off that end is out of bounds.
\<close>

section \<open>Zero-terminated strings\<close>

fun strLength_loop :: "u32 \<Rightarrow> byte list \<Rightarrow> u32 outcome" where
  "strLength_loop count [] = Inl OutOfBounds"
| "strLength_loop count (c # buf) = (if c \<noteq> 0 then strLength_loop (count + 1) buf else Inr count)"

definition strLength :: "byte list \<Rightarrow> u32 outcome" where
  "strLength buf = strLength_loop 0 buf"

fun strCompare_loop :: "byte list \<Rightarrow> byte list \<Rightarrow> bool outcome" where
  "strCompare_loop [] str2 = Inl OutOfBounds"
| "strCompare_loop (c # str1) str2 =
     (if c = 0 then Inr True
      else case str2 of
          [] \<Rightarrow> Inl OutOfBounds
        | d # str2' \<Rightarrow> if c \<noteq> d then Inr False else strCompare_loop str1 str2')"

definition strCompare :: "byte list \<Rightarrow> byte list \<Rightarrow> bool outcome" where
  "strCompare str1 str2 =
     bind_outcome (strLength str1) (\<lambda>len1. bind_outcome (strLength str2) (\<lambda>len2.
       if len1 \<noteq> len2 then Inr False else strCompare_loop str1 str2))"

section \<open>String buffers\<close>

text \<open>The C fields are \<open>buf\<close> and \<open>len\<close>.\<close>

record string_buff =
  chars :: "byte list"
  slen :: u32

definition stringBuff_create :: string_buff where
  "stringBuff_create = \<lparr>chars = replicate 256 0, slen = 0\<rparr>"

definition stringBuffInputChar :: "byte \<Rightarrow> string_buff \<Rightarrow> string_buff outcome" where
  "stringBuffInputChar c b =
     (if unat (slen b) < length (chars b)
      then Inr (b\<lparr>chars := (chars b)[unat (slen b) := c], slen := slen b + 1\<rparr>)
      else Inl OutOfBounds)"

text \<open>The object behind \<open>&b.buf[0]\<close>: the characters and the field after them.\<close>

definition buff_object :: "string_buff \<Rightarrow> byte list" where
  "buff_object b = chars b @ enc32 (slen b)"

section \<open>The words of a command line\<close>

text \<open>
  One of the three loops of \<open>parseCommand\<close>: copy characters from index \<open>i\<close> up to a blank or the
  end of the input. The result is the word and the index at which the loop stopped.
\<close>

function take_word :: "string_buff \<Rightarrow> u32 \<Rightarrow> string_buff \<Rightarrow> (string_buff \<times> u32) outcome" where
  "take_word inp i word =
     (if i < slen inp then
        (if length (chars inp) \<le> unat i then Inl OutOfBounds
         else if chars inp ! unat i = 32 then Inr (word, i)
         else case stringBuffInputChar (chars inp ! unat i) word of
             Inl e \<Rightarrow> Inl e
           | Inr word' \<Rightarrow> take_word inp (i + 1) word')
      else Inr (word, i))"
  by pat_completeness auto
termination
proof (relation "measure (\<lambda>(inp, i, word). unat (slen inp) - unat i)")
  fix inp :: string_buff and i :: u32 and word word' :: string_buff
  assume i: "i < slen inp"
  then have "unat i < unat (slen inp)" by (simp add: word_less_nat_alt)
  moreover have "Suc (unat i) < 4294967296"
    using calculation unat_u32_lt [of "slen inp"] by linarith
  then have "unat (i + 1) = Suc (unat i)" by (simp add: unat_word_ariths)
  ultimately show "((inp, i + 1, word'), inp, i, word) \<in> measure (\<lambda>(inp, i, word). unat (slen inp) - unat i)"
    by simp
qed simp

declare take_word.simps [simp del]

definition split_command :: "string_buff \<Rightarrow> (string_buff \<times> string_buff \<times> string_buff) outcome" where
  "split_command inp =
     bind_outcome (take_word inp 0 stringBuff_create) (\<lambda>(perintah, i).
       bind_outcome (take_word inp (i + 1) stringBuff_create) (\<lambda>(variabel, i).
         bind_outcome (take_word inp (i + 1) stringBuff_create) (\<lambda>(variabel2, i).
           Inr (perintah, variabel, variabel2))))"

section \<open>Lengths and comparison are those of C strings\<close>

text \<open>The string of an object: the bytes before its first zero.\<close>

definition c_string :: "byte list \<Rightarrow> byte list" where
  "c_string obj = takeWhile (\<lambda>b. b \<noteq> 0) obj"

lemma c_string_simps [simp]:
  "c_string [] = []"
  "c_string (b # bs) = (if b = 0 then [] else b # c_string bs)"
  by (simp_all add: c_string_def)

lemma c_string_append: "0 \<notin> set xs \<Longrightarrow> c_string (xs @ 0 # ys) = xs"
  by (induction xs) auto

lemma strLength_loop_eq:
  "strLength_loop n obj = (if 0 \<in> set obj then Inr (n + of_nat (length (c_string obj))) else Inl OutOfBounds)"
  by (induction n obj rule: strLength_loop.induct) auto

lemma strLength_eq:
  "strLength obj = (if 0 \<in> set obj then Inr (of_nat (length (c_string obj))) else Inl OutOfBounds)"
  by (simp add: strLength_def strLength_loop_eq)

lemma strCompare_loop_eq:
  "0 \<in> set xs \<Longrightarrow> 0 \<in> set ys \<Longrightarrow> length (c_string xs) = length (c_string ys) \<Longrightarrow>
   strCompare_loop xs ys = Inr (c_string xs = c_string ys)"
proof (induction xs arbitrary: ys)
  case Nil
  then show ?case by simp
next
  case (Cons x xs)
  then show ?case by (cases ys) (auto split: if_splits)
qed

lemma strCompare_eq:
  assumes "0 \<in> set xs" and "0 \<in> set ys" and "length xs < 2 ^ 32" and "length ys < 2 ^ 32"
  shows "strCompare xs ys = Inr (c_string xs = c_string ys)"
proof -
  have "length (c_string zs) \<le> length zs" for zs by (simp add: c_string_def length_takeWhile_le)
  then have "length (c_string xs) < 2 ^ 32" "length (c_string ys) < 2 ^ 32"
    using assms(3,4) le_less_trans by blast+
  then have "(of_nat (length (c_string xs)) :: u32) = of_nat (length (c_string ys))
      \<longleftrightarrow> length (c_string xs) = length (c_string ys)"
    by (metis unat_of_nat32)
  then show ?thesis
    using strCompare_loop_eq [OF assms(1,2)] by (auto simp: strCompare_def strLength_eq assms(1,2))
qed

section \<open>Buffers as lines\<close>

text \<open>The buffer that holds exactly a line.\<close>

definition line :: "byte list \<Rightarrow> string_buff" where
  "line bs = \<lparr>chars = bs @ replicate (256 - length bs) 0, slen = of_nat (length bs)\<rparr>"

lemma line_Nil [simp]: "line [] = stringBuff_create"
  by (simp add: line_def stringBuff_create_def)

lemma line_sel [simp]:
  "slen (line bs) = of_nat (length bs)"
  "length bs \<le> 256 \<Longrightarrow> length (chars (line bs)) = 256"
  "i < length bs \<Longrightarrow> chars (line bs) ! i = bs ! i"
  by (simp_all add: line_def nth_append)

lemma input_char_line: "length bs < 256 \<Longrightarrow> stringBuffInputChar c (line bs) = Inr (line (bs @ [c]))"
proof -
  assume l: "length bs < 256"
  have "(bs @ replicate (256 - length bs) 0)[length bs := c] = (bs @ [c]) @ replicate (256 - length (bs @ [c])) 0"
    using l by (simp add: list_update_append Suc_diff_Suc [symmetric] del: diff_Suc_Suc)
  with l show ?thesis by (simp add: stringBuffInputChar_def line_def)
qed

lemma input_char_full: "length bs = 256 \<Longrightarrow> stringBuffInputChar c (line bs) = Inl OutOfBounds"
  by (simp add: stringBuffInputChar_def line_def)

lemma length_object: "length bs \<le> 256 \<Longrightarrow> length (buff_object (line bs)) = 260"
  by (simp add: buff_object_def)

lemma object_line:
  assumes "length bs \<le> 256"
  shows "\<exists>rest. buff_object (line bs) = bs @ 0 # rest"
proof (cases "length bs = 256")
  case True
  have "enc32 256 = [0, 1, 0, 0]" by code_simp
  with True show ?thesis by (simp add: buff_object_def line_def)
next
  case False
  with assms have "256 - length bs = Suc (255 - length bs)" by simp
  then show ?thesis by (simp add: buff_object_def line_def)
qed

lemma line_object:
  assumes "length bs \<le> 256"
  shows "0 \<in> set (buff_object (line bs))"
    and "0 \<notin> set bs \<Longrightarrow> c_string (buff_object (line bs)) = bs"
  using object_line [OF assms] by (auto simp: c_string_append)

lemma take_word_line:
  assumes "length bs \<le> 256" and "i + length acc + length (takeWhile (\<lambda>c. c \<noteq> 32) (drop i bs)) < 2 ^ 32"
    and "length acc + length (takeWhile (\<lambda>c. c \<noteq> 32) (drop i bs)) \<le> 256"
  shows "take_word (line bs) (of_nat i) (line acc)
    = Inr (line (acc @ takeWhile (\<lambda>c. c \<noteq> 32) (drop i bs)),
           of_nat (i + length (takeWhile (\<lambda>c. c \<noteq> 32) (drop i bs))))"
  using assms
proof (induction "length bs - i" arbitrary: i acc)
  case 0
  then have i: "length bs \<le> i" "i < 2 ^ 32" by simp_all
  then have "\<not> (of_nat i :: u32) < of_nat (length bs)" by (simp add: word_less_nat_alt)
  with i show ?case by (simp add: take_word.simps)
next
  case (Suc k)
  let ?t = "\<lambda>i. takeWhile (\<lambda>c. c \<noteq> 32) (drop i bs)"
  have i: "i < length bs" using Suc.hyps(2) by simp
  then have b: "i < 256" using Suc.prems(1) by simp
  then have u: "unat (of_nat i :: u32) = i" by simp
  have lt: "(of_nat i :: u32) < of_nat (length bs)" using i Suc.prems(1) by (simp add: word_less_nat_alt)
  have d: "drop i bs = bs ! i # drop (Suc i) bs" using i by (rule Cons_nth_drop_Suc [symmetric])
  show ?case
  proof (cases "bs ! i = 32")
    case True
    then have "?t i = []" by (simp add: d)
    with True i b u lt Suc.prems(1) show ?thesis by (subst take_word.simps) simp
  next
    case False
    then have t: "?t i = bs ! i # ?t (Suc i)" by (simp add: d)
    have a: "length acc < 256" using Suc.prems(3) by (simp add: t)
    have "take_word (line bs) (of_nat i) (line acc) = take_word (line bs) (of_nat i + 1) (line (acc @ [bs ! i]))"
      using False i b u lt Suc.prems(1) by (subst take_word.simps) (simp add: input_char_line [OF a])
    also have "\<dots> = take_word (line bs) (of_nat (Suc i)) (line (acc @ [bs ! i]))" by (simp add: add.commute)
    also have "\<dots> = Inr (line ((acc @ [bs ! i]) @ ?t (Suc i)), of_nat (Suc i + length (?t (Suc i))))"
      using Suc.hyps(2) Suc.prems by (intro Suc.hyps(1)) (simp_all add: t)
    finally show ?thesis by (simp add: t)
  qed
qed

text \<open>The words of a line: split at single blanks, the words beyond the third ignored.\<close>

definition first_word :: "byte list \<Rightarrow> byte list" where
  "first_word bs = takeWhile (\<lambda>c. c \<noteq> 32) bs"

definition next_words :: "byte list \<Rightarrow> byte list" where
  "next_words bs = drop (length (first_word bs) + 1) bs"

lemma length_first_word: "length (first_word bs) \<le> length bs"
  by (simp add: first_word_def length_takeWhile_le)

lemma take_word_at:
  assumes "length bs \<le> 256" and "i < 2 ^ 31"
  shows "take_word (line bs) (of_nat i) stringBuff_create
    = Inr (line (first_word (drop i bs)), of_nat (i + length (first_word (drop i bs))))"
  using take_word_line [of bs i "[]"] length_first_word [of "drop i bs"] assms
  by (simp add: first_word_def)

lemma split_line:
  assumes "length bs \<le> 256"
  shows "split_command (line bs)
    = Inr (line (first_word bs), line (first_word (next_words bs)), line (first_word (next_words (next_words bs))))"
proof -
  define i where "i = length (first_word bs) + 1"
  define j where "j = i + length (first_word (next_words bs)) + 1"
  have i: "drop i bs = next_words bs" by (simp add: i_def next_words_def)
  have j: "drop j bs = next_words (next_words bs)"
    by (simp add: j_def next_words_def i_def add.commute)
  have "length (first_word bs) \<le> 256" "length (first_word (next_words bs)) \<le> 256"
    using length_first_word [of bs] length_first_word [of "next_words bs"] assms
    by (simp_all add: next_words_def)
  then have b: "i < 2 ^ 31" "j < 2 ^ 31" by (simp_all add: i_def j_def)
  have 1: "take_word (line bs) 0 stringBuff_create = Inr (line (first_word bs), of_nat (length (first_word bs)))"
    using take_word_at [OF assms, of 0] by simp
  have 2: "take_word (line bs) (of_nat (length (first_word bs)) + 1) stringBuff_create
      = Inr (line (first_word (next_words bs)), of_nat (i + length (first_word (next_words bs))))"
    using take_word_at [OF assms b(1)] by (simp add: i [symmetric]) (simp add: i_def add.commute)
  have 3: "take_word (line bs) (of_nat (i + length (first_word (next_words bs))) + 1) stringBuff_create
      = Inr (line (first_word (next_words (next_words bs))), of_nat (j + length (first_word (next_words (next_words bs)))))"
    using take_word_at [OF assms b(2)] by (simp add: j [symmetric]) (simp add: j_def add.commute)
  show ?thesis by (simp add: split_command_def 1 2 3 del: of_nat_add)
qed

end
