(* ===== verification/Syscall.thy ===== *)
theory Syscall
  imports Fat32_System Terminal
begin

unbundle bit_operations_syntax

text \<open>
  Interrupt dispatch and system calls (\<open>syscall\<close> and \<open>main_interrupt_handler\<close> of
  \<open>src/interrupt.c\<close>, the frame of \<open>header/cpu/interrupt.h\<close> and the stub of
  \<open>intsetup.s\<close> that builds it). The kernel's state joins the file system and the console;
  both see one memory, that of the file system's \<open>request.buf\<close>. Requests are read from the
  caller's memory in the layout of the packed structure, and return codes are stored there.

  \<open>kernel_inv\<close> is the invariant of the running kernel; every interrupt whose file-system
  request is acceptable returns and preserves it.
\<close>

section \<open>The request structure in memory\<close>

definition encode_request :: "request \<Rightarrow> byte list" where
  "encode_request r = enc32 (buf r) @ rname r @ rext r @ enc32 (parent_cluster_number r) @ enc32 (buffer_size r)"

definition decode_request :: "byte list \<Rightarrow> request" where
  "decode_request bs = \<lparr>buf = dec32 (chunk 0 4 bs), rname = chunk 4 8 bs, rext = chunk 12 3 bs,
     parent_cluster_number = dec32 (chunk 15 4 bs), buffer_size = dec32 (chunk 19 4 bs)\<rparr>"

lemma request_bytes:
  assumes "length bs = 23"
  shows "chunk 0 4 bs @ chunk 4 8 bs @ chunk 12 3 bs @ chunk 15 4 bs @ chunk 19 4 bs = bs"
proof -
  have split: "chunk i a bs @ chunk (i + a) b bs = chunk i (a + b) bs" for i a b
    by (simp add: chunk_def take_add add.commute)
  have "chunk 0 4 bs @ chunk 4 8 bs @ chunk 12 3 bs @ chunk 15 4 bs @ chunk 19 4 bs = chunk 0 23 bs"
    using split [of 15 4 4] split [of 12 3 8] split [of 4 8 11] split [of 0 4 19] by simp
  then show ?thesis using assms by (simp add: chunk_def)
qed

interpretation requests: fixed_codec encode_request decode_request 23 wf_request
proof unfold_locales
  fix bs :: "byte list" assume "length bs = 23"
  then show "encode_request (decode_request bs) = bs" and "wf_request (decode_request bs)"
    using request_bytes [of bs] by (simp_all add: encode_request_def decode_request_def wf_request_def)
next
  fix r :: request assume "wf_request r"
  then show "length (encode_request r) = 23" and "decode_request (encode_request r) = r"
    by (simp_all add: encode_request_def decode_request_def wf_request_def chunk_def)
qed

section \<open>The kernel state and the interrupt frame\<close>

record kernel =
  files :: fs
  tty :: console

text \<open>The console works on the memory of the file system.\<close>

definition with_console :: "(console \<Rightarrow> console) \<Rightarrow> kernel \<Rightarrow> kernel" where
  "with_console f k =
     (let c = f ((tty k)\<lparr>video := memory (files k)\<rparr>)
      in k\<lparr>files := (files k)\<lparr>memory := video c\<rparr>, tty := c\<rparr>)"

record interrupt_frame =
  reg_edi :: u32
  reg_esi :: u32
  reg_esp :: u32
  reg_ebp :: u32
  reg_ebx :: u32
  reg_edx :: u32
  reg_ecx :: u32
  reg_eax :: u32
  reg_gs :: u32
  reg_fs :: u32
  reg_es :: u32
  reg_ds :: u32
  int_number :: u32
  error_code :: u32
  stack_eip :: u32
  stack_cs :: u32
  stack_eflags :: u32

section \<open>System calls\<close>

definition request_at :: "kernel \<Rightarrow> u32 \<Rightarrow> request" where
  "request_at k p = decode_request (mem_read (memory (files k)) p 23)"

definition store8 :: "u32 \<Rightarrow> byte \<Rightarrow> fs \<Rightarrow> fs" where
  "store8 p v st = st\<lparr>memory := (memory st)(p := v)\<rparr>"

text \<open>\<open>*((int8_t*) ecx) = f(request)\<close>\<close>

definition return_code :: "u32 \<Rightarrow> kernel \<Rightarrow> (i8 \<times> fs) run \<Rightarrow> kernel run" where
  "return_code p k res = map_option (map_sum id (\<lambda>(code, st). k\<lparr>files := store8 p code st\<rparr>)) res"

definition syscall :: "interrupt_frame \<Rightarrow> kernel \<Rightarrow> kernel run" where
  "syscall frame k =
     (let eax = reg_eax frame; ebx = reg_ebx frame; ecx = reg_ecx frame; edx = reg_edx frame
      in if eax = 0 then return_code ecx k (fat32_read (request_at k ebx) (files k))
         else if eax = 1 then
           return_code ecx k (Some (Inr (fat32_read_directory (request_at k ebx) (files k))))
         else if eax = 2 then return_code ecx k (Some (fat32_write (request_at k ebx) (files k)))
         else if eax = 3 then
           Some (Inr (k\<lparr>files := (files k)\<lparr>memory :=
             mem_write (memory (files k)) ecx (rd (storage (files k)) ebx)\<rparr>\<rparr>))
         else if eax = 4 then
           (case get_keyboard_buffer (kbd (tty k)) of (ch, kb) \<Rightarrow>
              Some (Inr (k\<lparr>files := store8 ebx ch (files k), tty := (tty k)\<lparr>kbd := kb\<rparr>\<rparr>)))
         else if eax = 6 then Some (Inr (with_console (puts ebx ecx edx) k))
         else if eax = 7 then
           Some (Inr (k\<lparr>tty := (tty k)\<lparr>kbd := keyboard_state_activate (kbd (tty k))\<rparr>\<rparr>))
         else if eax = 8 then return_code ecx k (fat32_delete (request_at k ebx) (files k))
         else Some (Inr k))"

definition main_interrupt_handler :: "device \<Rightarrow> interrupt_frame \<Rightarrow> kernel \<Rightarrow> kernel run" where
  "main_interrupt_handler dev frame k =
     (if int_number frame = ucast PIC1_OFFSET + ucast IRQ_KEYBOARD then Some (Inr (with_console (keyboard_isr dev) k))
      else if int_number frame = 0x30 then syscall frame k
      else Some (Inr k))"

section \<open>The stub that builds the frame\<close>

text \<open>
  \<open>call_generic_handler\<close> pushes the segment registers and then all general registers with
  \<open>pushad\<close>; the entry pushed an error code and the vector. The stack is listed from the
  last push on, in the order of the addresses of the frame structure.
\<close>

record cpu =
  cpu_eax :: u32
  cpu_ebx :: u32
  cpu_ecx :: u32
  cpu_edx :: u32
  cpu_esi :: u32
  cpu_edi :: u32
  cpu_ebp :: u32
  cpu_esp :: u32
  cpu_ds :: u32
  cpu_es :: u32
  cpu_fs :: u32
  cpu_gs :: u32

definition pushad :: "cpu \<Rightarrow> u32 list \<Rightarrow> u32 list" where
  "pushad r s = fold Cons [cpu_eax r, cpu_ecx r, cpu_edx r, cpu_ebx r, cpu_esp r, cpu_ebp r, cpu_esi r, cpu_edi r] s"

definition call_generic_handler :: "cpu \<Rightarrow> u32 list \<Rightarrow> u32 list" where
  "call_generic_handler r s = pushad r (fold Cons [cpu_ds r, cpu_es r, cpu_fs r, cpu_gs r] s)"

definition interrupt_handler :: "u32 \<Rightarrow> u32 option \<Rightarrow> cpu \<Rightarrow> u32 list \<Rightarrow> u32 list" where
  "interrupt_handler n err r s =
     call_generic_handler r (n # (case err of None \<Rightarrow> 0 # s | Some _ \<Rightarrow> s))"

definition frame_of_stack :: "u32 list \<Rightarrow> interrupt_frame" where
  "frame_of_stack s = \<lparr>reg_edi = s ! 0, reg_esi = s ! 1, reg_esp = s ! 2, reg_ebp = s ! 3,
     reg_ebx = s ! 4, reg_edx = s ! 5, reg_ecx = s ! 6, reg_eax = s ! 7,
     reg_gs = s ! 8, reg_fs = s ! 9, reg_es = s ! 10, reg_ds = s ! 11,
     int_number = s ! 12, error_code = s ! 13, stack_eip = s ! 14, stack_cs = s ! 15, stack_eflags = s ! 16\<rparr>"

lemma stub_frame:
  "frame_of_stack (interrupt_handler n None r (eip # sel # flags # s))
     = \<lparr>reg_edi = cpu_edi r, reg_esi = cpu_esi r, reg_esp = cpu_ebp r, reg_ebp = cpu_esp r,
        reg_ebx = cpu_ebx r, reg_edx = cpu_edx r, reg_ecx = cpu_ecx r, reg_eax = cpu_eax r,
        reg_gs = cpu_gs r, reg_fs = cpu_fs r, reg_es = cpu_es r, reg_ds = cpu_ds r,
        int_number = n, error_code = 0, stack_eip = eip, stack_cs = sel, stack_eflags = flags\<rparr>"
  by (simp add: frame_of_stack_def interrupt_handler_def call_generic_handler_def pushad_def)

section \<open>The kernel invariant\<close>

definition kernel_inv :: "kernel \<Rightarrow> bool" where
  "kernel_inv k \<longleftrightarrow> consistent (files k) \<and> cursor_ok (tty k)"

text \<open>The file-system calls of a frame whose request the client conditions cover.\<close>

definition interrupt_ok :: "kernel \<Rightarrow> interrupt_frame \<Rightarrow> bool" where
  "interrupt_ok k frame \<longleftrightarrow>
     int_number frame = 0x30 \<longrightarrow>
       (let r = request_at k (reg_ebx frame); eax = reg_eax frame
        in (eax = 0 \<longrightarrow> call_ok (files k) (Read r)) \<and> (eax = 2 \<longrightarrow> call_ok (files k) (Write r))
           \<and> (eax = 8 \<longrightarrow> call_ok (files k) (Delete r)))"

lemma consistent_memory: "consistent (st\<lparr>memory := m\<rparr>) = consistent st"
  by (rule same_files_consistent) (simp add: same_files_def)

lemma return_code_ok:
  assumes "kernel_inv k" and "res = Some (Inr (code, st))" and "consistent st"
  shows "\<exists>k'. return_code p k res = Some (Inr k') \<and> kernel_inv k'"
  using assms by (simp add: return_code_def kernel_inv_def store8_def consistent_memory)

lemma read_call:
  assumes "consistent st" and "call_ok st (Read r)"
  obtains c st' where "fat32_read r st = Some (Inr (c, st'))" "consistent st'"
proof -
  have "plain_request st (dirs st) r" using assms(2) by (simp add: call_ok_def)
  from read_outcomes [OF assms(1) [unfolded consistent_def] this] obtain c st' where
    "fat32_read r st = Some (Inr (c, st'))" "same_files st st'" .
  with that assms(1) same_files_consistent show thesis by blast
qed

lemma write_call:
  assumes "consistent st" and "call_ok st (Write r)"
  obtains c st' where "fat32_write r st = Inr (c, st')" "consistent st'"
  using assms(2) write_consistent [OF assms(1) [unfolded consistent_def]]
  by (simp add: call_ok_def) blast

lemma delete_call:
  assumes "consistent st" and "call_ok st (Delete r)"
  obtains c st' where "fat32_delete r st = Some (Inr (c, st'))" "consistent st'"
  using assms(2) delete_consistent [OF assms(1) [unfolded consistent_def]]
  by (simp add: call_ok_def) blast

lemma with_console_ok:
  assumes "kernel_inv k" and "\<And>c. cursor_ok c \<Longrightarrow> cursor_ok (f c)"
  shows "kernel_inv (with_console f k)"
proof -
  have "cursor_ok ((tty k)\<lparr>video := memory (files k)\<rparr>)"
    using assms(1) by (simp add: kernel_inv_def cursor_ok_def)
  from assms(2) [OF this] assms(1) show ?thesis
    by (simp add: kernel_inv_def with_console_def Let_def consistent_memory)
qed

lemma syscall_ok:
  assumes inv: "kernel_inv k" and ok: "interrupt_ok k frame" and n: "int_number frame = 0x30"
  shows "\<exists>k'. syscall frame k = Some (Inr k') \<and> kernel_inv k'"
proof -
  let ?r = "request_at k (reg_ebx frame)"
  have con: "consistent (files k)" using inv by (simp add: kernel_inv_def)
  consider "reg_eax frame = 0" | "reg_eax frame = 1" | "reg_eax frame = 2" | "reg_eax frame = 3"
    | "reg_eax frame = 4" | "reg_eax frame = 6" | "reg_eax frame = 7" | "reg_eax frame = 8"
    | "reg_eax frame \<notin> {0, 1, 2, 3, 4, 6, 7, 8}" by blast
  then show ?thesis
  proof cases
    case 1
    with ok n have "call_ok (files k) (Read ?r)" by (simp add: interrupt_ok_def Let_def)
    from read_call [OF con this] obtain c st where "fat32_read ?r (files k) = Some (Inr (c, st))" "consistent st" .
    with 1 return_code_ok [OF inv] show ?thesis by (simp add: syscall_def)
  next
    case 2
    obtain c st where "fat32_read_directory ?r (files k) = (c, st)" by fastforce
    moreover from read_directory_same [OF this] con have "consistent st" using same_files_consistent by blast
    ultimately show ?thesis using 2 return_code_ok [OF inv] by (simp add: syscall_def)
  next
    case 3
    with ok n have "call_ok (files k) (Write ?r)" by (simp add: interrupt_ok_def Let_def)
    from write_call [OF con this] obtain c st where "fat32_write ?r (files k) = Inr (c, st)" "consistent st" .
    with 3 return_code_ok [OF inv] show ?thesis by (simp add: syscall_def)
  next
    case 4
    with inv show ?thesis by (simp add: syscall_def kernel_inv_def consistent_memory)
  next
    case 5
    with inv show ?thesis
      by (simp add: syscall_def kernel_inv_def get_keyboard_buffer_def store8_def consistent_memory cursor_ok_def)
  next
    case 6
    with with_console_ok [OF inv] puts_ok(1) show ?thesis by (simp add: syscall_def)
  next
    case 7
    with inv show ?thesis by (simp add: syscall_def kernel_inv_def cursor_ok_def)
  next
    case 8
    with ok n have "call_ok (files k) (Delete ?r)" by (simp add: interrupt_ok_def Let_def)
    from delete_call [OF con this] obtain c st where "fat32_delete ?r (files k) = Some (Inr (c, st))" "consistent st" .
    with 8 return_code_ok [OF inv] show ?thesis by (simp add: syscall_def)
  next
    case 9
    with inv show ?thesis by (simp add: syscall_def)
  qed
qed

lemma interrupt_keeps:
  assumes inv: "kernel_inv k" and ok: "interrupt_ok k frame"
  shows "\<exists>k'. main_interrupt_handler dev frame k = Some (Inr k') \<and> kernel_inv k'"
proof -
  have "kernel_inv (with_console (keyboard_isr dev) k)"
    by (rule with_console_ok [OF inv]) (simp add: cursor_ok_def)
  with inv syscall_ok [OF inv ok] show ?thesis by (simp add: main_interrupt_handler_def)
qed

section \<open>The running kernel\<close>

text \<open>
  From a formatted device: interrupts whose requests are acceptable, and user code that changes
  memory at will between them.
\<close>

inductive kernel_reachable :: "kernel \<Rightarrow> bool" where
  power_on: "files k = create_fat32 st \<Longrightarrow> cursor_ok (tty k) \<Longrightarrow> kernel_reachable k"
| interrupt: "kernel_reachable k \<Longrightarrow> interrupt_ok k frame \<Longrightarrow>
    main_interrupt_handler dev frame k = Some (Inr k') \<Longrightarrow> kernel_reachable k'"
| user_code: "kernel_reachable k \<Longrightarrow> kernel_reachable (k\<lparr>files := (files k)\<lparr>memory := m\<rparr>\<rparr>)"

lemma reachable_kernel_inv: "kernel_reachable k \<Longrightarrow> kernel_inv k"
proof (induction rule: kernel_reachable.induct)
  case (power_on k st)
  then show ?case using fs_inv_consistent [OF format_inv [of st]] by (simp add: kernel_inv_def)
next
  case (interrupt k frame dev k')
  then show ?case using interrupt_keeps [of k frame dev] by auto
next
  case (user_code k m)
  then show ?case by (simp add: kernel_inv_def consistent_memory)
qed

text \<open>A request that lies in memory is the request the call gets.\<close>

lemma request_at_encoded:
  "wf_request r \<Longrightarrow> mem_read (memory (files k)) p 23 = encode_request r \<Longrightarrow> request_at k p = r"
  by (simp add: request_at_def requests.dec_enc)

lemma syscall_files:
  assumes "wf_request r" and "mem_read (memory (files k)) (reg_ebx frame) 23 = encode_request r"
  shows "reg_eax frame = 0 \<Longrightarrow> syscall frame k = return_code (reg_ecx frame) k (fat32_read r (files k))"
    and "reg_eax frame = 1 \<Longrightarrow>
      syscall frame k = return_code (reg_ecx frame) k (Some (Inr (fat32_read_directory r (files k))))"
    and "reg_eax frame = 2 \<Longrightarrow> syscall frame k = return_code (reg_ecx frame) k (Some (fat32_write r (files k)))"
    and "reg_eax frame = 8 \<Longrightarrow> syscall frame k = return_code (reg_ecx frame) k (fat32_delete r (files k))"
  by (simp_all add: syscall_def Let_def request_at_encoded [OF assms])

end
