(* ===== verification/Shell.thy ===== *)
theory Shell
  imports Shell_Strings Syscall
begin

unbundle bit_operations_syntax

text \<open>
  The user shell (\<open>src/user-shell.c\<close>): its variables, its system calls, every command, the
  dispatch of \<open>parseCommand\<close> and the loop of \<open>main\<close>, over the kernel of \<open>Syscall\<close>.

  The shell's variables are values of the record \<open>shell\<close>. An object whose address a system call
  gets is stored at its address before the call and read back after it, as the compiled code finds
  it there; the addresses are the parameter \<open>shell_layout\<close>, chosen by compiler and linker. A
  variable that is never written holds what memory holds at its address.
\<close>

section \<open>State\<close>

record shell_layout =
  at_dir :: u32      \<comment> \<open>\<open>&currentDir\<close>\<close>
  at_request :: u32  \<comment> \<open>the request on the stack\<close>
  at_code :: u32     \<comment> \<open>\<open>&retcode\<close>\<close>
  at_data :: u32     \<comment> \<open>\<open>buf[10 * CLUSTER_SIZE]\<close>\<close>
  at_char :: u32     \<comment> \<open>\<open>&buf\<close> of \<open>main\<close>\<close>
  at_args :: u32     \<comment> \<open>\<open>&args\<close> of \<open>main\<close>\<close>
  at_text :: u32     \<comment> \<open>the string that is printed\<close>

record shell =
  currentDirCluster :: u32
  currentDir :: "dirent list"
  parent_clusters :: "u32 list"
  buffer_index :: u32
  dir_buff :: "byte list"
  sys :: kernel

definition user_memory :: "shell \<Rightarrow> memory" where
  "user_memory sh = memory (files (sys sh))"

definition put_object :: "u32 \<Rightarrow> byte list \<Rightarrow> shell \<Rightarrow> shell" where
  "put_object p bs sh = sh\<lparr>sys := (sys sh)\<lparr>files := (files (sys sh))\<lparr>memory := mem_write (user_memory sh) p bs\<rparr>\<rparr>\<rparr>"

section \<open>System calls\<close>

definition call_frame :: "u32 \<Rightarrow> u32 \<Rightarrow> u32 \<Rightarrow> u32 \<Rightarrow> interrupt_frame" where
  "call_frame eax ebx ecx edx = frame_of_stack [0, 0, 0, 0, ebx, edx, ecx, eax, 0, 0, 0, 0, 0x30, 0, 0, 0, 0]"

definition user_syscall :: "u32 \<Rightarrow> u32 \<Rightarrow> u32 \<Rightarrow> u32 \<Rightarrow> shell \<Rightarrow> shell run" where
  "user_syscall eax ebx ecx edx sh =
     bind_run (syscall (call_frame eax ebx ecx edx) (sys sh)) (\<lambda>k. Some (Inr (sh\<lparr>sys := k\<rparr>)))"

text \<open>\<open>puts\<close> of the object of \<open>n\<close> bytes at \<open>p\<close>, and of an object that is a value.\<close>

definition puts_at :: "u32 \<Rightarrow> nat \<Rightarrow> u32 \<Rightarrow> shell \<Rightarrow> shell run" where
  "puts_at p n color sh =
     with_value (strLength (mem_read (user_memory sh) p n)) (\<lambda>count. user_syscall 6 p count color) sh"

definition user_puts :: "shell_layout \<Rightarrow> byte list \<Rightarrow> u32 \<Rightarrow> shell \<Rightarrow> shell run" where
  "user_puts L obj color sh = puts_at (at_text L) (length obj) color (put_object (at_text L) obj sh)"

definition c_literal :: "string \<Rightarrow> byte list" where
  "c_literal s = str s @ [0]"

text \<open>A call with \<open>&currentDir\<close> in \<open>ecx\<close>: 3 reads a cluster there, 1 stores a return code.\<close>

definition currentDir_call :: "shell_layout \<Rightarrow> u32 \<Rightarrow> u32 \<Rightarrow> shell \<Rightarrow> shell run" where
  "currentDir_call L eax ebx sh =
     bind_run (user_syscall eax ebx (at_dir L) 1 (put_object (at_dir L) (encode_table (currentDir sh)) sh))
       (\<lambda>sh'. Some (Inr (sh'\<lparr>currentDir := decode_table (mem_read (user_memory sh') (at_dir L) CLUSTER_SIZE)\<rparr>)))"

text \<open>A call with a request and \<open>&retcode\<close>; the rest of the function gets the code.\<close>

definition file_call :: "shell_layout \<Rightarrow> u32 \<Rightarrow> request \<Rightarrow> (i8 \<Rightarrow> shell \<Rightarrow> shell run) \<Rightarrow> shell \<Rightarrow> shell run" where
  "file_call L eax r rest sh =
     bind_run (user_syscall eax (at_request L) (at_code L) 0 (put_object (at_request L) (encode_request r) sh))
       (\<lambda>sh'. rest (user_memory sh' (at_code L)) sh')"

section \<open>Requests and names\<close>

text \<open>\<open>for (uint8_t i = 0; i < f.len; i++) request.name[i] = f.buf[i]\<close>\<close>

function name_loop :: "string_buff \<Rightarrow> nat \<Rightarrow> byte list \<Rightarrow> byte list outcome" where
  "name_loop f i nm =
     (if i < unat (slen f) then
        (if 8 \<le> i then Inl OutOfBounds else name_loop f (Suc i) (nm[i := chars f ! i]))
      else Inr nm)"
  by pat_completeness auto
termination
  by (relation "measure (\<lambda>(f, i, nm). 8 - i)") auto

declare name_loop.simps [simp del]

definition request_name :: "string_buff \<Rightarrow> byte list outcome" where
  "request_name f = name_loop f 0 (replicate 8 0)"

definition user_request :: "u32 \<Rightarrow> byte list \<Rightarrow> u32 \<Rightarrow> u32 \<Rightarrow> request" where
  "user_request p nm cluster n =
     \<lparr>buf = p, rname = nm, rext = replicate 3 0, parent_cluster_number = cluster, buffer_size = n\<rparr>"

definition set_current_cluster :: "shell \<Rightarrow> shell" where
  "set_current_cluster sh = sh\<lparr>currentDirCluster := entry_cluster (currentDir sh ! 0)\<rparr>"

abbreviation (input) DATA_SIZE :: nat where "DATA_SIZE \<equiv> 20480"

section \<open>The prompt\<close>

text \<open>The bytes of \<open>dir_buff[i]\<close>, which run on into the rows behind it.\<close>

definition dir_row :: "byte list \<Rightarrow> nat \<Rightarrow> byte list" where
  "dir_row d i = drop (8 * i) d"

definition set_dir_row :: "nat \<Rightarrow> byte list \<Rightarrow> byte list \<Rightarrow> byte list" where
  "set_dir_row i nm d = fold (\<lambda>j d. d[8 * i + j := nm ! j]) [0..<8] d"

text \<open>The counter is a \<open>uint8_t\<close>: with 255 open directories the loop does not end.\<close>

partial_function (option) prompt_loop :: "shell_layout \<Rightarrow> u8 \<Rightarrow> shell \<Rightarrow> shell run" where
  "prompt_loop L i sh =
     (if ucast i \<le> buffer_index sh then
        (case user_puts L (dir_row (dir_buff sh) (unat i)) 0x9 sh of
           None \<Rightarrow> None
         | Some (Inl e) \<Rightarrow> Some (Inl e)
         | Some (Inr s1) \<Rightarrow>
             (case (if ucast i \<noteq> buffer_index s1 then user_puts L (c_literal ''/'') 0x9 s1 else Some (Inr s1)) of
                None \<Rightarrow> None
              | Some (Inl e) \<Rightarrow> Some (Inl e)
              | Some (Inr s2) \<Rightarrow> prompt_loop L (i + 1) s2))
      else Some (Inr sh))"

definition cetak_prompt :: "shell_layout \<Rightarrow> shell \<Rightarrow> shell run" where
  "cetak_prompt L =
     block [\<lambda>sh. currentDir_call L 3 (currentDirCluster sh) sh,
            user_puts L (c_literal ''Istiqomah@OS-IF2230:'') 0x5,
            user_puts L (c_literal ''/'') 0x9,
            \<lambda>sh. (if unat (buffer_index sh) < 256
                  then Some (Inr (sh\<lparr>dir_buff := set_dir_row (unat (buffer_index sh)) (name (currentDir sh ! 0)) (dir_buff sh)\<rparr>))
                  else Some (Inl OutOfBounds)),
            prompt_loop L 0,
            user_puts L (c_literal ''$ '') 0x7]"

section \<open>mkdir and rm\<close>

definition shell_mkdir :: "shell_layout \<Rightarrow> string_buff \<Rightarrow> shell \<Rightarrow> shell run" where
  "shell_mkdir L folder_Name sh =
     (if 8 < slen folder_Name then
        user_puts L (c_literal ''Directory name is too long! (Max Characters is 8)'') 0xC sh
      else with_value (request_name folder_Name) (\<lambda>nm.
        file_call L 2 (user_request 0 nm (currentDirCluster sh) 0) (\<lambda>retcode.
          if retcode = 0 then
            block [user_puts L (c_literal ''Make directory success! '') 0x2,
                   user_puts L (c_literal [CHR 0x27]) 0x2,
                   user_puts L (buff_object folder_Name) 0x2,
                   user_puts L (c_literal [CHR 0x27]) 0x2,
                   user_puts L (c_literal ('' has been created..'' @ [CHR 0x0A])) 0x2,
                   \<lambda>sh. currentDir_call L 3 (currentDirCluster sh) sh]
          else if retcode = 1 then
            block [user_puts L (c_literal ''mkdir: cannot create directory '') 0xC,
                   user_puts L (c_literal [CHR 0x27]) 0xC,
                   user_puts L (buff_object folder_Name) 0xC,
                   user_puts L (c_literal [CHR 0x27]) 0xC,
                   user_puts L (c_literal ('': File exists'' @ [CHR 0x0A])) 0xC]
          else block [])) sh)"

text \<open>\<open>args\<close> of \<open>rm\<close> and \<open>rmNoPrint\<close> is never used.\<close>

definition rm :: "shell_layout \<Rightarrow> string_buff \<Rightarrow> shell \<Rightarrow> shell run" where
  "rm L folder sh =
     (if 8 < slen folder then
        user_puts L (c_literal ''rm: cannot remove : name is too long! (Max Characters is 8)'') 0xC sh
      else with_value (request_name folder) (\<lambda>nm.
        file_call L 8 (user_request 0 nm (currentDirCluster sh) 0) (\<lambda>retcode.
          if retcode = 0 then
            block [user_puts L (c_literal ''Remove success! '') 0x2,
                   user_puts L (c_literal [CHR 0x27]) 0x2,
                   user_puts L (buff_object folder) 0x2,
                   user_puts L (c_literal [CHR 0x27]) 0x2,
                   user_puts L (c_literal ('' has been removed..'' @ [CHR 0x0A])) 0x2]
          else if retcode = 1 then
            block [user_puts L (c_literal (''rm: cannot remove '' @ [CHR 0x27])) 0xC,
                   user_puts L (buff_object folder) 0xC,
                   user_puts L (c_literal ([CHR 0x27] @ '': No such file or directory'')) 0xC]
          else block [])) sh)"

definition rmNoPrint :: "shell_layout \<Rightarrow> string_buff \<Rightarrow> shell \<Rightarrow> shell run" where
  "rmNoPrint L folder sh =
     (if 8 < slen folder then
        user_puts L (c_literal ''rm: cannot remove : name is too long! (Max Characters is 8)'') 0xC sh
      else with_value (request_name folder) (\<lambda>nm.
        file_call L 8 (user_request 0 nm (currentDirCluster sh) 0) (\<lambda>retcode. block [])) sh)"

section \<open>ls and find\<close>

definition ls_entry :: "shell_layout \<Rightarrow> dirent \<Rightarrow> shell \<Rightarrow> shell run" where
  "ls_entry L entry =
     (if name entry ! 0 = 0 then block []
      else block [user_puts L (encode_dirent entry) 0x2, user_puts L (c_literal '' '') 0x2])"

text \<open>The loop reads \<open>currentDir.table[i]\<close> for i from 2 on; printing does not change it.\<close>

definition ls :: "shell_layout \<Rightarrow> shell \<Rightarrow> shell run" where
  "ls L = block [\<lambda>sh. currentDir_call L 3 (currentDirCluster sh) sh,
                 \<lambda>sh. block (map (ls_entry L) (drop 2 (currentDir sh))) sh,
                 user_puts L (c_literal [CHR 0x0A]) 0x2]"

text \<open>\<open>memcpy(fullname, entry.name, 8); fullname[8] = '\0'\<close>\<close>

definition fullname :: "dirent \<Rightarrow> byte list" where
  "fullname entry = name entry @ [0]"

fun find_loop :: "shell_layout \<Rightarrow> string_buff \<Rightarrow> dirent list \<Rightarrow> shell \<Rightarrow> shell run" where
  "find_loop L filename [] sh = user_puts L (c_literal (''File not found'' @ [CHR 0x0A])) 0xC sh"
| "find_loop L filename (entry # es) sh =
     (if name entry ! 0 \<noteq> 0 then
        with_value (strCompare (fullname entry) (buff_object filename)) (\<lambda>equal.
          if equal then
            block [user_puts L (c_literal ''File found: '') 0x2,
                   user_puts L (fullname entry) 0x2,
                   user_puts L (c_literal [CHR 0x0A]) 0x2]
          else find_loop L filename es) sh
      else find_loop L filename es sh)"

definition shell_find :: "shell_layout \<Rightarrow> string_buff \<Rightarrow> shell \<Rightarrow> shell run" where
  "shell_find L filename sh = find_loop L filename (currentDir sh) sh"

section \<open>cat and cp\<close>

text \<open>The request of \<open>cat\<close>, \<open>cp\<close> and \<open>mv\<close>: ten clusters for the data.\<close>

definition data_request :: "shell_layout \<Rightarrow> byte list \<Rightarrow> u32 \<Rightarrow> request" where
  "data_request L nm cluster = user_request (at_data L) nm cluster (of_nat DATA_SIZE)"

text \<open>The two error messages, which \<open>cp\<close> shares word for word.\<close>

definition cat_error :: "shell_layout \<Rightarrow> string_buff \<Rightarrow> i8 \<Rightarrow> shell \<Rightarrow> shell run" where
  "cat_error L filename retcode =
     (if retcode = 1 then
        block [user_puts L (c_literal ''cat: '') 0xC,
               user_puts L (buff_object filename) 0xC,
               user_puts L (c_literal '': Is a directory'') 0xC]
      else if retcode = 2 then
        block [user_puts L (c_literal ''cat: '') 0xC,
               user_puts L (buff_object filename) 0xC,
               user_puts L (c_literal '': No such file or directory'') 0xC]
      else block [])"

definition cat :: "shell_layout \<Rightarrow> string_buff \<Rightarrow> shell \<Rightarrow> shell run" where
  "cat L filename sh =
     with_value (request_name filename) (\<lambda>nm.
       file_call L 0 (data_request L nm (currentDirCluster sh)) (\<lambda>retcode.
         block [if retcode = 0 then puts_at (at_data L) DATA_SIZE 0x2 else cat_error L filename retcode,
                user_puts L (c_literal [CHR 0x0A]) 0x7])) sh"

text \<open>
  The size of the copy is \<open>strLength(copy.buf)\<close>, evaluated after the pointer is stored, whatever
  the first call returned.
\<close>

definition data_length :: "shell_layout \<Rightarrow> shell \<Rightarrow> u32 outcome" where
  "data_length L sh = strLength (mem_read (user_memory sh) (at_data L) DATA_SIZE)"

definition copy_name_literal :: "byte list" where
  "copy_name_literal = str ''copy'' @ replicate 4 0"

definition cp :: "shell_layout \<Rightarrow> string_buff \<Rightarrow> shell \<Rightarrow> shell run" where
  "cp L filename sh =
     with_value (request_name filename) (\<lambda>nm.
       file_call L 0 (data_request L nm (currentDirCluster sh)) (\<lambda>_ sh.
         with_value (data_length L sh) (\<lambda>n.
           file_call L 2 (user_request (at_data L) copy_name_literal (currentDirCluster sh) n) (\<lambda>retcode.
             block [if retcode = 0 then puts_at (at_data L) DATA_SIZE 0x2 else cat_error L filename retcode,
                    user_puts L (c_literal [CHR 0x0A]) 0x7])) sh)) sh"

section \<open>cd\<close>

text \<open>
  The loop of \<open>cd\<close> and \<open>cdNoPrint\<close>, which differ in the messages: \<open>say\<close> prints them or not.
  The last call of either branch passes the new cluster number where system call 1 takes a pointer
  to a request, and \<open>&currentDir\<close> where it takes the address of the return code.
\<close>

definition cd_parent :: "shell_layout \<Rightarrow> (byte list \<Rightarrow> u32 \<Rightarrow> shell \<Rightarrow> shell run) \<Rightarrow> shell \<Rightarrow> shell run" where
  "cd_parent L say sh =
     (if currentDirCluster sh = ROOT_CLUSTER_NUMBER then
        say (c_literal (''Already in root directory'' @ [CHR 0x0A])) 0xC sh
      else if length (parent_clusters sh) \<le> unat (buffer_index sh - 1) then Some (Inl OutOfBounds)
      else block [\<lambda>sh. Some (Inr (sh\<lparr>currentDirCluster := parent_clusters sh ! unat (buffer_index sh - 1),
                                     buffer_index := buffer_index sh - 1\<rparr>)),
                  \<lambda>sh. currentDir_call L 1 (currentDirCluster sh) sh,
                  say (c_literal (''Changed directory to parent directory'' @ [CHR 0x0A])) 0x2] sh)"

definition cd_child :: "shell_layout \<Rightarrow> dirent \<Rightarrow> shell \<Rightarrow> shell run" where
  "cd_child L entry sh =
     (if length (parent_clusters sh) \<le> unat (buffer_index sh) then Some (Inl OutOfBounds)
      else block [\<lambda>sh. Some (Inr (sh\<lparr>parent_clusters := (parent_clusters sh)[unat (buffer_index sh) := currentDirCluster sh],
                                     buffer_index := buffer_index sh + 1,
                                     currentDirCluster := entry_cluster entry\<rparr>)),
                  \<lambda>sh. currentDir_call L 1 (currentDirCluster sh) sh] sh)"

fun cd_loop :: "shell_layout \<Rightarrow> (byte list \<Rightarrow> u32 \<Rightarrow> shell \<Rightarrow> shell run) \<Rightarrow> string_buff \<Rightarrow> dirent list \<Rightarrow> shell \<Rightarrow> shell run" where
  "cd_loop L say dirname [] sh = say (c_literal (''Directory not found'' @ [CHR 0x0A])) 0xC sh"
| "cd_loop L say dirname (entry # es) sh =
     (if name entry ! 0 \<noteq> 0 then
        with_value (strCompare (buff_object dirname) (c_literal ''..'')) (\<lambda>up.
          if up then cd_parent L say
          else with_value (strCompare (fullname entry) (buff_object dirname)) (\<lambda>equal.
            if equal \<and> attribute entry AND 0x10 \<noteq> 0 then cd_child L entry
            else cd_loop L say dirname es)) sh
      else cd_loop L say dirname es sh)"

definition cd :: "shell_layout \<Rightarrow> string_buff \<Rightarrow> shell \<Rightarrow> shell run" where
  "cd L dirname sh =
     (if 8 < slen dirname then
        user_puts L (c_literal ''Directory name is too long! (Maximum 8 Characters)'') 0xC sh
      else cd_loop L (user_puts L) dirname (currentDir sh) sh)"

definition cdNoPrint :: "shell_layout \<Rightarrow> string_buff \<Rightarrow> shell \<Rightarrow> shell run" where
  "cdNoPrint L dirname sh =
     (if 8 < slen dirname then
        user_puts L (c_literal ''Directory name is too long! (Maximum 8 Characters)'') 0xC sh
      else cd_loop L (\<lambda>_ _. block []) dirname (currentDir sh) sh)"

section \<open>mv\<close>

text \<open>
  \<open>retcode\<close> is an \<open>int\<close> here and is never initialised; a call stores its low byte only.
  \<open>&copy.buf\<close> is the address of \<open>copy\<close>.
\<close>

definition retcode_int :: "shell_layout \<Rightarrow> shell \<Rightarrow> u32" where
  "retcode_int L sh = dec32 (mem_read (user_memory sh) (at_code L) 4)"

definition mv_back :: "shell_layout \<Rightarrow> string_buff \<Rightarrow> shell \<Rightarrow> shell run" where
  "mv_back L filename =
     block [user_puts L (c_literal (''File moved successfully'' @ [CHR 0x0A])) 0x2,
            with_value (bind_outcome (stringBuffInputChar 46 stringBuff_create) (stringBuffInputChar 46)) (cdNoPrint L),
            rmNoPrint L filename,
            \<lambda>sh. currentDir_call L 3 (currentDirCluster sh) sh]"

definition mv_file :: "shell_layout \<Rightarrow> request \<Rightarrow> string_buff \<Rightarrow> string_buff \<Rightarrow> shell \<Rightarrow> shell run" where
  "mv_file L r filename dest =
     block [cdNoPrint L dest,
            file_call L 0 r (\<lambda>_ sh.
              with_value (data_length L sh) (\<lambda>n.
                file_call L 2 (user_request (at_data L) (take 8 (chars filename)) (currentDirCluster sh) n) (\<lambda>_ sh.
                  if retcode_int L sh = 0 then mv_back L filename sh
                  else if retcode_int L sh = 1 then
                    block [user_puts L (c_literal (''mv: cannot move file '' @ [CHR 0x27])) 0xC,
                           user_puts L (buff_object filename) 0xC,
                           user_puts L (c_literal ([CHR 0x27] @ '': No such file or directory'' @ [CHR 0x0A])) 0xC] sh
                  else block [] sh)) sh)]"

fun mv_loop :: "shell_layout \<Rightarrow> request \<Rightarrow> string_buff \<Rightarrow> string_buff \<Rightarrow> dirent list \<Rightarrow> shell \<Rightarrow> shell run" where
  "mv_loop L r filename dest [] sh = user_puts L (c_literal (''File not found'' @ [CHR 0x0A])) 0xC sh"
| "mv_loop L r filename dest (entry # es) sh =
     (if name entry ! 0 \<noteq> 0 then
        with_value (strCompare (fullname entry) (buff_object dest)) (\<lambda>equal.
          if equal then
            (if attribute entry = 0x10 then mv_file L r filename dest
             else user_puts L (c_literal (''mv: destination is not a directory'' @ [CHR 0x0A])) 0xC)
          else mv_loop L r filename dest es) sh
      else mv_loop L r filename dest es sh)"

definition mv :: "shell_layout \<Rightarrow> string_buff \<Rightarrow> string_buff \<Rightarrow> shell \<Rightarrow> shell run" where
  "mv L filename dest sh =
     with_value (request_name filename) (\<lambda>nm sh.
       if 8 < slen dest then
         user_puts L (c_literal ''Destination name is too long! (Maximum 8 Characters)'') 0xC sh
       else mv_loop L (data_request L nm (currentDirCluster sh)) filename dest (currentDir sh) sh) sh"

section \<open>parseCommand and main\<close>

text \<open>\<open>memcmp(perintah.buf, s, n) == 0\<close> with the length of \<open>s\<close>: a prefix test.\<close>

definition starts_with :: "string_buff \<Rightarrow> string \<Rightarrow> bool" where
  "starts_with perintah s \<longleftrightarrow> memcmp_bytes (chars perintah) (c_literal s) (length s) = 0"

definition run_command :: "shell_layout \<Rightarrow> string_buff \<Rightarrow> string_buff \<Rightarrow> string_buff \<Rightarrow> shell \<Rightarrow> shell run" where
  "run_command L perintah variabel variabel2 =
     (let then_prompt = (\<lambda>command. block [user_puts L (c_literal [CHR 0x0A]) 0x7, command, cetak_prompt L])
      in if starts_with perintah ''cd'' then then_prompt (cd L variabel)
         else if starts_with perintah ''ls'' then then_prompt (ls L)
         else if starts_with perintah ''mkdir'' then then_prompt (shell_mkdir L variabel)
         else if starts_with perintah ''cat'' then then_prompt (cat L variabel)
         else if starts_with perintah ''rm'' then then_prompt (rm L variabel)
         else if starts_with perintah ''cp'' then then_prompt (cp L variabel)
         else if starts_with perintah ''find'' then then_prompt (shell_find L variabel)
         else if starts_with perintah ''mv'' then then_prompt (mv L variabel variabel2)
         else block [user_puts L (c_literal ([CHR 0x0A] @ ''Command not found'' @ [CHR 0x0A])) 0xC, cetak_prompt L])"

definition parseCommand :: "shell_layout \<Rightarrow> string_buff \<Rightarrow> shell \<Rightarrow> shell run" where
  "parseCommand L inp =
     with_value (split_command inp) (\<lambda>(perintah, variabel, variabel2). run_command L perintah variabel variabel2)"

text \<open>\<open>main\<close> up to its loop, from the zeroed globals.\<close>

definition shell_start :: "shell_layout \<Rightarrow> kernel \<Rightarrow> (string_buff \<times> shell) run" where
  "shell_start L k =
     bind_run
       (block [\<lambda>sh. Some (Inr (sh\<lparr>currentDirCluster := 2, buffer_index := 0\<rparr>)),
               \<lambda>sh. currentDir_call L 3 (currentDirCluster sh) sh,
               cetak_prompt L,
               user_syscall 7 0 0 0]
         \<lparr>currentDirCluster = 0, currentDir = replicate DIR_ENTRIES zero_dirent, parent_clusters = replicate 256 0,
          buffer_index = 0, dir_buff = replicate 2048 0, sys = k\<rparr>)
       (\<lambda>sh. Some (Inr (stringBuff_create, sh)))"

text \<open>One pass of the loop of \<open>main\<close>. The kernel ignores system call 5.\<close>

definition main_iteration :: "shell_layout \<Rightarrow> string_buff \<times> shell \<Rightarrow> (string_buff \<times> shell) run" where
  "main_iteration L = (\<lambda>(inp, sh).
     bind_run (user_syscall 4 (at_char L) 0 0 sh) (\<lambda>sh.
       let ch = user_memory sh (at_char L)
       in if ch = 10 then
            bind_run (parseCommand L inp sh) (\<lambda>sh. Some (Inr (stringBuff_create, sh)))
          else if ch \<noteq> 0 then
            bind_run (user_syscall 5 (at_args L) 2 0x7 sh) (\<lambda>sh.
              bind_run (Some (stringBuffInputChar ch inp)) (\<lambda>inp. Some (Inr (inp, sh))))
          else Some (Inr (inp, sh))))"

end
