(* ===== verification/Shell_Frame.thy ===== *)
theory Shell_Frame
  imports Shell
begin

unbundle bit_operations_syntax

text \<open>
  What the statements of the shell leave alone. \<open>shell_ok\<close> is the invariant of the shell; printing
  keeps every variable and the file system (the first \<open>kept_relation\<close>), the prompt keeps the place in the
  directory tree and the file system (the second); a system call with a request is the file
  operation on it, its code handed to the rest of the command.
\<close>

section \<open>The invariant\<close>

text \<open>At most 254 directories are open, so the last row of \<open>dir_buff\<close> stays empty.\<close>

definition shell_ok :: "shell \<Rightarrow> bool" where
  "shell_ok sh \<longleftrightarrow> kernel_inv (sys sh) \<and> wf_table (currentDir sh) \<and> length (parent_clusters sh) = 256
     \<and> unat (buffer_index sh) < 255 \<and> length (dir_buff sh) = 2048 \<and> drop 2040 (dir_buff sh) = replicate 8 0"

definition same_place :: "shell \<Rightarrow> shell \<Rightarrow> bool" where
  "same_place s t \<longleftrightarrow> currentDirCluster t = currentDirCluster s \<and> parent_clusters t = parent_clusters s
     \<and> buffer_index t = buffer_index s \<and> same_files (files (sys s)) (files (sys t)) \<and> (shell_ok s \<longrightarrow> shell_ok t)"

definition same_view :: "shell \<Rightarrow> shell \<Rightarrow> bool" where
  "same_view s t \<longleftrightarrow> same_place s t \<and> currentDir t = currentDir s \<and> dir_buff t = dir_buff s"

lemma same_files_trans: "same_files a b \<Longrightarrow> same_files b c \<Longrightarrow> same_files a c"
  by (simp add: same_files_def)

lemma same_files_refl [simp]: "same_files a a"
  by (simp add: same_files_def)

lemma same_files_memory [simp]: "same_files a (b\<lparr>memory := m\<rparr>) = same_files a b"
  by (simp add: same_files_def)

interpretation place: kept_relation shell_ok same_place
  by unfold_locales (auto simp: same_place_def elim: same_files_trans)

interpretation view: kept_relation shell_ok same_view
  by unfold_locales (auto simp: same_view_def intro: place.same_refl place.same_trans place.same_ok)

lemma view_place: "same_view s t \<Longrightarrow> same_place s t"
  by (simp add: same_view_def)

lemma keeps_view_place: "view.keeps f \<Longrightarrow> place.keeps f"
  using view_place by (auto simp: view.keeps_def place.keeps_def returns_def)

section \<open>Printing\<close>

lemma put_object_view [simp]: "same_view sh (put_object p bs sh)"
  by (simp add: same_view_def same_place_def shell_ok_def put_object_def kernel_inv_def consistent_memory)

lemma put_object_memory: "user_memory (put_object p bs sh) = mem_write (user_memory sh) p bs"
  by (simp add: put_object_def user_memory_def)

lemma call_frame_sel [simp]:
  "reg_eax (call_frame a b c d) = a" "reg_ebx (call_frame a b c d) = b" "reg_ecx (call_frame a b c d) = c"
  "reg_edx (call_frame a b c d) = d" "int_number (call_frame a b c d) = 0x30"
  by (simp_all add: call_frame_def frame_of_stack_def)

lemma user_syscall_dispatch:
  "user_syscall a b c d sh = bind_run (main_interrupt_handler dev (call_frame a b c d) (sys sh)) (\<lambda>k. Some (Inr (sh\<lparr>sys := k\<rparr>)))"
  by (simp add: user_syscall_def main_interrupt_handler_def)

lemma with_console_files [simp]: "same_files (files k) (files (with_console f k))"
  by (simp add: with_console_def Let_def)

lemma puts_call: "user_syscall 6 p n color sh = Some (Inr (sh\<lparr>sys := with_console (puts p n color) (sys sh)\<rparr>))"
  by (simp add: user_syscall_def syscall_def Let_def)

lemma puts_call_keeps: "view.keeps (user_syscall 6 p n color)"
proof (rule view.keepsI)
  fix sh assume "shell_ok sh"
  then have "kernel_inv (with_console (puts p n color) (sys sh))"
    by (intro with_console_ok puts_ok) (simp add: shell_ok_def)
  then show "returns (user_syscall 6 p n color sh) (same_view sh)"
    by (simp add: puts_call same_view_def same_place_def shell_ok_def)
qed

lemma puts_at_keeps:
  assumes "0 \<in> set (mem_read (user_memory sh) p n)" and "shell_ok sh"
  shows "returns (puts_at p n color sh) (same_view sh)"
  using assms view.keepsD [OF puts_call_keeps assms(2)] by (simp add: puts_at_def strLength_eq)

lemma user_puts_keeps:
  assumes "0 \<in> set obj" and "length obj \<le> 2 ^ 32"
  shows "view.keeps (user_puts L obj color)"
proof (rule view.keepsI)
  fix sh assume sh: "shell_ok sh"
  let ?s = "put_object (at_text L) obj sh"
  have "shell_ok ?s" by (rule view.same_ok [OF put_object_view sh])
  moreover have "mem_read (user_memory ?s) (at_text L) (length obj) = obj"
    using assms(2) by (simp add: put_object_memory mem_read_write)
  ultimately have "returns (puts_at (at_text L) (length obj) color ?s) (same_view ?s)"
    using assms(1) by (intro puts_at_keeps) simp_all
  then show "returns (user_puts L obj color sh) (same_view sh)"
    unfolding user_puts_def by (rule returns_mono) (rule view.same_trans [OF put_object_view])
qed

lemma literal_keeps [simp]: "length s < 2 ^ 32 \<Longrightarrow> view.keeps (user_puts L (c_literal s) color)"
  by (rule user_puts_keeps) (simp_all add: c_literal_def)

lemma buff_keeps [simp]: "length bs \<le> 256 \<Longrightarrow> view.keeps (user_puts L (buff_object (line bs)) color)"
  using line_object [of bs] length_object [of bs] by (intro user_puts_keeps) simp_all

lemma skip_keeps [simp]: "view.keeps (block [])"
  by (rule view.keeps_block) simp

section \<open>Loading a directory\<close>

text \<open>System call 3 replaces \<open>currentDir\<close> by the table of the cluster.\<close>

definition loaded :: "shell_layout \<Rightarrow> u32 \<Rightarrow> shell \<Rightarrow> shell" where
  "loaded L c sh = put_object (at_dir L) (rd (storage (files (sys sh))) c) (put_object (at_dir L) (encode_table (currentDir sh)) sh)"

lemma loaded_view: "same_view sh (loaded L c sh)"
  unfolding loaded_def by (rule view.same_trans [OF put_object_view put_object_view])

lemma load_eq:
  "currentDir_call L 3 c sh = Some (Inr ((loaded L c sh)\<lparr>currentDir := dir_at (storage (files (sys sh))) c\<rparr>))"
proof -
  let ?s = "put_object (at_dir L) (encode_table (currentDir sh)) sh"
  let ?bs = "rd (storage (files (sys sh))) c"
  let ?t = "put_object (at_dir L) ?bs ?s"
  have "storage (files (sys ?s)) = storage (files (sys sh))" by (simp add: put_object_def)
  then have "user_syscall 3 c (at_dir L) 1 ?s = Some (Inr ?t)"
    by (simp add: user_syscall_def syscall_def Let_def put_object_def user_memory_def)
  moreover have "mem_read (user_memory ?t) (at_dir L) CLUSTER_SIZE = ?bs"
    by (simp add: put_object_memory mem_read_write)
  ultimately show ?thesis by (simp add: currentDir_call_def loaded_def)
qed

lemma load_dir:
  "\<exists>t. currentDir_call L 3 c sh = Some (Inr (t\<lparr>currentDir := dir_at (storage (files (sys sh))) c\<rparr>)) \<and> same_view sh t"
  using load_eq loaded_view by blast

lemma place_update_dir: "same_place s t \<Longrightarrow> wf_table es \<Longrightarrow> same_place s (t\<lparr>currentDir := es\<rparr>)"
  by (simp add: same_place_def shell_ok_def)

definition at_home :: "shell \<Rightarrow> bool" where
  "at_home sh \<longleftrightarrow> currentDir sh = dir_at (storage (files (sys sh))) (currentDirCluster sh)"

lemma load_returns:
  "returns (currentDir_call L 3 (currentDirCluster sh) sh) (\<lambda>t. same_place sh t \<and> at_home t)"
proof -
  obtain t where t: "currentDir_call L 3 (currentDirCluster sh) sh
      = Some (Inr (t\<lparr>currentDir := dir_at (storage (files (sys sh))) (currentDirCluster sh)\<rparr>))" "same_view sh t"
    using load_dir by blast
  have "same_place sh (t\<lparr>currentDir := dir_at (storage (files (sys sh))) (currentDirCluster sh)\<rparr>)"
    by (rule place_update_dir [OF view_place [OF t(2)]]) simp
  with t show ?thesis by (simp add: at_home_def same_view_def same_place_def same_files_def)
qed

lemma load_keeps: "place.keeps (\<lambda>sh. currentDir_call L 3 (currentDirCluster sh) sh)"
  by (rule place.keepsI) (auto intro: returns_mono [OF load_returns])

section \<open>The prompt\<close>

lemma dir_row_string:
  assumes "shell_ok sh" and "i < 255"
  shows "0 \<in> set (dir_row (dir_buff sh) i)" and "length (dir_row (dir_buff sh) i) \<le> 2 ^ 32"
proof -
  have "drop (2040 - 8 * i) (dir_row (dir_buff sh) i) = replicate 8 0"
    using assms by (simp add: shell_ok_def dir_row_def)
  then have "set (replicate 8 (0 :: byte)) \<subseteq> set (dir_row (dir_buff sh) i)"
    by (metis set_drop_subset)
  then show "0 \<in> set (dir_row (dir_buff sh) i)" by simp
  show "length (dir_row (dir_buff sh) i) \<le> 2 ^ 32" using assms by (simp add: shell_ok_def dir_row_def)
qed

lemma row_returns:
  assumes "shell_ok sh" and "i < 255"
  shows "returns (user_puts L (dir_row (dir_buff sh) i) color sh) (same_view sh)"
  by (rule view.keepsD [OF user_puts_keeps [OF dir_row_string [OF assms]] assms(1)])

lemma prompt_loop_returns:
  "shell_ok sh \<Longrightarrow> returns (prompt_loop L i sh) (same_view sh)"
proof (induction "Suc (unat (buffer_index sh)) - unat i" arbitrary: i sh)
  case 0
  then have "\<not> ucast i \<le> buffer_index sh" by (simp add: word_le_nat_alt)
  then show ?case by (simp add: prompt_loop.simps view.same_refl)
next
  case (Suc k)
  then have le: "unat i \<le> unat (buffer_index sh)" by simp
  then have i: "ucast i \<le> buffer_index sh" "unat i < 255"
    using Suc.prems by (simp_all add: word_le_nat_alt shell_ok_def)
  obtain s1 where s1: "user_puts L (dir_row (dir_buff sh) (unat i)) 0x9 sh = Some (Inr s1)" "same_view sh s1"
    using row_returns [OF Suc.prems i(2)] by (rule returnsE)
  have ok1: "shell_ok s1" by (rule view.same_ok [OF s1(2) Suc.prems])
  obtain s2 where s2: "(if ucast i \<noteq> buffer_index s1 then user_puts L (c_literal ''/'') 0x9 s1 else Some (Inr s1)) = Some (Inr s2)"
      "same_view s1 s2"
    using view.keepsD [OF literal_keeps ok1, of "''/''" L "0x9"] view.same_refl [of s1]
    by (cases "ucast i \<noteq> buffer_index s1") (auto elim: returnsE)
  have v: "same_view sh s2" by (rule view.same_trans [OF s1(2) s2(2)])
  have ok2: "shell_ok s2" by (rule view.same_ok [OF v Suc.prems])
  have "unat (i + 1) = Suc (unat i)" using i(2) by (simp add: unat_word_ariths)
  moreover have "buffer_index s2 = buffer_index sh" using v by (simp add: same_view_def same_place_def)
  ultimately have "k = Suc (unat (buffer_index s2)) - unat (i + 1)" using Suc.hyps(2) by simp
  from Suc.hyps(1) [OF this ok2] have "returns (prompt_loop L (i + 1) s2) (same_view sh)"
    by (rule returns_mono) (rule view.same_trans [OF v])
  then show ?case by (subst prompt_loop.simps) (simp add: i(1) s1(1) s2(1))
qed

text \<open>The row of the current directory is set without touching the last row.\<close>

lemma set_dir_row_fold:
  "n \<le> 8 \<Longrightarrow> length (fold (\<lambda>j d. d[8 * i + j := nm ! j]) [0..<n] d) = length d
    \<and> (\<forall>k. 8 * i + n \<le> k \<longrightarrow> drop k (fold (\<lambda>j d. d[8 * i + j := nm ! j]) [0..<n] d) = drop k d)"
  by (induction n) (auto simp: drop_update_cancel)

lemma set_dir_row_ok:
  "length (set_dir_row i nm d) = length d" "i < 255 \<Longrightarrow> drop 2040 (set_dir_row i nm d) = drop 2040 d"
  using set_dir_row_fold [of 8 i nm d] by (simp_all add: set_dir_row_def)

definition show_place :: "shell \<Rightarrow> shell" where
  "show_place sh = sh\<lparr>dir_buff := set_dir_row (unat (buffer_index sh)) (name (currentDir sh ! 0)) (dir_buff sh)\<rparr>"

lemma show_place_ok: "shell_ok sh \<Longrightarrow> shell_ok (show_place sh)"
  by (simp add: shell_ok_def show_place_def set_dir_row_ok)

lemma show_place_same: "same_place sh (show_place sh)"
  using show_place_ok [of sh] by (simp add: same_place_def) (simp add: show_place_def)

lemma at_home_view: "same_view s t \<Longrightarrow> at_home t = at_home s"
  by (auto simp: same_view_def same_place_def same_files_def at_home_def)

lemma prompt_run:
  assumes "currentDir_call L 3 (currentDirCluster sh) sh = Some (Inr s1)"
    and "block [user_puts L (c_literal ''Istiqomah@OS-IF2230:'') 0x5, user_puts L (c_literal ''/'') 0x9] s1 = Some (Inr s2)"
    and "unat (buffer_index s2) < 256" and "prompt_loop L 0 (show_place s2) = Some (Inr s3)"
    and "user_puts L (c_literal ''$ '') 0x7 s3 = Some (Inr s4)"
  shows "cetak_prompt L sh = Some (Inr s4)"
proof -
  have "cetak_prompt L sh = bind_run
      (block [user_puts L (c_literal ''Istiqomah@OS-IF2230:'') 0x5, user_puts L (c_literal ''/'') 0x9] s1)
      (block [\<lambda>sh. (if unat (buffer_index sh) < 256
                then Some (Inr (sh\<lparr>dir_buff := set_dir_row (unat (buffer_index sh)) (name (currentDir sh ! 0)) (dir_buff sh)\<rparr>))
                else Some (Inl OutOfBounds)),
          prompt_loop L 0, user_puts L (c_literal ''$ '') 0x7])"
    by (simp add: cetak_prompt_def assms(1) bind_run_def split: option.split sum.split)
  also have "\<dots> = Some (Inr s4)"
    unfolding assms(2) using assms(3-5) by (simp add: show_place_def)
  finally show ?thesis .
qed

lemma prompt_returns:
  assumes "shell_ok sh"
  shows "returns (cetak_prompt L sh) (\<lambda>t. same_place sh t \<and> at_home t)"
proof -
  let ?puts = "user_puts L (c_literal ''Istiqomah@OS-IF2230:'') 0x5" and ?slash = "user_puts L (c_literal ''/'') 0x9"
  let ?dollar = "user_puts L (c_literal ''$ '') 0x7"
  obtain s1 where s1: "currentDir_call L 3 (currentDirCluster sh) sh = Some (Inr s1)" "same_place sh s1" "at_home s1"
    using load_returns [of L sh] by (auto elim: returnsE)
  have ok1: "shell_ok s1" by (rule place.same_ok [OF s1(2) assms])
  have "view.keeps (block [?puts, ?slash])" by (rule view.keeps_block) simp
  from view.keepsD [OF this ok1] obtain s2 where s2: "block [?puts, ?slash] s1 = Some (Inr s2)" "same_view s1 s2"
    by (rule returnsE)
  have ok2: "shell_ok s2" by (rule view.same_ok [OF s2(2) ok1])
  have "unat (buffer_index s2) < 256" using ok2 by (simp add: shell_ok_def)
  have ok3: "shell_ok (show_place s2)" by (rule show_place_ok [OF ok2])
  obtain s4 where s4: "prompt_loop L 0 (show_place s2) = Some (Inr s4)" "same_view (show_place s2) s4"
    using prompt_loop_returns [OF ok3] by (rule returnsE)
  have ok4: "shell_ok s4" by (rule view.same_ok [OF s4(2) ok3])
  obtain s5 where s5: "?dollar s4 = Some (Inr s5)" "same_view s4 s5"
    using view.keepsD [OF literal_keeps ok4, of "''$ ''" L "0x7"] by (auto elim: returnsE)
  have "cetak_prompt L sh = Some (Inr s5)"
    by (rule prompt_run [OF s1(1) s2(1) \<open>unat (buffer_index s2) < 256\<close> s4(1) s5(1)])
  moreover have v: "same_view (show_place s2) s5" by (rule view.same_trans [OF s4(2) s5(2)])
  have "same_place s2 s5" by (rule place.same_trans [OF show_place_same view_place [OF v]])
  then have "same_place sh s5"
    using place.same_trans [OF s1(2) place.same_trans [OF view_place [OF s2(2)]]] by blast
  moreover have "at_home s5"
    using at_home_view [OF v] at_home_view [OF s2(2)] s1(3) by (simp add: at_home_def show_place_def)
  ultimately show ?thesis by (simp add: returns_def)
qed

end
