(* ===== verification/Fat32_Titles.thy ===== *)
theory Fat32_Titles
  imports Fat32_Calls Shell_Strings
begin

unbundle bit_operations_syntax

text \<open>
  The names that directories carry themselves. The first entry of a directory holds its own name;
  \<open>titled\<close> says that it is the name under which the directory is found in its parent. Every call
  keeps the names of the directories that stay, and a new directory gets the requested name, so
  \<open>titled\<close> holds in every reachable state. The shell's prompt shows these names.
\<close>

section \<open>Names copied into tables\<close>

lemma copy_name_c_string:
  assumes "length pre + length nm = 8" and "0 \<notin> set pre"
  shows "c_string (copy_name (pre @ replicate (length nm) 0) (length pre) nm) = pre @ c_string nm"
  using assms
proof (induction nm arbitrary: pre)
  case Nil
  then show ?case by (simp add: c_string_def takeWhile_eq_all_conv) (metis takeWhile_eq_all_conv)
next
  case (Cons c nm)
  show ?case
  proof (cases "c = 0")
    case True
    then show ?thesis using Cons.prems(2) c_string_append by simp
  next
    case False
    have "(pre @ replicate (length (c # nm)) 0)[length pre := c] = (pre @ [c]) @ replicate (length nm) 0"
      by (simp add: list_update_append)
    moreover have "c_string (copy_name ((pre @ [c]) @ replicate (length nm) 0) (length (pre @ [c])) nm) = (pre @ [c]) @ c_string nm"
      using False Cons.prems by (intro Cons.IH) auto
    ultimately show ?thesis using False Cons.prems(1) by simp
  qed
qed

lemma copied_name: "length nm = 8 \<Longrightarrow> c_string (copy_name (replicate 8 0) 0 nm) = c_string nm"
  using copy_name_c_string [of "[]" nm] by simp

definition own_name :: "fs \<Rightarrow> u32 \<Rightarrow> byte list" where
  "own_name st d = c_string (name (dir_at (storage st) d ! 0))"

lemma child_own_name: "wf_request r \<Longrightarrow> c_string (name (child_table st r c ! 0)) = c_string (rname r)"
  by (simp add: child_table_def init_directory_table_def Let_def copied_name wf_request_def)

section \<open>What the calls do to them\<close>

lemma write_names:
  assumes con: "consistent st" and ok: "call_ok st (Write r)" and w: "fat32_write r st = Inr (0, st')"
  shows "d \<in> dirs st \<Longrightarrow> own_name st' d = own_name st d"
    and "c \<in> dirs st' - dirs st \<Longrightarrow> own_name st' c = c_string (rname r)"
proof -
  have inv: "fs_inv st (dirs st)" using con by (simp add: consistent_def)
  have dir: "parent_cluster_number r \<in> dirs st" "wf_request r" "fits r" using ok by (simp_all add: call_ok_def)
  obtain slot slots where ws: "write_step st st' (dirs st) r slot slots"
    by (rule fat32_write_cases [OF inv dir]) (use w in auto)
  show "own_name st' d = own_name st d" if "d \<in> dirs st"
    using ws_old_dir [OF ws that] ws_slot_range(1) [OF ws] by (simp add: own_name_def)
  show "own_name st' c = c_string (rname r)" if "c \<in> dirs st' - dirs st"
    using that ws_dirs_eq [OF ws] ws_child_dir [OF ws] child_own_name [OF dir(2)]
    by (auto simp: own_name_def dirs_after_def split: if_splits)
qed

lemma delete_names:
  assumes con: "consistent st" and ok: "call_ok st (Delete r)" and w: "fat32_delete r st = Some (Inr (0, st'))"
    and d: "d \<in> dirs st'"
  shows "own_name st' d = own_name st d"
proof -
  have inv: "fs_inv st (dirs st)" using con by (simp add: consistent_def)
  have plain: "plain_request st (dirs st) r" using ok by (simp add: call_ok_def)
  obtain i where ds: "delete_step st st' (dirs st) r i"
    by (rule fat32_delete_cases [OF inv plain]) (use w in auto)
  have "2 \<le> i" using live_at [OF ds_live [OF ds]] by simp
  moreover have "d \<in> dirs st - set (freed st r i)" using d ds_dirs_eq [OF ds] by simp
  ultimately show ?thesis using ds_dir_at [OF ds, of d] by (simp add: own_name_def)
qed

section \<open>Directories carry the names of their entries\<close>

definition titled :: "fs \<Rightarrow> bool" where
  "titled st \<longleftrightarrow> own_name st ROOT_CLUSTER_NUMBER = str ''root''
     \<and> (\<forall>d \<in> dirs st. \<forall>k c. lookup st d k = Some (Folder c) \<longrightarrow> own_name st c = c_string (fst k))"

lemma titledD: "titled st \<Longrightarrow> d \<in> dirs st \<Longrightarrow> lookup st d k = Some (Folder c) \<Longrightarrow> own_name st c = c_string (fst k)"
  unfolding titled_def by blast

lemma folder_entry:
  assumes "consistent st" and "d \<in> dirs st" and "lookup st d k = Some (Folder c)"
  obtains i where "(d, i) \<in> entries st (dirs st)" "live (dir_at (storage st) d) i" "entry_key (dir_at (storage st) d ! i) = k"
    "is_folder (dir_at (storage st) d ! i)" "entry_cluster (dir_at (storage st) d ! i) = c" "c \<in> dirs st" "c \<noteq> ROOT_CLUSTER_NUMBER"
    "clusters_of (fat_table st) (entry_at st (d, i)) = [c]"
proof -
  from assms(3) obtain i where i: "live (dir_at (storage st) d) i" "entry_key (dir_at (storage st) d ! i) = k"
    "Folder c = node_of st (dir_at (storage st) d ! i)" by (rule lookup_Some)
  then have f: "is_folder (dir_at (storage st) d ! i)" "entry_cluster (dir_at (storage st) d ! i) = c"
    by (auto simp: node_of_def split: if_splits)
  have e: "(d, i) \<in> entries st (dirs st)" using assms(2) i(1) by (simp add: entries_def)
  then have "entry_ok (fat_table st) (dirs st) (entry_at st (d, i))"
    using assms(1) by (auto simp: consistent_def fs_inv_def owners_ok_def)
  then show thesis using that [OF e i(1,2) f] f by (simp add: entry_ok_def Let_def entry_at_def)
qed

lemma titled_same: "same_files a b \<Longrightarrow> titled b = titled a"
proof -
  assume "same_files a b"
  then have s: "storage b = storage a" "fat_table b = fat_table a" by (simp_all add: same_files_def)
  have "own_name b = own_name a" by (rule ext) (simp add: own_name_def s(1))
  then show ?thesis using dirs_cong [OF s(1)] lookup_cong [OF s] by (simp add: titled_def)
qed

text \<open>One map changes in one key; the new node, if it is a folder, has the key's name.\<close>

lemma titled_update:
  assumes con: "consistent st" and t: "titled st"
    and names: "\<And>d. d \<in> dirs st \<Longrightarrow> d \<in> dirs st' \<Longrightarrow> own_name st' d = own_name st d"
    and old: "\<And>d k c. d \<in> dirs st' \<Longrightarrow> lookup st' d k = Some (Folder c) \<Longrightarrow>
      c \<in> dirs st' \<and> (d \<in> dirs st \<and> lookup st d k = Some (Folder c) \<or> own_name st' c = c_string (fst k))"
  shows "titled st'"
proof -
  have "ROOT_CLUSTER_NUMBER \<in> dirs s" for s by (rule dirs.root)
  then have "own_name st' ROOT_CLUSTER_NUMBER = str ''root''" using names t by (simp add: titled_def)
  moreover have "own_name st' c = c_string (fst k)" if d: "d \<in> dirs st'" and l: "lookup st' d k = Some (Folder c)" for d k c
    using old [OF d l]
  proof (elim conjE disjE)
    assume c: "c \<in> dirs st'" and o: "d \<in> dirs st" "lookup st d k = Some (Folder c)"
    have "c \<in> dirs st" by (rule folder_entry [OF con o]) simp
    then show ?thesis using names c titledD [OF t o] by simp
  qed simp
  ultimately show ?thesis by (simp add: titled_def)
qed

text \<open>What a command does to them: the directories that stay keep their names.\<close>

definition keeps_titles :: "fs \<Rightarrow> fs \<Rightarrow> bool" where
  "keeps_titles st st' \<longleftrightarrow> (titled st \<longrightarrow> titled st') \<and> (\<forall>d \<in> dirs st \<inter> dirs st'. own_name st' d = own_name st d)"

lemma keeps_titles_same: "same_files a b \<Longrightarrow> keeps_titles a b"
proof -
  assume same: "same_files a b"
  then have "own_name b d = own_name a d" for d by (simp add: own_name_def same_files_def)
  then show ?thesis unfolding keeps_titles_def titled_same [OF same] by blast
qed

lemma keeps_titlesI:
  assumes "consistent st"
    and "\<And>d. d \<in> dirs st \<Longrightarrow> d \<in> dirs st' \<Longrightarrow> own_name st' d = own_name st d"
    and "\<And>d k c. d \<in> dirs st' \<Longrightarrow> lookup st' d k = Some (Folder c) \<Longrightarrow>
      c \<in> dirs st' \<and> (d \<in> dirs st \<and> lookup st d k = Some (Folder c) \<or> own_name st' c = c_string (fst k))"
  shows "keeps_titles st st'"
proof -
  have "titled st'" if "titled st" by (rule titled_update [OF assms(1) that assms(2,3)])
  moreover have "\<forall>d \<in> dirs st \<inter> dirs st'. own_name st' d = own_name st d" using assms(2) by blast
  ultimately show ?thesis unfolding keeps_titles_def by blast
qed

lemma titled_format: "titled (create_fat32 st)"
proof -
  have "c_string root_name = str ''root''" by code_simp
  then show ?thesis
    by (simp add: titled_def own_name_def create_fat32_root dirs_format fresh_lookup) (simp add: root_table_def)
qed

lemma titled_write:
  assumes con: "consistent st" and ok: "call_ok st (Write r)" and w: "fat32_write r st = Inr (0, st')" and t: "titled st"
  shows "titled st'"
proof (rule titled_update [OF con t])
  have con': "consistent st'" by (rule step_consistent [OF con ok fs_step.do_write [OF w]])
  obtain c0 where c0: "c0 \<notin> dirs st" "dirs st' = (if buffer_size r = 0 then insert c0 (dirs st) else dirs st)"
    and l: "\<forall>d \<in> dirs st. lookup st' d = (if d = parent_cluster_number r
         then (lookup st d)(request_key r \<mapsto>
           (if buffer_size r = 0 then Folder c0 else File (mem_read (memory st) (buf r) (unat (buffer_size r)))))
         else lookup st d)"
    and e: "buffer_size r = 0 \<longrightarrow> lookup st' c0 = Map.empty"
    using write_update [OF con ok w] by blast
  show "own_name st' d = own_name st d" if "d \<in> dirs st" for d by (rule write_names(1) [OF con ok w that])
  fix d k c assume d: "d \<in> dirs st'" and n: "lookup st' d k = Some (Folder c)"
  have "c \<in> dirs st'" by (rule folder_entry [OF con' d n]) simp
  moreover have "d \<in> dirs st" using d n c0(2) e by (auto split: if_splits)
  moreover have "own_name st' c = c_string (fst k)" if "lookup st d k \<noteq> Some (Folder c)"
  proof -
    have "k = request_key r" "c = c0" "buffer_size r = 0"
      using that n l \<open>d \<in> dirs st\<close> by (auto split: if_splits)
    then show ?thesis using write_names(2) [OF con ok w, of c0] c0 by (simp add: request_key_def)
  qed
  ultimately show "c \<in> dirs st' \<and> (d \<in> dirs st \<and> lookup st d k = Some (Folder c) \<or> own_name st' c = c_string (fst k))"
    by blast
qed

lemma titled_delete:
  assumes con: "consistent st" and ok: "call_ok st (Delete r)" and w: "fat32_delete r st = Some (Inr (0, st'))" and t: "titled st"
  shows "titled st'"
proof (rule titled_update [OF con t])
  have con': "consistent st'" by (rule step_consistent [OF con ok fs_step.do_delete [OF w]])
  note del = delete_removal [OF con ok w]
  show "own_name st' d = own_name st d" if "d \<in> dirs st'" for d by (rule delete_names [OF con ok w that])
  fix d k c assume d: "d \<in> dirs st'" and n: "lookup st' d k = Some (Folder c)"
  have "c \<in> dirs st'" by (rule folder_entry [OF con' d n]) simp
  moreover have "d \<in> dirs st" "lookup st d k = Some (Folder c)" using del d n by (auto split: if_splits)
  ultimately show "c \<in> dirs st' \<and> (d \<in> dirs st \<and> lookup st d k = Some (Folder c) \<or> own_name st' c = c_string (fst k))"
    by blast
qed

lemma titled_step:
  assumes con: "consistent st" and ok: "call_ok st call" and step: "fs_step st call st'" and t: "titled st"
  shows "titled st'"
proof -
  note inv = con [unfolded consistent_def]
  have keep: "titled s" if "same_files st s" for s using titled_same [OF that] t by simp
  from step show ?thesis
  proof cases
    case (do_read r c)
    with ok have "plain_request st (dirs st) r" by (simp add: call_ok_def)
    from read_outcomes [OF inv this] obtain c' s where "fat32_read r st = Some (Inr (c', s))" "same_files st s" .
    with do_read(2) keep show ?thesis by auto
  next
    case (do_read_directory r c)
    then show ?thesis using read_directory_same keep by blast
  next
    case (do_write r c)
    with write_codes [OF con, of r] ok t titled_write [OF con _ _ t] show ?thesis by (auto split: if_splits)
  next
    case (do_delete r c)
    with delete_codes [OF con, of r] ok t titled_delete [OF con _ _ t] show ?thesis
      by (auto split: option.splits node.splits if_splits)
  next
    case (do_mount junk b m)
    then have "same_files st st'" using mount_consistent [OF con] by (simp add: same_files_def)
    then show ?thesis by (rule keep)
  next
    case (do_compute m)
    then show ?thesis by (intro keep) (simp add: same_files_def)
  qed
qed

lemma reachable_titled: "fs_reachable st \<Longrightarrow> titled st"
proof (induction rule: fs_reachable.induct)
  case (formatted st)
  show ?case by (rule titled_format)
next
  case (step st call st')
  then show ?case by (blast intro: titled_step reachable_consistent)
qed

end
