(* ===== verification/Shell_Calls.thy ===== *)
theory Shell_Calls
  imports Shell_Frame Fat32_Titles
begin

unbundle bit_operations_syntax

text \<open>
  The system calls of the shell's commands as file operations: \<open>requested\<close> is the state in which
  the request lies in memory, \<open>answered\<close> the state in which the return code does. Each kind of call
  is equal to the rest of the command on the answered state, and a command whose remaining
  statements only print leaves the file system as the operation did. The regions of a layout that
  \<open>layout_ok\<close> keeps apart do not disturb each other.
\<close>

section \<open>States around a call\<close>

definition requested :: "shell_layout \<Rightarrow> request \<Rightarrow> shell \<Rightarrow> shell" where
  "requested L r sh = put_object (at_request L) (encode_request r) sh"

definition answered :: "shell_layout \<Rightarrow> i8 \<Rightarrow> fs \<Rightarrow> shell \<Rightarrow> shell" where
  "answered L c st sh = sh\<lparr>sys := (sys sh)\<lparr>files := store8 (at_code L) c st\<rparr>\<rparr>"

definition same_vars :: "shell \<Rightarrow> shell \<Rightarrow> bool" where
  "same_vars s t \<longleftrightarrow> currentDirCluster t = currentDirCluster s \<and> parent_clusters t = parent_clusters s
     \<and> buffer_index t = buffer_index s"

abbreviation (input) disk where "disk sh \<equiv> files (sys sh)"

lemma same_vars_trans: "same_vars s t \<Longrightarrow> same_vars t u \<Longrightarrow> same_vars s u"
  by (simp add: same_vars_def)

lemma place_vars: "same_place s t \<Longrightarrow> same_vars s t" and place_disk: "same_place s t \<Longrightarrow> same_files (disk s) (disk t)"
  by (simp_all add: same_place_def same_vars_def)

lemma requested_view: "same_view sh (requested L r sh)"
  by (simp add: requested_def)

lemma requested_disk: "same_files (disk sh) (disk (requested L r sh))"
  using place_disk [OF view_place [OF requested_view]] .

lemma answered_simps [simp]:
  "disk (answered L c st sh) = store8 (at_code L) c st"
  "currentDirCluster (answered L c st sh) = currentDirCluster sh" "currentDir (answered L c st sh) = currentDir sh"
  "parent_clusters (answered L c st sh) = parent_clusters sh" "buffer_index (answered L c st sh) = buffer_index sh"
  "dir_buff (answered L c st sh) = dir_buff sh"
  by (simp_all add: answered_def)

lemma same_files_store8 [simp]: "same_files a (store8 p v st) = same_files a st"
  by (simp add: store8_def)

lemma answered_ok: "shell_ok sh \<Longrightarrow> consistent st \<Longrightarrow> shell_ok (answered L c st sh)"
  by (simp add: shell_ok_def answered_def kernel_inv_def store8_def consistent_memory)

text \<open>What depends on the device and the table only.\<close>

lemma same_files_view:
  assumes "same_files a b"
  shows "consistent b = consistent a" and "dirs b = dirs a" and "lookup b = lookup a"
    and "call_ok b call = call_ok a call" and "storage b = storage a" and "fat_table b = fat_table a"
    and "plain_request b D r = plain_request a D r" and "own_name b = own_name a"
proof -
  have s: "storage b = storage a" "fat_table b = fat_table a" using assms by (simp_all add: same_files_def)
  show "consistent b = consistent a" by (rule consistent_cong [OF s])
  show "dirs b = dirs a" by (rule dirs_cong [OF s(1)])
  show "lookup b = lookup a" using lookup_cong [OF s] by blast
  show "storage b = storage a" "fat_table b = fat_table a" by (rule s)+
  show "own_name b = own_name a" by (rule ext) (simp add: own_name_def s(1))
  show "plain_request b D r = plain_request a D r" by (rule plain_request_cong [OF s(1)])
  show "call_ok b call = call_ok a call"
    using plain_request_cong [OF s(1)] dirs_cong [OF s(1)] by (simp add: call_ok_def split: fs_call.split)
qed

section \<open>The calls\<close>

lemma file_call_return_code:
  assumes "wf_request r" and "eax = 0 \<and> res = fat32_read r (disk (requested L r sh))
      \<or> eax = 2 \<and> res = Some (fat32_write r (disk (requested L r sh)))
      \<or> eax = 8 \<and> res = fat32_delete r (disk (requested L r sh))"
    and "res = Some (Inr (c, st))"
  shows "file_call L eax r rest sh = rest c (answered L c st (requested L r sh))"
proof -
  let ?s = "requested L r sh" and ?f = "call_frame eax (at_request L) (at_code L) 0"
  have m: "mem_read (memory (files (sys ?s))) (reg_ebx ?f) 23 = encode_request r"
    using requests.len_enc [OF assms(1)]
    by (simp add: requested_def put_object_def mem_read_write)
  have "syscall ?f (sys ?s) = return_code (at_code L) (sys ?s) res"
    using syscall_files [OF assms(1) m] assms(2) by auto
  also have "\<dots> = Some (Inr ((sys ?s)\<lparr>files := store8 (at_code L) c st\<rparr>))"
    by (simp add: assms(3) return_code_def)
  finally have "user_syscall eax (at_request L) (at_code L) 0 ?s = Some (Inr (answered L c st ?s))"
    by (simp add: user_syscall_def answered_def)
  moreover have "user_memory (answered L c st ?s) (at_code L) = c"
    by (simp add: user_memory_def store8_def)
  ultimately show ?thesis by (simp add: file_call_def requested_def [symmetric])
qed

lemma call_then:
  assumes eq: "file_call L eax r rest sh = rest c (answered L c st (requested L r sh))"
    and sh: "shell_ok sh" and st: "consistent st"
    and k: "shell_ok (answered L c st (requested L r sh)) \<Longrightarrow>
      returns (rest c (answered L c st (requested L r sh))) (same_place (answered L c st (requested L r sh)))"
  shows "returns (file_call L eax r rest sh) (\<lambda>t. shell_ok t \<and> same_vars sh t \<and> same_files st (disk t))"
proof -
  let ?a = "answered L c st (requested L r sh)"
  have ok: "shell_ok ?a" by (rule answered_ok [OF view.same_ok [OF requested_view sh] st])
  have v: "same_vars sh ?a"
    using place_vars [OF view_place [OF requested_view]] by (simp add: same_vars_def)
  have d: "same_files st (disk ?a)" by simp
  show ?thesis unfolding eq
  proof (rule returns_mono [OF k [OF ok]])
    fix t assume t: "same_place ?a t"
    show "shell_ok t \<and> same_vars sh t \<and> same_files st (disk t)"
      using place.same_ok [OF t ok] same_vars_trans [OF v place_vars [OF t]] same_files_trans [OF d place_disk [OF t]]
      by simp
  qed
qed

section \<open>Names\<close>

definition padded :: "byte list \<Rightarrow> byte list" where
  "padded nm = nm @ replicate (8 - length nm) 0"

lemma length_padded [simp]: "length nm \<le> 8 \<Longrightarrow> length (padded nm) = 8"
  by (simp add: padded_def)

lemma name_loop_line:
  assumes "length nm \<le> 8" and "i \<le> length nm"
  shows "name_loop (line nm) i (take i nm @ replicate (8 - i) 0) = Inr (padded nm)"
  using assms(2)
proof (induction "length nm - i" arbitrary: i)
  case 0
  then show ?case using assms(1) by (simp add: name_loop.simps padded_def)
next
  case (Suc k)
  then have i: "i < length nm" by simp
  have "(take i nm @ replicate (8 - i) 0)[i := nm ! i] = take i nm @ nm ! i # replicate (8 - Suc i) 0"
    using i assms(1) by (simp add: list_update_append Suc_diff_Suc [symmetric] del: diff_Suc_Suc)
  also have "\<dots> = take (Suc i) nm @ replicate (8 - Suc i) 0"
    using i by (simp add: take_Suc_conv_app_nth)
  finally have u: "(take i nm @ replicate (8 - i) 0)[i := chars (line nm) ! i] = take (Suc i) nm @ replicate (8 - Suc i) 0"
    using i by simp
  have "name_loop (line nm) i (take i nm @ replicate (8 - i) 0)
      = name_loop (line nm) (Suc i) (take (Suc i) nm @ replicate (8 - Suc i) 0)"
    using i assms(1) by (subst name_loop.simps) (simp add: u del: line_sel(3))
  also have "\<dots> = Inr (padded nm)" using Suc.hyps(2) i by (intro Suc.hyps(1)) simp_all
  finally show ?case .
qed

lemma request_name_line: "length nm \<le> 8 \<Longrightarrow> request_name (line nm) = Inr (padded nm)"
  using name_loop_line [of nm 0] by (simp add: request_name_def)

lemma request_name_long:
  assumes "8 < length nm" and "length nm \<le> 256"
  shows "request_name (line nm) = Inl OutOfBounds"
proof -
  have "i \<le> 8 \<Longrightarrow> name_loop (line nm) i b = Inl OutOfBounds" for i b
  proof (induction "8 - i" arbitrary: i b)
    case 0
    then show ?case using assms by (simp add: name_loop.simps)
  next
    case (Suc k)
    then show ?case using assms by (subst name_loop.simps) simp
  qed
  then show ?thesis by (simp add: request_name_def)
qed

lemma user_request_simps [simp]:
  "parent_cluster_number (user_request p nm c n) = c" "buffer_size (user_request p nm c n) = n"
  "buf (user_request p nm c n) = p" "request_key (user_request p nm c n) = (nm, replicate 3 0)"
  "wf_request (user_request p nm c n) \<longleftrightarrow> length nm = 8" "fits (user_request p nm c n) \<longleftrightarrow> unat n \<le> MAX_FILE"
  by (simp_all add: user_request_def request_key_def wf_request_def fits_def)

lemma slen_line_le: "length nm \<le> 256 \<Longrightarrow> 8 < slen (line nm) \<longleftrightarrow> 8 < length nm"
  by (simp add: word_less_nat_alt)

section \<open>Regions of user memory\<close>

definition user_area :: "u32 \<Rightarrow> nat \<Rightarrow> bool" where
  "user_area p n \<longleftrightarrow> unat p + n \<le> 0x400000"

definition apart :: "u32 \<Rightarrow> nat \<Rightarrow> u32 \<Rightarrow> nat \<Rightarrow> bool" where
  "apart p n q k \<longleftrightarrow> unat p + n \<le> unat q \<or> unat q + k \<le> unat p"

text \<open>The data buffer, the request and the return code lie in the 4 MiB user page, apart.\<close>

definition layout_ok :: "shell_layout \<Rightarrow> bool" where
  "layout_ok L \<longleftrightarrow> user_area (at_data L) DATA_SIZE \<and> user_area (at_request L) 23 \<and> user_area (at_code L) 4
     \<and> apart (at_data L) DATA_SIZE (at_request L) 23 \<and> apart (at_data L) DATA_SIZE (at_code L) 4"

lemma mem_write_apart:
  assumes "user_area p n" and "user_area q (length bs)" and "apart p n q (length bs)" and "i < n"
  shows "mem_write m q bs (p + of_nat i) = m (p + of_nat i)"
proof (rule mem_write_other)
  have b: "unat p + n \<le> 0x400000" "unat q + length bs \<le> 0x400000" using assms(1,2) by (simp_all add: user_area_def)
  have pi: "unat (p + of_nat i) = unat p + i"
    using b(1) assms(4) by (subst unat_word_ariths) (simp add: unat_of_nat)
  show "length bs \<le> unat (p + of_nat i - q)"
    using assms(3,4) b by (auto simp: unat_sub_if' pi apart_def)
qed

lemma mem_read_apart:
  assumes "user_area p n" and "user_area q (length bs)" and "apart p n q (length bs)"
  shows "mem_read (mem_write m q bs) p n = mem_read m p n"
  using mem_write_apart [OF assms] by (simp add: mem_read_def)

lemma mem_read_code:
  assumes "layout_ok L" and "n \<le> DATA_SIZE"
  shows "mem_read (m(at_code L := c)) (at_data L) n = mem_read m (at_data L) n"
proof -
  have "user_area (at_data L) n" "user_area (at_code L) (length [c])" "apart (at_data L) n (at_code L) (length [c])"
    using assms by (auto simp: layout_ok_def user_area_def apart_def)
  note a = mem_read_apart [OF this, of m]
  have "m(at_code L := c) = mem_write m (at_code L) [c]"
    by (rule ext) (auto simp: mem_write_def Let_def unat_eq_zero)
  with a show ?thesis by simp
qed

lemma user_off_screen:
  assumes "user_area p n" and "i < n"
  shows "off_screen (p + of_nat i)"
proof -
  have b: "unat p + n \<le> 0x400000" using assms(1) by (simp add: user_area_def)
  have "unat (p + of_nat i) = unat p + i"
    using b assms(2) by (subst unat_word_ariths) (simp add: unat_of_nat)
  then show ?thesis using b assms(2) by (simp add: off_screen_def unat_sub_if')
qed

end
