(* ===== verification/Shell_Commands.thy ===== *)
theory Shell_Commands
  imports Shell_Calls
begin

unbundle bit_operations_syntax

text \<open>
  The commands of the shell against the abstract map of the file system. \<open>mkdir\<close> maps the name to
  a new empty folder of the current directory, \<open>rm\<close> removes it, \<open>cat\<close> prints the file and \<open>cp\<close>
  writes a copy, both up to the first zero byte; \<open>cd\<close> and \<open>cd ..\<close> move in the tree.
\<close>

section \<open>When a write succeeds\<close>

definition name_taken :: "fs \<Rightarrow> request \<Rightarrow> bool" where
  "name_taken st r \<longleftrightarrow> (\<exists>e \<in> set (dir_at (storage st) (parent_cluster_number r)). entry_matches r e)"

definition has_room :: "fs \<Rightarrow> request \<Rightarrow> bool" where
  "has_room st r \<longleftrightarrow>
     (\<exists>i < DIR_ENTRIES. 0 < i \<and> user_attribute (dir_at (storage st) (parent_cluster_number r) ! i) \<noteq> UATTR_NOT_EMPTY)
     \<and> max 1 (cluster_count (unat (buffer_size r))) \<le> count_if (\<lambda>v. v = FAT32_FAT_EMPTY_ENTRY) (fat_table st)"

text \<open>
  The effect of a write on the maps: the node under the key, in one directory. The directories keep
  the names that they carry, and a new one gets the requested name.
\<close>

definition node_added :: "fs \<Rightarrow> fs \<Rightarrow> u32 \<Rightarrow> byte list \<Rightarrow> node \<Rightarrow> bool" where
  "node_added st st' d nm n \<longleftrightarrow> consistent st'
     \<and> dirs st' = (case n of Folder c \<Rightarrow> insert c (dirs st) | File bs \<Rightarrow> dirs st)
     \<and> (\<forall>d' \<in> dirs st. lookup st' d' = (if d' = d then (lookup st d)((nm, replicate 3 0) \<mapsto> n) else lookup st d'))
     \<and> (\<forall>d' \<in> dirs st. own_name st' d' = own_name st d')
     \<and> (\<forall>c. n = Folder c \<longrightarrow> c \<notin> dirs st \<and> lookup st' c = Map.empty \<and> own_name st' c = c_string nm)"

definition node_removed :: "fs \<Rightarrow> fs \<Rightarrow> u32 \<Rightarrow> byte list \<Rightarrow> node \<Rightarrow> bool" where
  "node_removed st st' d nm n \<longleftrightarrow> consistent st'
     \<and> dirs st' = dirs st - (case n of Folder c \<Rightarrow> {c} | File bs \<Rightarrow> {})
     \<and> (\<forall>d' \<in> dirs st'. own_name st' d' = own_name st d')
     \<and> (\<forall>d' \<in> dirs st'. lookup st' d' = (if d' = d then (lookup st d)((nm, replicate 3 0) := None) else lookup st d'))"

lemma node_added_same: "same_files a b \<Longrightarrow> node_added st b d nm n = node_added st a d nm n"
  by (simp add: node_added_def same_files_view)

lemma node_removed_same: "same_files a b \<Longrightarrow> node_removed st b d nm n = node_removed st a d nm n"
  by (simp add: node_removed_def same_files_view)

lemma before_same:
  assumes "same_files a b"
  shows "node_added b st' d nm n = node_added a st' d nm n" and "node_removed b st' d nm n = node_removed a st' d nm n"
    and "name_taken b r = name_taken a r" and "has_room b r = has_room a r"
  unfolding node_added_def node_removed_def name_taken_def has_room_def same_files_view [OF assms] by (rule refl)+

text \<open>The three outcomes of a write, with the node it adds.\<close>

lemma write_outcome:
  assumes con: "consistent st" and d: "d \<in> dirs st" and len: "length nm = 8" and n: "unat n \<le> MAX_FILE"
    and r_def: "r = user_request p nm d n"
  shows "if name_taken st r then fat32_write r st = Inr (1, st)
    else if \<not> has_room st r then fat32_write r st = Inr (-1, st)
    else \<exists>st' c. fat32_write r st = Inr (0, st')
      \<and> node_added st st' d nm (if n = 0 then Folder c else File (mem_read (memory st) p (unat n)))"
proof -
  have ok: "call_ok st (Write r)" using d len n by (simp add: call_ok_def r_def)
  have full: "(\<forall>i < DIR_ENTRIES. 0 < i \<longrightarrow>
             user_attribute (dir_at (storage st) (parent_cluster_number r) ! i) = UATTR_NOT_EMPTY)
         \<or> count_if (\<lambda>v. v = FAT32_FAT_EMPTY_ENTRY) (fat_table st) < max 1 (cluster_count (unat (buffer_size r)))
      \<longleftrightarrow> \<not> has_room st r"
    unfolding has_room_def not_less [symmetric] by blast
  note codes = write_codes [OF con ok, folded name_taken_def, unfolded full]
  show ?thesis
  proof (cases "name_taken st r \<or> \<not> has_room st r")
    case True
    with codes show ?thesis by (auto split: if_splits)
  next
    case False
    with codes obtain st' where w: "fat32_write r st = Inr (0, st')" by auto
    from write_update [OF con ok w] obtain c where c: "c \<notin> dirs st"
      "dirs st' = (if n = 0 then insert c (dirs st) else dirs st)"
      "\<forall>d' \<in> dirs st. lookup st' d' = (if d' = d then (lookup st d')((nm, replicate 3 0) \<mapsto>
           (if n = 0 then Folder c else File (mem_read (memory st) p (unat n)))) else lookup st d')"
      "n = 0 \<longrightarrow> lookup st' c = Map.empty"
      by (auto simp: r_def)
    have "consistent st'"
      using step_consistent [OF con ok fs_step.do_write [OF w]] .
    moreover have "rname r = nm" by (simp add: r_def user_request_def)
    moreover note write_names [OF con ok w]
    ultimately have "node_added st st' d nm (if n = 0 then Folder c else File (mem_read (memory st) p (unat n)))"
      using c unfolding node_added_def by (cases "n = 0") auto
    with w False show ?thesis by auto
  qed
qed

lemma delete_outcome:
  assumes con: "consistent st" and plain: "plain_request st (dirs st) r"
    and r_def: "r = user_request p nm d n"
  shows "case lookup st d (nm, replicate 3 0) of
      None \<Rightarrow> fat32_delete r st = Some (Inr (1, st))
    | Some m \<Rightarrow> if \<exists>c. m = Folder c \<and> lookup st c \<noteq> Map.empty then fat32_delete r st = Some (Inr (2, st))
        else \<exists>st'. fat32_delete r st = Some (Inr (0, st')) \<and> node_removed st st' d nm m"
proof -
  have ok: "call_ok st (Delete r)" using plain by (simp add: call_ok_def)
  note codes = delete_codes [OF con ok, unfolded r_def, simplified, folded r_def]
  show ?thesis
  proof (cases "\<exists>st'. fat32_delete r st = Some (Inr (0, st'))")
    case True
    then obtain st' where r: "fat32_delete r st = Some (Inr (0, st'))" by blast
    have "consistent st'" by (rule step_consistent [OF con ok fs_step.do_delete [OF r]])
    moreover note delete_removal [OF con ok r, unfolded r_def, simplified, folded r_def] delete_names [OF con ok r]
    ultimately have "node_removed st st' d nm m" if "lookup st d (nm, replicate 3 0) = Some m" for m
      using that unfolding node_removed_def by (cases m) (auto simp: r_def)
    with r codes show ?thesis by (cases "lookup st d (nm, replicate 3 0)") (auto split: node.splits if_splits)
  next
    case False
    with codes show ?thesis by (cases "lookup st d (nm, replicate 3 0)") (auto split: node.splits if_splits)
  qed
qed

section \<open>mkdir and rm\<close>

lemma shell_consistent: "shell_ok sh \<Longrightarrow> consistent (disk sh)"
  by (simp add: shell_ok_def kernel_inv_def)

lemma requested_consistent: "shell_ok sh \<Longrightarrow> consistent (disk (requested L r sh))"
  using same_files_view(1) [OF requested_disk] shell_consistent by blast

lemma say_keeps:
  "length s < 2 ^ 32 \<Longrightarrow> place.keeps (user_puts L (c_literal s) color)"
  "length bs \<le> 256 \<Longrightarrow> place.keeps (user_puts L (buff_object (line bs)) color)"
  by (simp_all add: keeps_view_place)

lemmas command_keeps = place.keeps_block say_keeps load_keeps

lemma mkdir_returns:
  assumes sh: "shell_ok sh" and d: "currentDirCluster sh \<in> dirs (disk sh)" and nm: "length nm \<le> 8"
    and r_def: "r = user_request 0 (padded nm) (currentDirCluster sh) 0"
  shows "returns (shell_mkdir L (line nm) sh) (\<lambda>t. shell_ok t \<and> same_vars sh t
    \<and> (if name_taken (disk sh) r \<or> \<not> has_room (disk sh) r then same_files (disk sh) (disk t)
       else \<exists>c. node_added (disk sh) (disk t) (currentDirCluster sh) (padded nm) (Folder c)))"
proof -
  let ?st = "disk (requested L r sh)"
  define rest where "rest = (\<lambda>retcode :: i8.
          if retcode = 0 then
            block [user_puts L (c_literal ''Make directory success! '') 0x2,
                   user_puts L (c_literal [CHR 0x27]) 0x2,
                   user_puts L (buff_object (line nm)) 0x2,
                   user_puts L (c_literal [CHR 0x27]) 0x2,
                   user_puts L (c_literal ('' has been created..'' @ [CHR 0x0A])) 0x2,
                   \<lambda>sh. currentDir_call L 3 (currentDirCluster sh) sh]
          else if retcode = 1 then
            block [user_puts L (c_literal ''mkdir: cannot create directory '') 0xC,
                   user_puts L (c_literal [CHR 0x27]) 0xC,
                   user_puts L (buff_object (line nm)) 0xC,
                   user_puts L (c_literal [CHR 0x27]) 0xC,
                   user_puts L (c_literal ('': File exists'' @ [CHR 0x0A])) 0xC]
          else block [])"
  have keeps: "place.keeps (rest c)" for c
    using nm by (simp add: rest_def command_keeps)
  have eq: "shell_mkdir L (line nm) sh = file_call L 2 r rest sh"
    using nm slen_line_le [of nm] by (simp add: shell_mkdir_def request_name_line rest_def r_def)
  have wf: "wf_request r" using nm by (simp add: r_def)
  note same = same_files_view [OF requested_disk [of sh L r]] and con = requested_consistent [OF sh, of L r]
  have d': "currentDirCluster sh \<in> dirs ?st" using d same by simp
  have run: "returns (file_call L 2 r rest sh) (\<lambda>t. shell_ok t \<and> same_vars sh t \<and> same_files st (disk t))"
    if "fat32_write r ?st = Inr (c, st)" "consistent st" for c st
    using that by (intro call_then [OF file_call_return_code [OF wf]] sh place.keepsD [OF keeps]) auto
  note out = write_outcome [OF con d' _ _ r_def] and b = before_same [OF requested_disk [of sh L r]]
  show ?thesis
  proof (cases "name_taken (disk sh) r \<or> \<not> has_room (disk sh) r")
    case True
    with out nm b obtain c where "fat32_write r ?st = Inr (c, ?st)" by (auto split: if_splits)
    from run [OF this con] True same show ?thesis
      unfolding eq by (elim returns_mono) (auto simp: same_files_def)
  next
    case False
    with out nm b obtain st c where w: "fat32_write r ?st = Inr (0, st)"
      and n: "node_added (disk sh) st (currentDirCluster sh) (padded nm) (Folder c)" by auto
    have "consistent st" using n by (simp add: node_added_def)
    from run [OF w this] False n show ?thesis
      unfolding eq by (elim returns_mono) (auto dest: node_added_same)
  qed
qed

lemma rm_returns:
  assumes sh: "shell_ok sh" and nm: "length nm \<le> 8"
    and r_def: "r = user_request 0 (padded nm) (currentDirCluster sh) 0"
    and plain: "plain_request (disk sh) (dirs (disk sh)) r"
  shows "returns (rm L (line nm) sh) (\<lambda>t. shell_ok t \<and> same_vars sh t
    \<and> (case lookup (disk sh) (currentDirCluster sh) (padded nm, replicate 3 0) of
         None \<Rightarrow> same_files (disk sh) (disk t)
       | Some m \<Rightarrow> if \<exists>c. m = Folder c \<and> lookup (disk sh) c \<noteq> Map.empty then same_files (disk sh) (disk t)
           else node_removed (disk sh) (disk t) (currentDirCluster sh) (padded nm) m))"
proof -
  let ?st = "disk (requested L r sh)" and ?k = "(padded nm, replicate 3 0)"
  define rest where "rest = (\<lambda>retcode :: i8.
          if retcode = 0 then
            block [user_puts L (c_literal ''Remove success! '') 0x2,
                   user_puts L (c_literal [CHR 0x27]) 0x2,
                   user_puts L (buff_object (line nm)) 0x2,
                   user_puts L (c_literal [CHR 0x27]) 0x2,
                   user_puts L (c_literal ('' has been removed..'' @ [CHR 0x0A])) 0x2]
          else if retcode = 1 then
            block [user_puts L (c_literal (''rm: cannot remove '' @ [CHR 0x27])) 0xC,
                   user_puts L (buff_object (line nm)) 0xC,
                   user_puts L (c_literal ([CHR 0x27] @ '': No such file or directory'')) 0xC]
          else block [])"
  have keeps: "place.keeps (rest c)" for c
    using nm by (simp add: rest_def command_keeps)
  have eq: "rm L (line nm) sh = file_call L 8 r rest sh"
    using nm slen_line_le [of nm] by (simp add: rm_def request_name_line rest_def r_def)
  have wf: "wf_request r" using nm by (simp add: r_def)
  note same = same_files_view [OF requested_disk [of sh L r]] and con = requested_consistent [OF sh, of L r]
  have plain': "plain_request ?st (dirs ?st) r" using plain same by simp
  have run: "returns (file_call L 8 r rest sh) (\<lambda>t. shell_ok t \<and> same_vars sh t \<and> same_files st (disk t))"
    if "fat32_delete r ?st = Some (Inr (c, st))" "consistent st" for c st
    using that by (intro call_then [OF file_call_return_code [OF wf]] sh place.keepsD [OF keeps]) auto
  note out = delete_outcome [OF con plain' r_def] and b = before_same [OF requested_disk [of sh L r]]
  show ?thesis
  proof (cases "\<exists>m. lookup (disk sh) (currentDirCluster sh) ?k = Some m
      \<and> \<not> (\<exists>c. m = Folder c \<and> lookup (disk sh) c \<noteq> Map.empty)")
    case True
    then obtain m where m: "lookup (disk sh) (currentDirCluster sh) ?k = Some m"
      "\<not> (\<exists>c. m = Folder c \<and> lookup (disk sh) c \<noteq> Map.empty)" by blast
    with out b same obtain st where w: "fat32_delete r ?st = Some (Inr (0, st))"
      and n: "node_removed (disk sh) st (currentDirCluster sh) (padded nm) m" by auto
    have "consistent st" using n by (simp add: node_removed_def)
    from run [OF w this] m n show ?thesis
      unfolding eq by (elim returns_mono) (auto dest: node_removed_same)
  next
    case False
    with out same obtain c where "fat32_delete r ?st = Some (Inr (c, ?st))"
      by (cases "lookup (disk sh) (currentDirCluster sh) ?k") auto
    from run [OF this con] False same show ?thesis
      unfolding eq by (elim returns_mono) (auto simp: same_files_def split: option.split)
  qed
qed

section \<open>cat and cp\<close>

lemma data_request_simps [simp]:
  "parent_cluster_number (data_request L nm c) = c" "buffer_size (data_request L nm c) = 20480"
  "buf (data_request L nm c) = at_data L" "request_key (data_request L nm c) = (nm, replicate 3 0)"
  "wf_request (data_request L nm c) \<longleftrightarrow> length nm = 8"
  by (simp_all add: data_request_def)

definition data_at :: "shell_layout \<Rightarrow> shell \<Rightarrow> byte list" where
  "data_at L sh = mem_read (user_memory sh) (at_data L) DATA_SIZE"

lemma length_data_at [simp]: "length (data_at L sh) = DATA_SIZE"
  by (simp add: data_at_def)

lemma c_string_take: "take (length bs) data = bs \<Longrightarrow> 0 \<in> set bs \<Longrightarrow> c_string data = c_string bs \<and> 0 \<in> set data"
proof -
  assume t: "take (length bs) data = bs" and z: "0 \<in> set bs"
  have "c_string (bs @ drop (length bs) data) = c_string bs"
    using z unfolding c_string_def by (intro takeWhile_append1) auto
  moreover have "data = bs @ drop (length bs) data" using t by (metis append_take_drop_id)
  ultimately show ?thesis using z by (metis Un_iff set_append)
qed

text \<open>The state after the file was read into the data buffer.\<close>

lemma read_file_call:
  assumes L: "layout_ok L" and sh: "shell_ok sh" and r_def: "r = data_request L nm d"
    and plain: "plain_request (disk sh) (dirs (disk sh)) r"
    and f: "lookup (disk sh) d (nm, replicate 3 0) = Some (File bs)"
    and n: "length bs \<le> DATA_SIZE"
  obtains s1 where "\<forall>rest. file_call L 0 r rest sh = rest 0 s1" "same_view sh s1"
    "take (length bs) (data_at L s1) = bs"
    "\<forall>a. DATA_SIZE \<le> unat (a - at_data L) \<and> a \<noteq> at_code L \<longrightarrow> user_memory s1 a = user_memory (requested L r sh) a"
proof -
  let ?s = "requested L r sh"
  note same = same_files_view [OF requested_disk [of sh L r]] and con = requested_consistent [OF sh, of L r]
  have wf: "wf_request r" using plain by (simp add: plain_request_def)
  have ok: "call_ok (disk ?s) (Read r)" using plain same by (simp add: call_ok_def)
  have "cluster_count (length bs) \<le> (DATA_SIZE + 2047) div CLUSTER_SIZE"
    unfolding cluster_count_def using n by (intro div_le_mono) simp
  then have cc: "cluster_count (length bs) \<le> 10" by simp
  with read_map [OF con ok] f obtain m where m: "fat32_read r (disk ?s) = Some (Inr (0, (disk ?s)\<lparr>memory := m\<rparr>))"
      "mem_read m (at_data L) (length bs) = bs"
      "\<forall>a. CLUSTER_SIZE * cluster_count (length bs) \<le> unat (a - at_data L) \<longrightarrow> m a = memory (disk ?s) a"
    using same by (auto simp: r_def)
  define s1 where "s1 = answered L 0 ((disk ?s)\<lparr>memory := m\<rparr>) ?s"
  have "consistent ((disk ?s)\<lparr>memory := m\<rparr>)" using con by (simp add: consistent_memory)
  then have "shell_ok s1"
    unfolding s1_def by (intro answered_ok view.same_ok [OF requested_view sh])
  moreover have "same_files (disk sh) (disk s1)" using requested_disk by (simp add: s1_def)
  ultimately have v: "same_view sh s1"
    using requested_view [of sh L r] by (simp add: same_view_def same_place_def s1_def)
  have mem: "user_memory s1 = m(at_code L := 0)" by (simp add: s1_def user_memory_def store8_def)
  then have "data_at L s1 = mem_read m (at_data L) DATA_SIZE"
    using mem_read_code [OF L] by (simp add: data_at_def)
  then have "take (length bs) (data_at L s1) = bs" using n m(2) by (simp add: take_mem_read)
  moreover have "file_call L 0 r rest sh = rest 0 s1" for rest
    unfolding s1_def using m(1) by (intro file_call_return_code [OF wf]) auto
  moreover have "user_memory s1 a = user_memory ?s a" if a: "DATA_SIZE \<le> unat (a - at_data L) \<and> a \<noteq> at_code L" for a
  proof -
    have "CLUSTER_SIZE * cluster_count (length bs) \<le> unat (a - at_data L)" using cc a by linarith
    then have "m a = memory (disk ?s) a" using m(3) by blast
    moreover have "user_memory s1 a = m a" using a unfolding mem by simp
    ultimately show ?thesis by (simp add: user_memory_def)
  qed
  ultimately show thesis using v that by blast
qed

text \<open>Printing the data buffer: the bytes before its first zero, at the position of the printer.\<close>

definition shown :: "byte list \<Rightarrow> shell \<Rightarrow> shell" where
  "shown bs sh = sh\<lparr>sys := with_console (\<lambda>c. update_cursor_position (print 2 0 bs c)) (sys sh)\<rparr>"

lemma c_string_prefix: "take (length (c_string bs)) bs = c_string bs" "takeWhile (\<lambda>b. b \<noteq> 0) (c_string bs) = c_string bs"
  by (simp_all add: c_string_def takeWhile_eq_take [symmetric])

lemma puts_data:
  assumes L: "layout_ok L" and sh: "shell_ok sh"
  shows "puts_at (at_data L) DATA_SIZE 0x2 sh =
    (if 0 \<in> set (data_at L sh) then Some (Inr (shown (c_string (data_at L sh)) sh)) else Some (Inl OutOfBounds))"
proof (cases "0 \<in> set (data_at L sh)")
  case False
  then show ?thesis by (simp add: puts_at_def strLength_eq data_at_def)
next
  case True
  let ?bs = "c_string (data_at L sh)" and ?c = "(tty (sys sh))\<lparr>video := memory (files (sys sh))\<rparr>"
  have n: "length ?bs \<le> DATA_SIZE"
    using length_takeWhile_le [of "\<lambda>b. b \<noteq> 0" "data_at L sh"] by (simp add: c_string_def)
  have c: "cursor_ok ?c" using sh by (simp add: shell_ok_def kernel_inv_def cursor_ok_def)
  have "user_area (at_data L) DATA_SIZE" using L by (simp add: layout_ok_def)
  then have off: "\<forall>i < length ?bs. off_screen (at_data L + of_nat i)"
    using n by (auto intro: user_off_screen)
  have "mem_read (video ?c) (at_data L) (length ?bs) = take (length ?bs) (data_at L sh)"
    using n by (simp add: data_at_def user_memory_def take_mem_read)
  then have r: "takeWhile (\<lambda>b. b \<noteq> 0) (mem_read (video ?c) (at_data L) (length ?bs)) = ?bs"
    by (simp add: c_string_prefix)
  have "unat (of_nat (length ?bs) :: u32) = length ?bs" using n by simp
  moreover have "ucast ((0x2 :: u32) AND 0x0F) = (2 :: u8)" "ucast (drop_bit 4 (0x2 :: u32) AND 0x0F) = (0 :: u8)"
    by code_simp+
  ultimately have "puts (at_data L) (of_nat (length ?bs)) 0x2 ?c = update_cursor_position (print 2 0 ?bs ?c)"
    using puts_loop_print [OF c off, of 2 0] by (simp only: puts_def r)
  then have "with_console (puts (at_data L) (of_nat (length ?bs)) 0x2) (sys sh)
      = with_console (\<lambda>c. update_cursor_position (print 2 0 ?bs c)) (sys sh)"
    by (simp add: with_console_def)
  with True show ?thesis
    by (simp add: puts_at_def strLength_eq data_at_def [symmetric] puts_call shown_def)
qed

lemma cat_eq:
  assumes L: "layout_ok L" and sh: "shell_ok sh" and nm: "length nm \<le> 8"
    and plain: "plain_request (disk sh) (dirs (disk sh)) (data_request L (padded nm) (currentDirCluster sh))"
    and f: "lookup (disk sh) (currentDirCluster sh) (padded nm, replicate 3 0) = Some (File bs)"
    and n: "length bs \<le> DATA_SIZE"
  obtains s1 where "same_view sh s1" "take (length bs) (data_at L s1) = bs"
    "cat L (line nm) sh = (if 0 \<in> set (data_at L s1)
       then user_puts L (c_literal [CHR 0x0A]) 0x7 (shown (c_string (data_at L s1)) s1) else Some (Inl OutOfBounds))"
proof -
  obtain s1 where s1: "\<forall>rest. file_call L 0 (data_request L (padded nm) (currentDirCluster sh)) rest sh = rest 0 s1"
      "same_view sh s1" "take (length bs) (data_at L s1) = bs"
    by (rule read_file_call [OF L sh refl plain f n])
  have ok: "shell_ok s1" by (rule view.same_ok [OF s1(2) sh])
  show thesis
  proof (rule that [OF s1(2,3)])
    have last: "bind_run x (block []) = x" for x :: "shell run"
      by (simp add: bind_run_def split: option.split sum.split)
    show "cat L (line nm) sh = (if 0 \<in> set (data_at L s1)
       then user_puts L (c_literal [CHR 0x0A]) 0x7 (shown (c_string (data_at L s1)) s1) else Some (Inl OutOfBounds))"
      using nm by (simp add: cat_def request_name_line s1(1) puts_data [OF L ok] last)
  qed
qed

end
