(* ===== verification/Shell_Copy.thy ===== *)
theory Shell_Copy
  imports Shell_Commands
begin

unbundle bit_operations_syntax

text \<open>
  \<open>cp\<close> writes the bytes of the file before its first zero under the fixed name \<open>copy\<close>, and
  makes a folder of that name when the first byte is zero. \<open>cd\<close> enters the first folder entry with
  the name and \<open>cd ..\<close> comes back; the call in between that should load the table does not.
\<close>

section \<open>cp\<close>

lemma request_apart:
  assumes "layout_ok L" and "length nm = 8" and "k \<le> DATA_SIZE"
  shows "mem_read (user_memory (requested L (user_request p nm c n) sh)) (at_data L) k = mem_read (user_memory sh) (at_data L) k"
proof -
  have "length (encode_request (user_request p nm c n)) = 23"
    using assms(2) by (intro requests.len_enc) simp
  then show ?thesis
    using assms(1,3) unfolding requested_def put_object_memory
    by (intro mem_read_apart) (auto simp: layout_ok_def user_area_def apart_def)
qed

lemma data_after_call:
  assumes "layout_ok L" and "length nm = 8" and "memory st = memory (disk (requested L (user_request p nm c n) sh))"
  shows "data_at L (answered L code st (requested L (user_request p nm c n) sh)) = data_at L sh"
proof -
  have "user_memory (answered L code st (requested L (user_request p nm c n) sh))
      = (user_memory (requested L (user_request p nm c n) sh))(at_code L := code)"
    using assms(3) by (simp add: user_memory_def store8_def)
  then show ?thesis
    using mem_read_code [OF assms(1), of DATA_SIZE] request_apart [OF assms(1,2), of DATA_SIZE]
    by (simp add: data_at_def)
qed

lemma cp_result_returns:
  assumes L: "layout_ok L" and a: "shell_ok a" and z: "0 \<in> set (data_at L a)" and nm: "length nm \<le> 256"
  shows "returns (block [if c = 0 then puts_at (at_data L) DATA_SIZE 0x2 else cat_error L (line nm) c,
      user_puts L (c_literal [CHR 0x0A]) 0x7] a) (same_view a)"
proof -
  have e: "view.keeps (cat_error L (line nm) c)"
    using nm by (simp add: cat_error_def view.keeps_block)
  have l: "view.keeps (block [user_puts L (c_literal [CHR 0x0A]) 0x7])" by (simp add: view.keeps_block)
  have p: "returns (puts_at (at_data L) DATA_SIZE 0x2 a) (same_view a)"
    using z by (intro puts_at_keeps a) (simp add: data_at_def)
  then have "returns ((if c = 0 then puts_at (at_data L) DATA_SIZE 0x2 else cat_error L (line nm) c) a) (same_view a)"
    using view.keepsD [OF e a] by simp
  then show ?thesis
  proof (rule returnsE)
    fix t assume t: "(if c = 0 then puts_at (at_data L) DATA_SIZE 0x2 else cat_error L (line nm) c) a = Some (Inr t)"
      "same_view a t"
    from view.keepsD [OF l view.same_ok [OF t(2) a]] show ?thesis
      using view.same_trans [OF t(2)] by (simp only: block.simps t(1) bind_run_simps) (blast intro: returns_mono)
  qed
qed

lemma length_copy_literal [simp]: "length copy_name_literal = 8"
  by (simp add: copy_name_literal_def)

text \<open>Writing the buffer up to its first zero, under any name and into any directory.\<close>

lemma store_data:
  assumes L: "layout_ok L" and ok: "shell_ok s" and len: "length nm = 8" and d: "d \<in> dirs (disk s)"
    and data: "c_string (data_at L s) = bs" "0 \<in> set (data_at L s)"
    and r_def: "r = user_request (at_data L) nm d (of_nat (length bs))"
  obtains c st c' where "data_length L s = Inr (of_nat (length bs))"
    "fat32_write r (disk (requested L r s)) = Inr (c, st)" "memory st = memory (disk (requested L r s))" "consistent st"
    "if name_taken (disk s) r \<or> \<not> has_room (disk s) r then c \<noteq> 0 \<and> same_files (disk s) st
     else c = 0 \<and> node_added (disk s) st d nm (if bs = [] then Folder c' else File bs)"
proof -
  let ?k = "length bs" and ?s = "requested L r s"
  have k: "?k \<le> DATA_SIZE"
    using length_takeWhile_le [of "\<lambda>b. b \<noteq> 0" "data_at L s"] data(1) by (simp add: c_string_def)
  have kn: "unat (of_nat ?k :: u32) = ?k" using k by simp
  have "DATA_SIZE \<le> MAX_FILE" by (simp add: MAX_FILE_def)
  then have fit: "unat (of_nat ?k :: u32) \<le> MAX_FILE" using k unfolding kn by linarith
  have dl: "data_length L s = Inr (of_nat ?k)" using data by (simp add: data_length_def strLength_eq data_at_def)
  have wf: "wf_request r" by (simp add: r_def len)
  note same = same_files_view [OF requested_disk [of s L r]] and con = requested_consistent [OF ok, of L r]
  have d': "d \<in> dirs (disk ?s)" using d same by simp
  have m: "memory st = memory (disk ?s)" if "fat32_write r (disk ?s) = Inr (c, st)" for c st
    by (rule write_memory [OF con [unfolded consistent_def] _ wf _ that]) (use d' fit in \<open>simp_all add: r_def\<close>)
  have bytes: "mem_read (memory (disk ?s)) (at_data L) ?k = bs"
  proof -
    have "mem_read (memory (disk ?s)) (at_data L) ?k = mem_read (user_memory s) (at_data L) ?k"
      unfolding r_def user_memory_def [symmetric] by (rule request_apart [OF L len k])
    also have "\<dots> = take ?k (data_at L s)" using k by (simp add: data_at_def take_mem_read)
    finally show ?thesis using c_string_prefix(1) [of "data_at L s"] data(1) by simp
  qed
  have zero: "(of_nat ?k :: u32) = 0 \<longleftrightarrow> bs = []"
    unfolding unat_eq_zero [symmetric] kn by simp
  note out = write_outcome [OF con d' len fit r_def] and b = before_same [OF requested_disk [of s L r]]
  show thesis
  proof (cases "name_taken (disk s) r \<or> \<not> has_room (disk s) r")
    case True
    with out b obtain c where w: "fat32_write r (disk ?s) = Inr (c, disk ?s)" "c \<noteq> 0" by (auto split: if_splits)
    from that [OF dl w(1) refl con] True w(2) requested_disk show thesis by simp
  next
    case False
    with out b obtain st c' where w: "fat32_write r (disk ?s) = Inr (0, st)"
      "node_added (disk s) st d nm (if bs = [] then Folder c' else File bs)"
      unfolding kn bytes zero by auto
    then have "consistent st" by (simp add: node_added_def)
    from that [OF dl w(1) m [OF w(1)] this] False w(2) show thesis by auto
  qed
qed

lemma cp_returns:
  assumes L: "layout_ok L" and sh: "shell_ok sh" and nm: "length nm \<le> 8"
    and d: "currentDirCluster sh \<in> dirs (disk sh)"
    and plain: "plain_request (disk sh) (dirs (disk sh)) (data_request L (padded nm) (currentDirCluster sh))"
    and f: "lookup (disk sh) (currentDirCluster sh) (padded nm, replicate 3 0) = Some (File bs)"
    and n: "length bs \<le> DATA_SIZE" and z: "0 \<in> set bs"
    and r_def: "r = user_request (at_data L) copy_name_literal (currentDirCluster sh) (of_nat (length (c_string bs)))"
  shows "returns (cp L (line nm) sh) (\<lambda>t. shell_ok t \<and> same_vars sh t
    \<and> (if name_taken (disk sh) r \<or> \<not> has_room (disk sh) r then same_files (disk sh) (disk t)
       else \<exists>c. node_added (disk sh) (disk t) (currentDirCluster sh) copy_name_literal
         (if c_string bs = [] then Folder c else File (c_string bs))))"
proof -
  obtain s1 where s1: "\<forall>rest. file_call L 0 (data_request L (padded nm) (currentDirCluster sh)) rest sh = rest 0 s1"
      "same_view sh s1" "take (length bs) (data_at L s1) = bs"
    by (rule read_file_call [OF L sh refl plain f n])
  have ok1: "shell_ok s1" by (rule view.same_ok [OF s1(2) sh])
  have vars: "same_vars sh s1" by (rule place_vars [OF view_place [OF s1(2)]])
  then have c1: "currentDirCluster s1 = currentDirCluster sh" by (simp add: same_vars_def)
  have d1: "same_files (disk sh) (disk s1)" using place_disk [OF view_place [OF s1(2)]] .
  note same = same_files_view [OF d1] before_same [OF d1]
  have data: "c_string (data_at L s1) = c_string bs" "0 \<in> set (data_at L s1)"
    using c_string_take [OF s1(3) z] by simp_all
  obtain c st c' where w: "data_length L s1 = Inr (of_nat (length (c_string bs)))"
    "fat32_write r (disk (requested L r s1)) = Inr (c, st)" "memory st = memory (disk (requested L r s1))" "consistent st"
    "if name_taken (disk sh) r \<or> \<not> has_room (disk sh) r then c \<noteq> 0 \<and> same_files (disk sh) st
     else c = 0 \<and> node_added (disk sh) st (currentDirCluster sh) copy_name_literal
       (if c_string bs = [] then Folder c' else File (c_string bs))"
    by (rule store_data [OF L ok1 length_copy_literal _ data r_def])
      (use d d1 same in \<open>auto simp: same_files_def split: if_splits\<close>)
  define rest where "rest = (\<lambda>retcode. block [if retcode = 0 then puts_at (at_data L) DATA_SIZE 0x2
        else cat_error L (line nm) retcode, user_puts L (c_literal [CHR 0x0A]) 0x7])"
  let ?a = "answered L c st (requested L r s1)"
  have eq: "cp L (line nm) sh = file_call L 2 r rest s1"
    using nm unfolding cp_def request_name_line [OF nm] with_value_simps s1(1) [rule_format] w(1)
    by (simp add: r_def c1 rest_def)
  have wf: "wf_request r" by (simp add: r_def)
  have rest_ok: "returns (rest c ?a) (same_place ?a)" if ok: "shell_ok ?a"
  proof -
    have "data_at L ?a = data_at L s1"
      using w(3) unfolding r_def by (intro data_after_call [OF L length_copy_literal])
    then have "returns (rest c ?a) (same_view ?a)"
      unfolding rest_def using ok data(2) nm by (intro cp_result_returns [OF L]) simp_all
    then show ?thesis by (rule returns_mono) (rule view_place)
  qed
  have call: "file_call L 2 r rest s1 = rest c ?a"
    using w(2) by (intro file_call_return_code [OF wf]) auto
  have "returns (file_call L 2 r rest s1) (\<lambda>t. shell_ok t \<and> same_vars s1 t \<and> same_files st (disk t))"
    by (rule call_then [where rest = rest, OF call ok1 w(4) rest_ok])
  then show ?thesis unfolding eq
  proof (rule returns_mono)
    fix t assume t: "shell_ok t \<and> same_vars s1 t \<and> same_files st (disk t)"
    then have "same_vars sh t" "same_files st (disk t)" "shell_ok t" using same_vars_trans [OF vars] by auto
    with w(5) show "shell_ok t \<and> same_vars sh t
        \<and> (if name_taken (disk sh) r \<or> \<not> has_room (disk sh) r then same_files (disk sh) (disk t)
           else \<exists>c. node_added (disk sh) (disk t) (currentDirCluster sh) copy_name_literal
             (if c_string bs = [] then Folder c else File (c_string bs)))"
      using same_files_trans node_added_same by (auto split: if_splits)
  qed
qed

section \<open>cd\<close>

text \<open>
  System call 1 with a cluster number for a pointer reads whatever lies there as a request; its
  code goes to the first byte of \<open>currentDir\<close>. It returns and leaves the place.
\<close>

lemma stray_call:
  assumes "shell_ok sh"
  shows "returns (currentDir_call L 1 (f sh) sh) (same_place sh)"
proof -
  let ?s = "put_object (at_dir L) (encode_table (currentDir sh)) sh" and ?r = "\<lambda>k. request_at k (f sh)"
  obtain c st where r: "fat32_read_directory (?r (sys ?s)) (files (sys ?s)) = (c, st)" by fastforce
  have v: "same_view sh ?s" by (rule put_object_view)
  have ok: "shell_ok ?s" by (rule view.same_ok [OF v assms])
  let ?t = "?s\<lparr>sys := (sys ?s)\<lparr>files := store8 (at_dir L) c st\<rparr>\<rparr>"
  have "user_syscall 1 (f sh) (at_dir L) 1 ?s = Some (Inr ?t)"
    using r by (simp add: user_syscall_def syscall_def Let_def return_code_def)
  then have eq: "currentDir_call L 1 (f sh) sh
      = Some (Inr (?t\<lparr>currentDir := decode_table (mem_read (user_memory ?t) (at_dir L) CLUSTER_SIZE)\<rparr>))"
    by (simp add: currentDir_call_def)
  have d: "same_files (disk ?s) st" by (rule read_directory_same [OF r])
  then have st: "consistent st" using same_files_view(1) [OF d] shell_consistent [OF ok] by simp
  have "shell_ok ?t" using ok st by (simp add: shell_ok_def kernel_inv_def store8_def consistent_memory)
  moreover have "same_files (disk sh) (disk ?t)"
    using same_files_trans [OF place_disk [OF view_place [OF v]] d] by simp
  ultimately have "same_place sh ?t" using v by (simp add: same_place_def same_view_def)
  then show ?thesis unfolding eq by (simp only: returns_Inr) (intro place_update_dir, simp_all)
qed

lemma cd_child_returns:
  assumes sh: "shell_ok sh" and b: "unat (buffer_index sh) < 254"
  shows "returns (cd_child L e sh) (\<lambda>t. shell_ok t \<and> same_files (disk sh) (disk t) \<and> currentDirCluster t = entry_cluster e
    \<and> buffer_index t = buffer_index sh + 1
    \<and> parent_clusters t = (parent_clusters sh)[unat (buffer_index sh) := currentDirCluster sh])"
proof -
  let ?s = "sh\<lparr>parent_clusters := (parent_clusters sh)[unat (buffer_index sh) := currentDirCluster sh],
               buffer_index := buffer_index sh + 1, currentDirCluster := entry_cluster e\<rparr>"
  have "unat (buffer_index sh + 1) = Suc (unat (buffer_index sh))"
    using b by (simp add: unat_word_ariths)
  then have ok: "shell_ok ?s" using sh b by (simp add: shell_ok_def)
  have "length (parent_clusters sh) = 256" using sh by (simp add: shell_ok_def)
  then have "cd_child L e sh = block [\<lambda>sh. currentDir_call L 1 (currentDirCluster sh) sh] ?s"
    using b by (simp add: cd_child_def)
  moreover have "returns (block [\<lambda>sh. currentDir_call L 1 (currentDirCluster sh) sh] ?s) (same_place ?s)"
    using stray_call [OF ok] by (intro returns_intros) simp
  ultimately show ?thesis
    by (auto simp: same_place_def elim!: returns_mono intro: ok)
qed

lemma cd_parent_returns:
  assumes sh: "shell_ok sh" and c: "currentDirCluster sh \<noteq> ROOT_CLUSTER_NUMBER" and b: "buffer_index sh \<noteq> 0"
    and say: "\<And>bs color. length bs < 100 \<Longrightarrow> view.keeps (say (c_literal bs) color)"
  shows "returns (cd_parent L say sh) (\<lambda>t. shell_ok t \<and> same_files (disk sh) (disk t)
    \<and> currentDirCluster t = parent_clusters sh ! unat (buffer_index sh - 1)
    \<and> buffer_index t = buffer_index sh - 1 \<and> parent_clusters t = parent_clusters sh)"
proof -
  let ?s = "sh\<lparr>currentDirCluster := parent_clusters sh ! unat (buffer_index sh - 1), buffer_index := buffer_index sh - 1\<rparr>"
  let ?say = "say (c_literal (''Changed directory to parent directory'' @ [CHR 0x0A])) 0x2"
  have i: "unat (buffer_index sh - 1) = unat (buffer_index sh) - 1"
    using b by (simp add: unat_minus_one)
  have n: "length (parent_clusters sh) = 256" "unat (buffer_index sh) < 255" using sh by (simp_all add: shell_ok_def)
  have "unat (buffer_index sh - 1) < 255" using i n(2) by linarith
  then have ok: "shell_ok ?s" using sh by (simp add: shell_ok_def)
  have eq: "cd_parent L say sh = block [\<lambda>sh. currentDir_call L 1 (currentDirCluster sh) sh, ?say] ?s"
    using c n \<open>unat (buffer_index sh - 1) < 255\<close> by (simp add: cd_parent_def)
  obtain t where t: "currentDir_call L 1 (currentDirCluster ?s) ?s = Some (Inr t)" "same_place ?s t"
    using stray_call [OF ok, of L currentDirCluster] by (rule returnsE)
  have "place.keeps ?say" by (intro keeps_view_place say) simp
  from place.keepsD [OF this place.same_ok [OF t(2) ok]] obtain u where
    u: "?say t = Some (Inr u)" "same_place t u" by (rule returnsE)
  have "same_place ?s u" by (rule place.same_trans [OF t(2) u(2)])
  moreover have "cd_parent L say sh = Some (Inr u)" unfolding eq using t(1) u(1) by simp
  ultimately show ?thesis using ok by (simp add: same_place_def)
qed

text \<open>The loops skip entries without a name and stop at the first folder entry with the name, and at the first entry for \<open>..\<close>.\<close>

definition named :: "byte list \<Rightarrow> dirent \<Rightarrow> bool" where
  "named nm e \<longleftrightarrow> name e ! 0 \<noteq> 0 \<and> c_string (fullname e) = nm"

definition folder_named :: "byte list \<Rightarrow> dirent \<Rightarrow> bool" where
  "folder_named nm e \<longleftrightarrow> name e ! 0 \<noteq> 0 \<and> c_string (fullname e) = nm \<and> attribute e AND 0x10 \<noteq> 0"

definition dots :: "byte list" where
  "dots = str ''..''"

lemma fullname_object: "wf_dirent e \<Longrightarrow> 0 \<in> set (fullname e) \<and> length (fullname e) < 2 ^ 32"
  by (simp add: fullname_def wf_dirent_def)

lemma compare_up:
  assumes "length nm \<le> 8" and "0 \<notin> set nm"
  shows "strCompare (buff_object (line nm)) (c_literal ''..'') = Inr (nm = dots)"
proof -
  have "c_string (c_literal ''..'') = dots" by code_simp
  moreover have "0 \<in> set (c_literal ''..'')" "length (c_literal ''..'') < 2 ^ 32" by (simp_all add: c_literal_def)
  ultimately show ?thesis
    using assms line_object [of nm] length_object [of nm] by (simp add: strCompare_eq)
qed

lemma compare_name:
  assumes "length nm \<le> 256" and "0 \<notin> set nm" and "wf_dirent e"
  shows "strCompare (fullname e) (buff_object (line nm)) = Inr (c_string (fullname e) = nm)"
  using assms line_object [of nm] length_object [of nm] fullname_object [OF assms(3)] by (simp add: strCompare_eq)

lemma cd_loop_child:
  assumes nm: "length nm \<le> 8" "0 \<notin> set nm" "nm \<noteq> dots" and es: "list_all wf_dirent es"
    and f: "List.find (folder_named nm) es = Some e"
  shows "cd_loop L say (line nm) es sh = cd_child L e sh"
proof -
  have le256: "length nm \<le> 256" using nm(1) by simp
  show ?thesis using es f
    by (induction es) (auto simp: folder_named_def compare_up [OF nm(1,2)] compare_name [OF le256 nm(2)] nm(3) split: if_splits)
qed

lemma dots_name: "length dots \<le> 8" "0 \<notin> set dots" "dots = str ''..''"
proof -
  show "0 \<notin> set dots" by code_simp
qed (simp_all add: dots_def)

lemma cd_loop_parent:
  assumes "\<exists>e \<in> set es. name e ! 0 \<noteq> 0"
  shows "cd_loop L say (line dots) es sh = cd_parent L say sh"
  using assms by (induction es) (auto simp: compare_up [OF dots_name(1,2)])

lemma cd_enters:
  assumes sh: "shell_ok sh" and b: "unat (buffer_index sh) < 254" and nm: "length nm \<le> 8" "0 \<notin> set nm" "nm \<noteq> dots"
    and f: "List.find (folder_named nm) (currentDir sh) = Some e"
  shows "returns (cd L (line nm) sh) (\<lambda>t. shell_ok t \<and> same_files (disk sh) (disk t) \<and> currentDirCluster t = entry_cluster e
    \<and> buffer_index t = buffer_index sh + 1
    \<and> parent_clusters t = (parent_clusters sh)[unat (buffer_index sh) := currentDirCluster sh])"
proof -
  have es: "list_all wf_dirent (currentDir sh)" using sh by (simp add: shell_ok_def wf_table_def)
  have "cd L (line nm) sh = cd_child L e sh"
    using slen_line_le [of nm] nm(1) cd_loop_child [OF nm es f] by (simp add: cd_def)
  with cd_child_returns [OF sh b] show ?thesis by simp
qed

lemma cd_leaves:
  assumes sh: "shell_ok sh" and c: "currentDirCluster sh \<noteq> ROOT_CLUSTER_NUMBER" and b: "buffer_index sh \<noteq> 0"
    and es: "\<exists>e \<in> set (currentDir sh). name e ! 0 \<noteq> 0"
  shows "returns (cd L (line dots) sh) (\<lambda>t. shell_ok t \<and> same_files (disk sh) (disk t)
    \<and> currentDirCluster t = parent_clusters sh ! unat (buffer_index sh - 1)
    \<and> buffer_index t = buffer_index sh - 1 \<and> parent_clusters t = parent_clusters sh)"
proof -
  have "cd L (line dots) sh = cd_parent L (user_puts L) sh"
    using slen_line_le [of dots] dots_name cd_loop_parent [OF es] by (simp add: cd_def)
  with cd_parent_returns [OF sh c b] show ?thesis by simp
qed

end
