(* ===== verification/Shell_Demo.thy ===== *)
theory Shell_Demo
  imports Shell_Copy Machine_Properties Fat32_Limits
begin

unbundle bit_operations_syntax

text \<open>
  A concrete layout and concrete devices on which the theorems about the shell are instantiated: the
  formatted device of \<open>Fat32_Demo\<close>, one with a file, one with a folder, and one with both.
\<close>

section \<open>A shell on a formatted device\<close>

definition demo_layout :: shell_layout where
  "demo_layout = \<lparr>at_dir = 0x10000, at_request = 0x20000, at_code = 0x20100, at_data = 0x30000,
     at_char = 0x20200, at_args = 0x20300, at_text = 0x21000\<rparr>"

definition shell_on :: "fs \<Rightarrow> shell" where
  "shell_on st = \<lparr>currentDirCluster = ROOT_CLUSTER_NUMBER, currentDir = dir_at (storage st) ROOT_CLUSTER_NUMBER,
     parent_clusters = replicate 256 0, buffer_index = 0, dir_buff = replicate 2048 0,
     sys = \<lparr>files = st, tty = demo_console\<rparr>\<rparr>"

lemma demo_layout_ok: "layout_ok demo_layout"
  by (simp add: layout_ok_def demo_layout_def user_area_def apart_def)

lemma shell_on_simps [simp]:
  "currentDirCluster (shell_on st) = ROOT_CLUSTER_NUMBER" "disk (shell_on st) = st" "buffer_index (shell_on st) = 0"
  "currentDir (shell_on st) = dir_at (storage st) ROOT_CLUSTER_NUMBER" "tty (sys (shell_on st)) = demo_console"
  by (simp_all add: shell_on_def)

lemma shell_on_ok: "consistent st \<Longrightarrow> shell_ok (shell_on st)"
  by (simp add: shell_ok_def kernel_inv_def) (simp add: shell_on_def)

definition demo_note :: request where
  "demo_note = user_request 0x10001 (padded (str ''notes'')) ROOT_CLUSTER_NUMBER 300"

definition demo_docs :: request where
  "demo_docs = user_request 0 (padded (str ''docs'')) ROOT_CLUSTER_NUMBER 0"

lemma padded_names:
  "padded (str ''notes'') \<noteq> root_name" "padded (str ''notes'') \<noteq> replicate 8 0"
  "padded (str ''docs'') \<noteq> root_name" "padded (str ''docs'') \<noteq> replicate 8 0"
  by code_simp+

lemma demo_shell_root: "root_request demo_note" "root_request demo_docs"
  using padded_names by (simp_all add: root_request_def demo_note_def demo_docs_def)

definition note_bytes :: "byte list" where
  "note_bytes = mem_read (memory blank_fs) 0x10001 300"

lemma demo_memory: "memory demo_fs = memory blank_fs"
  by (simp add: demo_fs_def create_fat32_memory)

lemma length_note [simp]: "length note_bytes = 300"
  by (simp add: note_bytes_def)

text \<open>The memory of \<open>blank_fs\<close> counts upwards: the first zero is the 256th byte.\<close>

lemma note_string: "length (c_string note_bytes) = 255"
proof -
  have "length (c_string (map (\<lambda>i. ucast (0x10001 + of_nat i :: u32)) [0..<300])) = 255" by code_simp
  then show ?thesis by (simp add: note_bytes_def blank_fs_def mem_read_def)
qed

lemma note_zero: "0 \<in> set note_bytes"
proof -
  have "note_bytes ! 255 = 0" by (simp add: note_bytes_def blank_fs_def)
  then show ?thesis using nth_mem [of 255 note_bytes] by simp
qed

lemma fresh_room: "root_request r \<Longrightarrow> r = user_request p nm ROOT_CLUSTER_NUMBER n \<Longrightarrow> unat n \<le> MAX_FILE \<Longrightarrow>
   \<not> name_taken demo_fs r \<and> has_room demo_fs r"
proof -
  assume r: "root_request r" and eq: "r = user_request p nm ROOT_CLUSTER_NUMBER n" and n: "unat n \<le> MAX_FILE"
  have len: "length nm = 8" using r eq by (simp add: root_request_def)
  have "fits r" using n eq by simp
  then obtain st' slot slots where w: "fat32_write r demo_fs = Inr (0, st')" by (rule demo_write [OF r])
  have "ROOT_CLUSTER_NUMBER \<in> dirs demo_fs" by simp
  from write_outcome [OF demo_consistent(1) this len n eq] w show ?thesis by (auto split: if_splits)
qed

text \<open>The device with \<open>notes\<close> still has a free slot and a free cluster.\<close>

lemma fresh_table: "dir_at (storage demo_fs) ROOT_CLUSTER_NUMBER = root_table"
  by (simp add: demo_fs_def create_fat32_root)

lemma count_if_pos: "x \<in> set xs \<Longrightarrow> P x \<Longrightarrow> 1 \<le> count_if P xs"
  by (auto simp: count_if_def filter_empty_conv Suc_le_eq)

text \<open>Room in a directory for a file of one cluster.\<close>

lemma room_for:
  assumes "fs_inv st (dirs st)" and "j < DIR_ENTRIES" and "0 < j"
    and "user_attribute (dir_at (storage st) (parent_cluster_number r) ! j) \<noteq> UATTR_NOT_EMPTY"
    and "unat x < CLUSTER_MAP_SIZE" and "fat_table st ! unat (x :: u32) = 0" and "unat (buffer_size r) \<le> CLUSTER_SIZE"
  shows "has_room st r"
proof -
  have "1 \<le> count_if (\<lambda>v. v = FAT32_FAT_EMPTY_ENTRY) (fat_table st)"
    using nth_mem [of "unat x" "fat_table st"] fs_inv_fat(1) [OF assms(1)] assms(5,6)
    by (intro count_if_pos [of "fat_table st ! unat x"]) simp_all
  moreover have "cluster_count (unat (buffer_size r)) \<le> (CLUSTER_SIZE + 2047) div CLUSTER_SIZE"
    unfolding cluster_count_def using assms(7) by (intro div_le_mono) simp
  ultimately show ?thesis using assms(2-4) unfolding has_room_def by (intro conjI exI [of _ j]) simp_all
qed

lemma fresh_cluster: "fat_table demo_fs ! unat x = 0" if "x \<in> {3, 4, 5 :: u32}"
  using that by (auto simp: demo_fs_def create_fat32_fat format_fat_def)

lemma entry_key_new: "entry_key (new_entry r b c) = request_key r"
  by (simp add: entry_key_def request_key_def new_entry_def)

lemma second_write:
  assumes ws: "write_step demo_fs st (dirs demo_fs) q slot slots"
    and q: "root_request q" "unat (clusters_required (buffer_size q)) = 1"
    and r: "root_request r" "request_key r \<noteq> request_key q" and n: "unat (buffer_size r) \<le> CLUSTER_SIZE"
  shows "\<not> name_taken st r \<and> has_room st r"
proof -
  have p: "parent_cluster_number q = ROOT_CLUSTER_NUMBER" "parent_cluster_number r = ROOT_CLUSTER_NUMBER"
    and wf: "wf_request r" using q(1) r(1) by (simp_all add: root_request_def)
  have inv: "fs_inv st (dirs st)" using fs_inv_consistent [OF ws_preserved [OF ws]] by (simp add: consistent_def)
  have t: "dir_at (storage st) ROOT_CLUSTER_NUMBER = root_table[slot := new_entry q (buffer_size q = 0) (hd slots)]"
    using ws_old_dir [OF ws, of ROOT_CLUSTER_NUMBER] p by (simp add: fresh_table)
  have len: "length root_table = DIR_ENTRIES" by (simp add: root_table_def)
  have "\<not> name_taken st r"
  proof
    assume "name_taken st r"
    then obtain i where i: "i < DIR_ENTRIES" "entry_key (dir_at (storage st) ROOT_CLUSTER_NUMBER ! i) = request_key r"
      using matches_key [OF wf] unfolding name_taken_def p by (auto simp: in_set_conv_nth)
    with r root_table_nth [OF i(1)] show False
      by (cases "i = slot"; cases "i < 2") (simp_all add: t len root_request_def entry_key_new)
  qed
  moreover have "has_room st r"
  proof -
    obtain j :: nat where j: "j \<in> {2, 3}" "j \<noteq> slot" by (metis insertI1 insertI2 numeral_eq_iff num.distinct(5))
    then have slot: "user_attribute (dir_at (storage st) ROOT_CLUSTER_NUMBER ! j) \<noteq> UATTR_NOT_EMPTY"
      by (auto simp: t nth_list_update root_table_def)
    obtain c where c: "slots = [c]" using ws_len [OF ws] q(2) by (auto simp: length_Suc_conv)
    obtain x :: u32 where x: "x \<in> {3, 4, 5}" "x \<notin> set slots" using c that [of 3] that [of 4] by (cases "c = 3") auto
    then have "fat_table st ! unat x = 0" using ws_fat_other [OF ws x(2)] fresh_cluster by simp
    then show ?thesis using slot j x(1) n by (intro room_for [OF inv, of j r x]) (auto simp: p)
  qed
  ultimately show ?thesis ..
qed

lemma one_cluster: "unat (clusters_required (buffer_size demo_note)) = 1" "unat (clusters_required (buffer_size demo_docs)) = 1"
  using clusters_required_fits [of demo_note] clusters_required_fits [of demo_docs]
  by (simp_all add: demo_note_def demo_docs_def MAX_FILE_def)

text \<open>The device with the file \<open>notes\<close>.\<close>

lemma note_written:
  obtains st where "consistent st" "dirs st = {ROOT_CLUSTER_NUMBER}"
    "lookup st ROOT_CLUSTER_NUMBER = [(padded (str ''notes''), replicate 3 0) \<mapsto> File note_bytes]"
    "\<And>r. request_key r = request_key demo_note \<Longrightarrow> wf_request r \<Longrightarrow> parent_cluster_number r = ROOT_CLUSTER_NUMBER \<Longrightarrow>
      plain_request st (dirs st) r"
    "\<And>r. root_request r \<Longrightarrow> request_key r \<noteq> request_key demo_note \<Longrightarrow> unat (buffer_size r) \<le> CLUSTER_SIZE \<Longrightarrow>
      \<not> name_taken st r \<and> has_room st r"
proof -
  have fit: "fits demo_note" by (simp add: demo_note_def MAX_FILE_def)
  obtain st slot slots where ws: "write_step demo_fs st (dirs demo_fs) demo_note slot slots"
    by (rule demo_write [OF demo_shell_root(1) fit])
  show thesis
  proof (rule that)
    show "consistent st" by (rule fs_inv_consistent [OF ws_preserved [OF ws]])
    show "dirs st = {ROOT_CLUSTER_NUMBER}" using ws_dirs_eq [OF ws] by (simp add: dirs_after_def demo_note_def)
    show "lookup st ROOT_CLUSTER_NUMBER = [(padded (str ''notes''), replicate 3 0) \<mapsto> File note_bytes]"
      using written_lookup [OF ws] by (simp add: demo_note_def note_bytes_def demo_memory)
    fix r assume k: "request_key r = request_key demo_note" "wf_request r" "parent_cluster_number r = ROOT_CLUSTER_NUMBER"
    then have "root_request r" using demo_shell_root(1) by (simp add: root_request_def)
    then show "plain_request st (dirs st) r" by (intro ws_plain [OF ws] demo_plain)
  qed (use second_write [OF ws demo_shell_root(1) one_cluster(1)] in blast)
qed

text \<open>The device with the folder \<open>docs\<close>.\<close>

lemma docs_not_root: "\<not> folder_named (str ''docs'') (root_table ! 0)" "\<not> folder_named (str ''docs'') (root_table ! 1)"
  by code_simp+

lemma docs_entry: "folder_named (str ''docs'') (new_entry demo_docs True c)"
proof -
  have "attribute (new_entry demo_docs True c) = 0x10" "name (new_entry demo_docs True c) = padded (str ''docs'')"
    by (simp_all add: new_entry_def demo_docs_def user_request_def)
  moreover have "padded (str ''docs'') ! 0 \<noteq> 0" "c_string (padded (str ''docs'') @ [0]) = str ''docs''"
    "(0x10 :: byte) AND 0x10 \<noteq> 0" by code_simp+
  ultimately show ?thesis by (simp only: folder_named_def fullname_def) simp
qed

lemma docs_step:
  obtains st c slot slots where "fat32_write demo_docs demo_fs = Inr (0, st)"
    "write_step demo_fs st (dirs demo_fs) demo_docs slot slots" "consistent st" "dirs st = {ROOT_CLUSTER_NUMBER, c}"
    "dir_at (storage st) ROOT_CLUSTER_NUMBER = root_table[slot := new_entry demo_docs True c]"
    "dir_at (storage st) c = child_table demo_fs demo_docs c"
    "lookup st ROOT_CLUSTER_NUMBER = [(padded (str ''docs''), replicate 3 0) \<mapsto> Folder c]" "lookup st c = Map.empty"
    "c \<noteq> ROOT_CLUSTER_NUMBER" "c \<in> set slots" "2 \<le> slot" "slot < DIR_ENTRIES" "rd (storage st) 0 = rd (storage demo_fs) 0"
proof -
  have fit: "fits demo_docs" by (simp add: demo_docs_def)
  obtain st slot slots where w: "fat32_write demo_docs demo_fs = Inr (0, st)"
    and ws: "write_step demo_fs st (dirs demo_fs) demo_docs slot slots"
    by (rule demo_write [OF demo_shell_root(2) fit])
  have b: "buffer_size demo_docs = 0" "parent_cluster_number demo_docs = ROOT_CLUSTER_NUMBER" by (simp_all add: demo_docs_def)
  have k: "request_key demo_docs = (padded (str ''docs''), replicate 3 0)"
    by (simp add: demo_docs_def user_request_def request_key_def)
  have "(0 :: u32) \<notin> set slots" using ws_slots_free(4) [OF ws, of 0] by auto
  then have r0: "rd (storage st) 0 = rd (storage demo_fs) 0" using ws_rd_other [OF ws, of 0] b by (simp add: cluster_valid_def)
  show thesis
  proof (rule that [OF w ws])
    show "consistent st" by (rule fs_inv_consistent [OF ws_preserved [OF ws]])
    show "dirs st = {ROOT_CLUSTER_NUMBER, hd slots}" using ws_dirs_eq [OF ws] b by (auto simp: dirs_after_def)
    show "dir_at (storage st) ROOT_CLUSTER_NUMBER = root_table[slot := new_entry demo_docs True (hd slots)]"
      using ws_old_dir [OF ws, of ROOT_CLUSTER_NUMBER] b by (simp add: fresh_table)
    show "dir_at (storage st) (hd slots) = child_table demo_fs demo_docs (hd slots)" by (rule ws_child_dir [OF ws b(1)])
    show "lookup st ROOT_CLUSTER_NUMBER = [(padded (str ''docs''), replicate 3 0) \<mapsto> Folder (hd slots)]"
      using ws_lookup [OF ws, of ROOT_CLUSTER_NUMBER] b by (simp add: written_node_def k)
    show "lookup st (hd slots) = Map.empty" by (rule ws_lookup_child [OF ws b(1)])
  qed (use ws_hd_new [OF ws] ws_slot_range [OF ws] r0 in auto)
qed

lemma docs_titled: "fat32_write demo_docs demo_fs = Inr (0, st) \<Longrightarrow> titled st"
proof (rule titled_write [OF demo_consistent(1)])
  show "call_ok demo_fs (Write demo_docs)"
    using demo_shell_root(2) by (simp add: call_ok_def root_request_def) (simp add: demo_docs_def)
  show "titled demo_fs" unfolding demo_fs_def by (rule titled_format)
qed

text \<open>No entry of a fresh root has a name of its own, so a search finds the first one that is added.\<close>

lemma find_update:
  assumes "i < length t" and "P e" and "\<forall>j < length t. \<not> P (t ! j)"
  shows "List.find P (t[i := e]) = Some e"
  unfolding find_Some_iff using assms by (intro exI [of _ i]) (auto simp: nth_list_update)

lemma root_none:
  assumes "\<not> P zero_dirent" and "\<not> P (root_table ! 0)" and "\<not> P (root_table ! 1)"
  shows "\<forall>j < length root_table. \<not> P (root_table ! j)"
proof (intro allI impI)
  fix j assume j: "j < length root_table"
  show "\<not> P (root_table ! j)"
  proof (cases "j < 2")
    case True
    then have "j = 0 \<or> j = 1" by auto
    then show ?thesis using assms(2,3) by (elim disjE) simp_all
  next
    case False
    then have "root_table ! j = zero_dirent" using j by (simp add: root_table_def nth_list_update)
    then show ?thesis using assms(1) by simp
  qed
qed

lemma length_root_table: "length root_table = DIR_ENTRIES"
  by (simp add: root_table_def)

lemma docs_written:
  obtains st e where "consistent st" "List.find (folder_named (str ''docs'')) (dir_at (storage st) ROOT_CLUSTER_NUMBER) = Some e"
    "entry_cluster e \<noteq> ROOT_CLUSTER_NUMBER" "\<exists>e' \<in> set (dir_at (storage st) (entry_cluster e)). name e' ! 0 \<noteq> 0"
    "attribute e = 0x10" "lookup st ROOT_CLUSTER_NUMBER = [(padded (str ''docs''), replicate 3 0) \<mapsto> Folder (entry_cluster e)]"
    "titled st" "\<not> folder_named (str ''docs'') (dir_at (storage st) ROOT_CLUSTER_NUMBER ! 0)"
    "\<not> folder_named (str ''docs'') (dir_at (storage st) ROOT_CLUSTER_NUMBER ! 1)"
proof -
  obtain st c slot slots where w: "fat32_write demo_docs demo_fs = Inr (0, st)" and con: "consistent st"
    and t: "dir_at (storage st) ROOT_CLUSTER_NUMBER = root_table[slot := new_entry demo_docs True c]"
    and child: "dir_at (storage st) c = child_table demo_fs demo_docs c"
    and l: "lookup st ROOT_CLUSTER_NUMBER = [(padded (str ''docs''), replicate 3 0) \<mapsto> Folder c]"
    and c: "c \<noteq> ROOT_CLUSTER_NUMBER" and sl: "2 \<le> slot" "slot < DIR_ENTRIES" by (rule docs_step) blast
  let ?e = "new_entry demo_docs True c"
  have "List.find (folder_named (str ''docs'')) (root_table[slot := ?e]) = Some ?e"
    using sl docs_entry docs_not_root by (intro find_update root_none) (simp_all add: length_root_table folder_named_def)
  moreover have "\<exists>e' \<in> set (dir_at (storage st) c). name e' ! 0 \<noteq> 0"
  proof
    have "name (child_table demo_fs demo_docs c ! 0) = copy_name (replicate 8 0) 0 (rname demo_docs)"
      by (simp add: child_table_def init_directory_table_def Let_def nth_list_update)
    moreover have "copy_name (replicate 8 0) 0 (rname demo_docs) ! 0 \<noteq> 0" by code_simp
    ultimately show "name (dir_at (storage st) c ! 0) ! 0 \<noteq> 0" by (simp add: child)
    show "dir_at (storage st) c ! 0 \<in> set (dir_at (storage st) c)" by (intro nth_mem) simp
  qed
  moreover have "attribute ?e = 0x10" by (simp add: new_entry_def)
  ultimately show thesis
    using con c l sl docs_titled [OF w] docs_not_root by (intro that [of st ?e]) (simp_all add: t)
qed

text \<open>The device with both, in one directory: \<open>docs\<close> is empty and has room.\<close>

lemma docs_names:
  "\<not> named (str ''docs'') (root_table ! 0)" "\<not> named (str ''docs'') (root_table ! 1)"
  "padded (str ''notes'') \<noteq> padded (str ''docs'')" "copy_name (replicate 8 0) 0 (padded (str ''docs'')) \<noteq> padded (str ''notes'')"
  by code_simp+


lemma docs_is_docs: "named (str ''docs'') (new_entry demo_docs True c)"
  using docs_entry by (simp add: named_def folder_named_def)

lemma notes_no_docs: "\<not> named (str ''docs'') (new_entry demo_note f c)"
proof -
  have "name (new_entry demo_note f c) = padded (str ''notes'')" by (simp add: new_entry_def demo_note_def user_request_def)
  moreover have "c_string (padded (str ''notes'') @ [0]) \<noteq> str ''docs''" by code_simp
  ultimately show ?thesis by (simp only: named_def fullname_def) simp
qed

text \<open>The folder is found also with the file in another slot.\<close>

lemma find_docs:
  assumes i: "i < DIR_ENTRIES" and j: "j < DIR_ENTRIES" "i \<noteq> j"
  shows "List.find (named (str ''docs'')) (root_table[i := new_entry demo_docs True c, j := new_entry demo_note f d])
    = Some (new_entry demo_docs True c)"
proof -
  have "\<forall>k < length root_table. \<not> named (str ''docs'') (root_table ! k)"
    using docs_names by (intro root_none) (simp_all add: named_def)
  then have "List.find (named (str ''docs'')) (root_table[j := new_entry demo_note f d, i := new_entry demo_docs True c])
      = Some (new_entry demo_docs True c)"
    using i j docs_is_docs notes_no_docs by (intro find_update) (auto simp: length_root_table nth_list_update)
  then show ?thesis using j(2) by (simp add: list_update_swap)
qed

lemma child_names: "e \<in> set (child_table demo_fs demo_docs c) \<Longrightarrow> name e \<noteq> padded (str ''notes'')"
proof -
  have root: "name (root_table ! 0) = root_name" "length root_name = 8" by (simp add: root_table_def, code_simp)
  have names: "root_name \<noteq> padded (str ''notes'')" "replicate 8 0 \<noteq> padded (str ''notes'')"
    using padded_names by simp_all
  assume "e \<in> set (child_table demo_fs demo_docs c)"
  then obtain i where i: "i < DIR_ENTRIES" "e = child_table demo_fs demo_docs c ! i"
    by (metis in_set_conv_nth wf_child_table wf_table_def)
  have "i = 0 \<or> i = 1 \<or> 2 \<le> i" by auto
  then show ?thesis
  proof (elim disjE)
    assume "i = 0"
    then have "name e = copy_name (replicate 8 0) 0 (padded (str ''docs''))"
      by (simp add: i(2) child_table_def init_directory_table_def Let_def demo_docs_def user_request_def)
    then show ?thesis using docs_names(4) by simp
  next
    assume "i = 1"
    then have "name e = root_name"
      by (simp add: i(2) child_table_def init_directory_table_def Let_def demo_docs_def user_request_def fresh_table root)
    then show ?thesis using names by simp
  next
    assume "2 \<le> i"
    then have "e = zero_dirent" using i(1)
      by (simp add: i(2) child_table_def init_directory_table_def Let_def)
    then show ?thesis using names by (simp add: zero_dirent_def)
  qed
qed

text \<open>There is room for the file in the new folder, as long as a cluster is free.\<close>

lemma docs_room:
  assumes inv: "fs_inv st (dirs st)" and child: "dir_at (storage st) c = child_table demo_fs demo_docs c"
    and free: "unat x < CLUSTER_MAP_SIZE" "fat_table st ! unat (x :: u32) = 0"
    and q: "wf_request q" "rname q = padded (str ''notes'')" "parent_cluster_number q = c" "unat (buffer_size q) \<le> CLUSTER_SIZE"
  shows "\<not> name_taken st q \<and> has_room st q"
proof
  show "\<not> name_taken st q"
  proof
    assume "name_taken st q"
    then obtain k where k: "k < DIR_ENTRIES" "entry_key (dir_at (storage st) c ! k) = request_key q"
      using matches_key [OF q(1)] unfolding name_taken_def q(3) by (auto simp: in_set_conv_nth)
    have "child_table demo_fs demo_docs c ! k \<in> set (child_table demo_fs demo_docs c)"
      using k(1) wf_child_table [of demo_fs demo_docs c] by (intro nth_mem) (simp add: wf_table_def)
    from child_names [OF this] k(2) q(2) show False by (simp add: child entry_key_def request_key_def)
  qed
  have "user_attribute (dir_at (storage st) c ! 2) \<noteq> UATTR_NOT_EMPTY"
    by (simp add: child child_table_def init_directory_table_def Let_def)
  then show "has_room st q" using free q(3,4) room_for [OF inv, of 2 q x] by auto
qed

text \<open>Two writes of one cluster each leave a third one free.\<close>

lemma third_cluster:
  assumes "write_step demo_fs st1 D1 q1 i slots1" and "unat (clusters_required (buffer_size q1)) = 1"
    and "write_step st1 st2 D2 q2 j slots2" and "unat (clusters_required (buffer_size q2)) = 1"
  obtains x :: u32 where "unat x < CLUSTER_MAP_SIZE" "fat_table st2 ! unat x = 0"
proof -
  obtain a b where ab: "slots1 = [a]" "slots2 = [b]"
    using ws_len [OF assms(1)] ws_len [OF assms(3)] assms(2,4) by (auto simp: length_Suc_conv)
  have "\<exists>x \<in> {3, 4, 5 :: u32}. x \<noteq> a \<and> x \<noteq> b"
    by (cases "a = 3"; cases "b = 3"; cases "a = 4"; cases "b = 4") auto
  then obtain x :: u32 where x: "x \<in> {3, 4, 5}" "x \<notin> set slots1" "x \<notin> set slots2" by (auto simp: ab)
  then have "fat_table st2 ! unat x = 0" using ws_fat_other [OF assms(1) x(2)] ws_fat_other [OF assms(3) x(3)] fresh_cluster by simp
  with x(1) show thesis by (intro that [of x]) auto
qed

lemma tree_written:
  obtains st e where "consistent st" "dirs st = {ROOT_CLUSTER_NUMBER, entry_cluster e}"
    "List.find (named (str ''docs'')) (dir_at (storage st) ROOT_CLUSTER_NUMBER) = Some e" "attribute e = 0x10"
    "entry_cluster e \<noteq> ROOT_CLUSTER_NUMBER" "unat (entry_cluster e) < CLUSTER_MAP_SIZE"
    "lookup st ROOT_CLUSTER_NUMBER = [(padded (str ''docs''), replicate 3 0) \<mapsto> Folder (entry_cluster e),
       (padded (str ''notes''), replicate 3 0) \<mapsto> File note_bytes]"
    "lookup st (entry_cluster e) = Map.empty"
    "\<And>q. request_key q = request_key demo_note \<Longrightarrow> wf_request q \<Longrightarrow> parent_cluster_number q = ROOT_CLUSTER_NUMBER \<Longrightarrow>
      plain_request st (dirs st) q"
    "\<And>q. wf_request q \<Longrightarrow> rname q = padded (str ''notes'') \<Longrightarrow> parent_cluster_number q = entry_cluster e \<Longrightarrow>
      unat (buffer_size q) \<le> CLUSTER_SIZE \<Longrightarrow> \<not> name_taken st q \<and> has_room st q"
    "rd (storage st) 0 = rd (storage demo_fs) 0"
proof -
  have fit: "fits demo_note" by (simp add: demo_note_def MAX_FILE_def)
  obtain st1 c i slots1 where ws1: "write_step demo_fs st1 (dirs demo_fs) demo_docs i slots1" and con1: "consistent st1"
    and d1: "dirs st1 = {ROOT_CLUSTER_NUMBER, c}"
    and t1: "dir_at (storage st1) ROOT_CLUSTER_NUMBER = root_table[i := new_entry demo_docs True c]"
    and c1: "dir_at (storage st1) c = child_table demo_fs demo_docs c"
    and l1: "lookup st1 ROOT_CLUSTER_NUMBER = [(padded (str ''docs''), replicate 3 0) \<mapsto> Folder c]" "lookup st1 c = Map.empty"
    and c: "c \<noteq> ROOT_CLUSTER_NUMBER" "c \<in> set slots1" and i: "2 \<le> i" "i < DIR_ENTRIES"
    and rd1: "rd (storage st1) 0 = rd (storage demo_fs) 0" by (rule docs_step) blast
  let ?e = "new_entry demo_docs True c"
  have b: "buffer_size demo_note \<noteq> 0" "parent_cluster_number demo_note = ROOT_CLUSTER_NUMBER" by (simp_all add: demo_note_def)
  have inv1: "fs_inv st1 (dirs st1)" using con1 by (simp add: consistent_def)
  have keys: "request_key demo_note \<noteq> request_key demo_docs"
    using docs_names(3) by (simp add: request_key_def demo_note_def demo_docs_def user_request_def)
  have "\<not> name_taken st1 demo_note \<and> has_room st1 demo_note"
    by (rule second_write [OF ws1 demo_shell_root(2) one_cluster(2) demo_shell_root(1) keys]) (simp add: demo_note_def)
  then have "\<exists>st'. fat32_write demo_note st1 = Inr (0, st')"
    using write_outcome [OF con1, of ROOT_CLUSTER_NUMBER "padded (str ''notes'')" 300 demo_note "0x10001"] d1
    by (auto simp: demo_note_def MAX_FILE_def)
  moreover have "parent_cluster_number demo_note \<in> dirs st1" "wf_request demo_note"
    using d1 demo_shell_root(1) by (simp_all add: root_request_def)
  ultimately obtain st j slots2 where ws2: "write_step st1 st (dirs st1) demo_note j slots2"
    by (elim exE fat32_write_cases [OF inv1 _ _ fit]) auto
  have con: "consistent st" and inv: "fs_inv st (dirs st)"
    using fs_inv_consistent [OF ws_preserved [OF ws2]] by (simp_all add: consistent_def)
  have d: "dirs st = {ROOT_CLUSTER_NUMBER, c}" using ws_dirs_eq [OF ws2] b d1 by (simp add: dirs_after_def)
  have "i \<noteq> j"
    using ws_dead [OF ws2] b i(2) by (auto simp: dead_slot_def t1 new_entry_def root_table_def)
  moreover have "dir_at (storage st) ROOT_CLUSTER_NUMBER = root_table[i := ?e, j := new_entry demo_note False (hd slots2)]"
    using ws_old_dir [OF ws2, of ROOT_CLUSTER_NUMBER] b d1 by (simp add: t1)
  ultimately have find: "List.find (named (str ''docs'')) (dir_at (storage st) ROOT_CLUSTER_NUMBER) = Some ?e"
    using find_docs i ws_slot_range(1,2) [OF ws2] by simp
  have m: "memory st1 = memory blank_fs" using written_memory [OF ws1] by (simp add: demo_memory)
  have l: "lookup st ROOT_CLUSTER_NUMBER = [(padded (str ''docs''), replicate 3 0) \<mapsto> Folder c,
       (padded (str ''notes''), replicate 3 0) \<mapsto> File note_bytes]"
    using written_lookup [OF ws2 b(1)] m l1 by (simp add: b(2)) (simp add: demo_note_def note_bytes_def user_request_def request_key_def)
  have e: "lookup st c = Map.empty" using ws_lookup [OF ws2, of c] l1 d1 b c by simp
  have child: "dir_at (storage st) c = child_table demo_fs demo_docs c" using ws_old_dir [OF ws2, of c] c1 d1 b c by simp
  obtain x :: u32 where "unat x < CLUSTER_MAP_SIZE" "fat_table st ! unat x = 0"
    by (rule third_cluster [OF ws1 one_cluster(2) ws2 one_cluster(1)])
  note room = docs_room [OF inv child this]
  have plain: "plain_request st (dirs st) q"
    if "request_key q = request_key demo_note" "wf_request q" "parent_cluster_number q = ROOT_CLUSTER_NUMBER" for q
  proof -
    have "root_request q" using that demo_shell_root(1) by (simp add: root_request_def)
    then show ?thesis by (intro ws_plain [OF ws2] ws_plain [OF ws1] demo_plain)
  qed
  have "(0 :: u32) \<notin> set slots2" using ws_slots_free(4) [OF ws2, of 0] by auto
  then have r0: "rd (storage st) 0 = rd (storage demo_fs) 0" using ws_rd_other [OF ws2, of 0] rd1 b by (simp add: cluster_valid_def)
  have "unat c < CLUSTER_MAP_SIZE" by (rule ws_slots_free(1) [OF ws1 c(2)])
  then show thesis
    using con d find c(1) l e plain room r0 by (intro that [of st ?e]) (simp_all, simp_all add: new_entry_def)
qed

text \<open>With an empty memory the boot sector is asked for a directory, and has none.\<close>

lemma boot_answers_nothing:
  assumes "rd (storage st) 0 = rd (storage demo_fs) 0" and "parent_cluster_number r = 0"
  shows "fat32_read_directory r st = (2, st)"
proof -
  have blank: "rd (storage blank_fs) 0 = replicate CLUSTER_SIZE 0"
    by (intro nth_equalityI) (simp_all add: blank_fs_def read_cluster_image cluster_valid_def image_read_def)
  have "user_attribute e \<noteq> UATTR_NOT_EMPTY" if "e \<in> set (dir_at (storage st) 0)" for e
  proof -
    have "user_attribute (dir_at (storage st) 0 ! i) \<in> set (rd (storage st) 0)" if "i < DIR_ENTRIES" for i
      using that by (simp add: user_attribute_at)
    moreover have "UATTR_NOT_EMPTY \<notin> set (rd (storage st) 0)"
      using assms(1) signature_no_mark blank by (simp add: demo_fs_def create_fat32_boot)
    ultimately show ?thesis using that by (metis in_set_conv_nth length_dir_at)
  qed
  then have "find_entry (\<lambda>e. user_attribute e = UATTR_NOT_EMPTY \<and> entry_matches r e) 0 (dir_at (storage st) 0) = None"
    by (auto simp: find_entry_None_iff)
  then show ?thesis using assms(2) by (simp add: fat32_read_directory_def)
qed

end
