(* ===== verification/Shell_Typing.thy ===== *)
theory Shell_Typing
  imports Shell_Frame
begin

unbundle bit_operations_syntax

text \<open>
  The shell at the keyboard. \<open>session\<close> interleaves keyboard interrupts with passes of the loop of
  \<open>main\<close>; a stroke is the press of a key, a pass that fetches the character, and the release. A line
  of strokes ends up in the input buffer, and the enter key hands it to \<open>parseCommand\<close>, which picks
  the first command whose name begins the first word.
\<close>

section \<open>Interrupts and passes\<close>

datatype shell_event = Key byte | Pass

definition keyboard_frame :: interrupt_frame where
  "keyboard_frame = frame_of_stack [0, 0, 0, 0, 0, 0, 0, 0, 0, 0, 0, 0, 0x21, 0, 0, 0, 0]"

definition event_step :: "shell_layout \<Rightarrow> shell_event \<Rightarrow> string_buff \<times> shell \<Rightarrow> (string_buff \<times> shell) run" where
  "event_step L ev = (\<lambda>(inp, sh).
     case ev of
       Key sc \<Rightarrow> bind_run (main_interrupt_handler (delivering sc) keyboard_frame (sys sh))
                   (\<lambda>k. Some (Inr (inp, sh\<lparr>sys := k\<rparr>)))
     | Pass \<Rightarrow> main_iteration L (inp, sh))"

definition session :: "shell_layout \<Rightarrow> shell_event list \<Rightarrow> string_buff \<times> shell \<Rightarrow> (string_buff \<times> shell) run" where
  "session L evs = block (map (event_step L) evs)"

definition stroke :: "byte \<Rightarrow> shell_event list" where
  "stroke sc = [Key sc, Pass, Key (sc + 0x80)]"

definition keyed :: "byte \<Rightarrow> shell \<Rightarrow> shell" where
  "keyed sc sh = sh\<lparr>sys := with_console (keyboard_isr (delivering sc)) (sys sh)\<rparr>"

lemma event_key: "event_step L (Key sc) (inp, sh) = Some (Inr (inp, keyed sc sh))"
  by (simp add: event_step_def main_interrupt_handler_def keyboard_frame_def frame_of_stack_def keyed_def)

lemma session_append: "session L (xs @ ys) s = bind_run (session L xs s) (session L ys)"
  by (simp add: session_def block_append)

lemma keyed_view: "same_view sh (keyed sc sh)"
proof -
  have "shell_ok sh \<Longrightarrow> kernel_inv (with_console (keyboard_isr (delivering sc)) (sys sh))"
    by (intro with_console_ok) (simp_all add: shell_ok_def cursor_ok_def)
  then show ?thesis by (simp add: same_view_def same_place_def shell_ok_def keyed_def)
qed

lemma keyed_kbd: "kbd (tty (sys (keyed sc sh))) = kbd (keyboard_isr (delivering sc) ((tty (sys sh))\<lparr>video := memory (files (sys sh))\<rparr>))"
  by (simp add: keyed_def with_console_def Let_def)

text \<open>The state after system call 4.\<close>

definition fetched :: "shell_layout \<Rightarrow> shell \<Rightarrow> shell" where
  "fetched L sh = sh\<lparr>sys := (sys sh)\<lparr>files := store8 (at_char L) (keyboard_buffer (kbd (tty (sys sh)))) (files (sys sh)),
     tty := (tty (sys sh))\<lparr>kbd := (kbd (tty (sys sh)))\<lparr>keyboard_buffer := 0\<rparr>\<rparr>\<rparr>\<rparr>"

lemma fetch_call: "user_syscall 4 (at_char L) 0 0 sh = Some (Inr (fetched L sh))"
  by (simp add: user_syscall_def syscall_def Let_def get_keyboard_buffer_def fetched_def)

lemma fetched_char: "user_memory (fetched L sh) (at_char L) = keyboard_buffer (kbd (tty (sys sh)))"
  by (simp add: fetched_def user_memory_def store8_def)

lemma fetched_view: "same_view sh (fetched L sh)"
  by (simp add: same_view_def same_place_def shell_ok_def fetched_def kernel_inv_def store8_def consistent_memory
      cursor_ok_def)

lemma fetched_kbd: "kbd (tty (sys (fetched L sh))) = (kbd (tty (sys sh)))\<lparr>keyboard_buffer := 0\<rparr>"
  by (simp add: fetched_def)

lemma no_effect_call: "user_syscall 5 b c d sh = Some (Inr sh)"
  by (simp add: user_syscall_def syscall_def Let_def)

lemma pass_char:
  assumes "keyboard_buffer (kbd (tty (sys sh))) = ch" and "ch \<noteq> 0" and "ch \<noteq> 10"
  shows "event_step L Pass (inp, sh)
    = bind_run (Some (stringBuffInputChar ch inp)) (\<lambda>inp. Some (Inr (inp, fetched L sh)))"
  using assms by (simp add: event_step_def main_iteration_def fetch_call fetched_char no_effect_call)

lemma pass_enter:
  assumes "keyboard_buffer (kbd (tty (sys sh))) = 10"
  shows "event_step L Pass (inp, sh)
    = bind_run (parseCommand L inp (fetched L sh)) (\<lambda>sh. Some (Inr (stringBuff_create, sh)))"
  using assms by (simp add: event_step_def main_iteration_def fetch_call fetched_char)

lemma pass_idle:
  assumes "keyboard_buffer (kbd (tty (sys sh))) = 0"
  shows "event_step L Pass (inp, sh) = Some (Inr (inp, fetched L sh))"
  using assms by (simp add: event_step_def main_iteration_def fetch_call fetched_char)

section \<open>Strokes\<close>

definition at_keyboard :: "shell \<Rightarrow> bool" where
  "at_keyboard sh \<longleftrightarrow> ready (tty (sys sh))"

lemma enter_index: "map fst (filter (\<lambda>p. snd p = 10) (List.enumerate 0 keyboard_scancode_1_to_ascii_map)) = [28]"
  by code_simp

lemma printable_no_newline: "printable sc \<Longrightarrow> key_char sc \<noteq> 10"
proof
  assume p: "printable sc" and "key_char sc = 10"
  then have "unat sc \<in> set (map fst (filter (\<lambda>p. snd p = 10) (List.enumerate 0 keyboard_scancode_1_to_ascii_map)))"
    using unat_u8_lt [of sc] by (force simp: in_set_enumerate_eq image_iff key_char_def)
  then have "unat sc = 28" unfolding enter_index by simp
  then show False using printableD(4) [OF p] by (simp add: word_unat_eq_iff)
qed

lemma press_kbd:
  assumes "printable sc" and "at_keyboard sh"
  shows "kbd (tty (sys (keyed sc sh))) = (kbd (tty (sys sh)))\<lparr>keyboard_buffer := key_char sc, key_pressed := True\<rparr>"
  using assms(2) press_printable [OF assms(1)]
  by (simp add: keyed_kbd isr_delivering at_keyboard_def ready_def move_cursor_def echo_def)

lemma release_kbd:
  assumes "printable sc" and "keyboard_input_on (kbd (tty (sys sh)))" and "key_pressed (kbd (tty (sys sh)))"
    and "\<not> backspace_pressed (kbd (tty (sys sh)))"
  shows "kbd (tty (sys (keyed (sc + 0x80) sh)))
    = (kbd (tty (sys sh)))\<lparr>key_pressed := False, kcol := kcol (kbd (tty (sys sh))) + 1\<rparr>"
  using assms(2-4) release_printable [OF assms(1)]
  by (simp add: keyed_kbd isr_delivering)

lemma stroke_line:
  assumes p: "printable sc" and k: "at_keyboard sh"
  obtains sh' where "same_view sh sh'" "at_keyboard sh'"
    "\<And>acc. length acc < 256 \<Longrightarrow> session L (stroke sc) (line acc, sh) = Some (Inr (line (acc @ [key_char sc]), sh'))"
    "\<And>acc. length acc = 256 \<Longrightarrow> session L (stroke sc) (line acc, sh) = Some (Inl OutOfBounds)"
proof -
  let ?s1 = "keyed sc sh" let ?s2 = "fetched L ?s1" let ?s3 = "keyed (sc + 0x80) ?s2"
  have k1: "kbd (tty (sys ?s1)) = (kbd (tty (sys sh)))\<lparr>keyboard_buffer := key_char sc, key_pressed := True\<rparr>"
    by (rule press_kbd [OF p k])
  have k2: "kbd (tty (sys ?s2)) = (kbd (tty (sys sh)))\<lparr>keyboard_buffer := 0, key_pressed := True\<rparr>"
    by (simp add: fetched_kbd k1)
  have ch: "keyboard_buffer (kbd (tty (sys ?s1))) = key_char sc" by (simp add: k1)
  have r: "kbd (tty (sys ?s3)) = (kbd (tty (sys ?s2)))\<lparr>key_pressed := False, kcol := kcol (kbd (tty (sys ?s2))) + 1\<rparr>"
    using k by (intro release_kbd p) (simp_all add: k2 at_keyboard_def ready_def)
  note pass = pass_char [OF ch printableD(5) [OF p] printable_no_newline [OF p]]
  show thesis
  proof (rule that)
    show "same_view sh ?s3"
      by (rule view.same_trans [OF keyed_view view.same_trans [OF fetched_view keyed_view]])
    show "at_keyboard ?s3" using k by (simp add: at_keyboard_def ready_def r k2)
    show "length acc < 256 \<Longrightarrow> session L (stroke sc) (line acc, sh) = Some (Inr (line (acc @ [key_char sc]), ?s3))" for acc
      by (simp add: session_def stroke_def event_key pass input_char_line)
    show "length acc = 256 \<Longrightarrow> session L (stroke sc) (line acc, sh) = Some (Inl OutOfBounds)" for acc
      by (simp add: session_def stroke_def event_key pass input_char_full)
  qed
qed

lemma strokes_line:
  assumes "list_all printable scs" and "at_keyboard sh" and "length acc \<le> 256"
  shows "if length acc + length scs \<le> 256
    then \<exists>sh'. same_view sh sh' \<and> at_keyboard sh'
      \<and> session L (concat (map stroke scs)) (line acc, sh) = Some (Inr (line (acc @ map key_char scs), sh'))
    else session L (concat (map stroke scs)) (line acc, sh) = Some (Inl OutOfBounds)"
  using assms
proof (induction scs arbitrary: sh acc)
  case Nil
  then show ?case using view.same_refl by (auto simp: session_def)
next
  case (Cons sc scs)
  have p: "printable sc" "list_all printable scs" using Cons.prems(1) by simp_all
  obtain s1 where s1: "same_view sh s1" "at_keyboard s1"
    "\<And>acc. length acc < 256 \<Longrightarrow> session L (stroke sc) (line acc, sh) = Some (Inr (line (acc @ [key_char sc]), s1))"
    "\<And>acc. length acc = 256 \<Longrightarrow> session L (stroke sc) (line acc, sh) = Some (Inl OutOfBounds)"
    using stroke_line [OF p(1) Cons.prems(2)] by metis
  have split: "session L (concat (map stroke (sc # scs))) (line acc, sh)
      = bind_run (session L (stroke sc) (line acc, sh)) (session L (concat (map stroke scs)))"
    by (simp add: session_append)
  show ?case
  proof (cases "length acc = 256")
    case True
    then show ?thesis unfolding split s1(4) [OF True] by simp
  next
    case False
    then have l: "length acc < 256" using Cons.prems(3) by simp
    then have "length (acc @ [key_char sc]) \<le> 256" by simp
    from Cons.IH [OF p(2) s1(2) this] show ?thesis
      unfolding split s1(3) [OF l] bind_run_simps using view.same_trans [OF s1(1)]
      by (auto split: if_splits)
  qed
qed

text \<open>The enter key is still down while the command runs.\<close>

definition enter_held :: "shell \<Rightarrow> bool" where
  "enter_held sh \<longleftrightarrow> keyboard_input_on (kbd (tty (sys sh))) \<and> key_pressed (kbd (tty (sys sh)))
     \<and> \<not> backspace_pressed (kbd (tty (sys sh)))"

lemma enter_released: "enter_held sh \<Longrightarrow> at_keyboard (keyed 0x9C sh)"
  using release_enter(1) [of "(tty (sys sh))\<lparr>video := memory (files (sys sh))\<rparr>"]
  by (simp add: enter_held_def at_keyboard_def ready_def keyed_kbd)

lemma typed_line:
  assumes p: "list_all printable scs" and k: "at_keyboard sh"
  shows "if length scs \<le> 256
    then \<exists>sh'. same_view sh sh' \<and> enter_held sh'
      \<and> session L (concat (map stroke scs) @ [Key 0x1C, Pass]) (stringBuff_create, sh)
      = bind_run (parseCommand L (line (map key_char scs)) sh') (\<lambda>sh. Some (Inr (stringBuff_create, sh)))
    else session L (concat (map stroke scs) @ [Key 0x1C, Pass]) (stringBuff_create, sh) = Some (Inl OutOfBounds)"
proof (cases "length scs \<le> 256")
  case True
  with strokes_line [OF p k, of "[]" L] obtain s1 where s1: "same_view sh s1" "at_keyboard s1"
    "session L (concat (map stroke scs)) (stringBuff_create, sh) = Some (Inr (line (map key_char scs), s1))" by auto
  note enter = press_enter(1) [of "(tty (sys s1))\<lparr>video := memory (files (sys s1))\<rparr>"]
  have k1: "keyboard_buffer (kbd (tty (sys (keyed 0x1C s1)))) = 10" "enter_held (fetched L (keyed 0x1C s1))"
    using s1(2) enter by (simp_all add: at_keyboard_def ready_def keyed_kbd fetched_kbd enter_held_def)
  then have "session L [Key 0x1C, Pass] (line (map key_char scs), s1)
      = bind_run (bind_run (parseCommand L (line (map key_char scs)) (fetched L (keyed 0x1C s1)))
          (\<lambda>sh. Some (Inr (stringBuff_create, sh)))) (block [])"
    by (simp add: session_def event_key pass_enter)
  moreover have "bind_run x (block []) = x" for x :: "(string_buff \<times> shell) run"
    by (simp add: bind_run_def split: option.split sum.split)
  moreover have "same_view sh (fetched L (keyed 0x1C s1))"
    by (rule view.same_trans [OF s1(1) view.same_trans [OF keyed_view fetched_view]])
  ultimately show ?thesis using True k1(2) by (auto simp: session_append s1(3))
next
  case False
  then show ?thesis using strokes_line [OF p k, of "[]" L] by (simp add: session_append)
qed

section \<open>The commands by name\<close>

definition commands :: "shell_layout \<Rightarrow> string_buff \<Rightarrow> string_buff \<Rightarrow> (string \<times> (shell \<Rightarrow> shell run)) list" where
  "commands L variabel variabel2 =
     [(''cd'', cd L variabel), (''ls'', ls L), (''mkdir'', shell_mkdir L variabel), (''cat'', cat L variabel),
      (''rm'', rm L variabel), (''cp'', cp L variabel), (''find'', shell_find L variabel), (''mv'', mv L variabel variabel2)]"

lemma starts_with_line:
  assumes "length w \<le> 256" and "length s \<le> 256" and "0 \<notin> set (str s)"
  shows "starts_with (line w) s \<longleftrightarrow> take (length s) w = str s"
proof -
  have nz: "str s ! j \<noteq> 0" if "j < length s" for j
    using assms(3) that by (metis length_str nth_mem)
  have lit: "c_literal s ! j = str s ! j" if "j < length s" for j
    using that by (simp add: c_literal_def nth_append)
  have pad: "chars (line w) ! j = 0" if "length w \<le> j" "j < length s" for j
    using that assms(1,2) by (simp add: line_def nth_append)
  have "starts_with (line w) s \<longleftrightarrow> (\<forall>j < length s. chars (line w) ! j = str s ! j)"
    using lit by (auto simp: starts_with_def memcmp_bytes_def memcmp_loop_0_iff)
  also have "\<dots> \<longleftrightarrow> take (length s) w = str s"
  proof
    assume a: "\<forall>j < length s. chars (line w) ! j = str s ! j"
    have l: "length s \<le> length w"
    proof (rule ccontr)
      assume "\<not> length s \<le> length w"
      then have "length w < length s" by simp
      with a pad [of "length w"] nz [of "length w"] show False by auto
    qed
    with a show "take (length s) w = str s" by (intro nth_equalityI) simp_all
  next
    assume t: "take (length s) w = str s"
    then have l: "length s \<le> length w" by (metis length_str length_take min.absorb_iff2 min.cobounded1)
    show "\<forall>j < length s. chars (line w) ! j = str s ! j"
    proof (intro allI impI)
      fix j assume j: "j < length s"
      then have "chars (line w) ! j = take (length s) w ! j" using l by simp
      then show "chars (line w) ! j = str s ! j" by (simp only: t)
    qed
  qed
  finally show ?thesis .
qed

definition command_names :: "string list" where
  "command_names = [''cd'', ''ls'', ''mkdir'', ''cat'', ''rm'', ''cp'', ''find'', ''mv'']"

lemma command_names_ok: "list_all (\<lambda>s. 0 \<notin> set (str s) \<and> length s \<le> 256) command_names"
  by code_simp

lemma parse_line:
  assumes "length bs \<le> 256"
  shows "parseCommand L (line bs) =
    (case List.find (\<lambda>(s, _). take (length s) (first_word bs) = str s)
        (commands L (line (first_word (next_words bs))) (line (first_word (next_words (next_words bs))))) of
       Some (_, command) \<Rightarrow> block [user_puts L (c_literal [CHR 0x0A]) 0x7, command, cetak_prompt L]
     | None \<Rightarrow> block [user_puts L (c_literal ([CHR 0x0A] @ ''Command not found'' @ [CHR 0x0A])) 0xC, cetak_prompt L])"
proof -
  have "length (first_word bs) \<le> 256" using length_first_word [of bs] assms by simp
  then have w: "starts_with (line (first_word bs)) s \<longleftrightarrow> take (length s) (first_word bs) = str s"
    if "s \<in> set command_names" for s
    using that command_names_ok starts_with_line by (simp add: list_all_iff)
  have "parseCommand L (line bs) = run_command L (line (first_word bs)) (line (first_word (next_words bs)))
      (line (first_word (next_words (next_words bs))))"
    by (rule ext) (simp add: parseCommand_def split_line [OF assms])
  then show ?thesis by (simp add: run_command_def w command_names_def commands_def del: list.size)
qed

end
