(* ===== verification/Shell_Properties.thy ===== *)
theory Shell_Properties
  imports Shell_Demo Shell_Typing
begin

unbundle bit_operations_syntax

text \<open>
  The properties of the user shell: from typed keys to the command that runs, the commands against
  the abstract map of the file system, and the walk through the tree. The instances run the shell
  on the devices of \<open>Shell_Demo\<close>.
\<close>

section \<open>From keys to commands\<close>

text \<open>C30: Typing a line of at most 256 keys and the enter key, with one pass of the shell's loop
  per key, runs exactly one command: the first of cd, ls, mkdir, cat, rm, cp, find, mv whose name is
  a prefix of the first word, applied to the second and third word, between a new line and a new
  prompt; with no such name, the message. The key after the 256th writes behind the input buffer.\<close>

theorem typed_line_runs_its_command:
  assumes "list_all printable scs" and "ready (tty (sys sh))"
  defines "bs \<equiv> map key_char scs"
  shows "if length scs \<le> 256
    then \<exists>sh'. same_view sh sh' \<and> session L (concat (map stroke scs) @ [Key 0x1C, Pass]) (stringBuff_create, sh)
      = bind_run
          ((case List.find (\<lambda>(s, _). take (length s) (first_word bs) = str s)
              (commands L (line (first_word (next_words bs))) (line (first_word (next_words (next_words bs))))) of
             Some (_, command) \<Rightarrow> block [user_puts L (c_literal [CHR 0x0A]) 0x7, command, cetak_prompt L]
           | None \<Rightarrow> block [user_puts L (c_literal ([CHR 0x0A] @ ''Command not found'' @ [CHR 0x0A])) 0xC, cetak_prompt L]) sh')
          (\<lambda>sh. Some (Inr (stringBuff_create, sh)))
    else session L (concat (map stroke scs) @ [Key 0x1C, Pass]) (stringBuff_create, sh) = Some (Inl OutOfBounds)"
proof -
  have "at_keyboard sh" using assms(2) by (simp add: at_keyboard_def)
  note t = typed_line [OF assms(1) this, of L]
  show ?thesis
  proof (cases "length scs \<le> 256")
    case True
    then have "length bs \<le> 256" by (simp add: bs_def)
    note parse_line [OF this, of L, symmetric]
    with t True show ?thesis unfolding bs_def by simp blast
  next
    case False
    with t show ?thesis by simp
  qed
qed

theorem typed_line_runs_its_command_witness:
  "\<exists>sh'. same_view (shell_on demo_fs) sh'
    \<and> session demo_layout (concat (map stroke [0x26, 0x1F]) @ [Key 0x1C, Pass]) (stringBuff_create, shell_on demo_fs)
      = bind_run (block [user_puts demo_layout (c_literal [CHR 0x0A]) 0x7, ls demo_layout, cetak_prompt demo_layout] sh')
          (\<lambda>sh. Some (Inr (stringBuff_create, sh)))"
proof -
  have p: "list_all printable [0x26, 0x1F]" by code_simp
  have k: "map key_char [0x26, 0x1F] = str ''ls''" by code_simp
  have w: "first_word (str ''ls'') = str ''ls''" by code_simp
  have names: "take (length ''cd'') (str ''ls'') \<noteq> str ''cd''" "take (length ''ls'') (str ''ls'') = str ''ls''"
    by code_simp+
  show ?thesis
    using typed_line_runs_its_command [OF p, of "shell_on demo_fs" demo_layout]
    unfolding k w by (simp add: commands_def names [simplified])
qed

section \<open>Commands on the tree\<close>

text \<open>C31: \<open>mkdir\<close> with a name of at most 8 characters in a directory of the tree returns and keeps the
  shell's invariant and place: when no entry of the directory has the name and a slot and a cluster
  are free, the directory maps the name to a new empty folder and every other map stays; otherwise
  the file system is as before.\<close>

theorem mkdir_command:
  assumes "shell_ok sh" and "currentDirCluster sh \<in> dirs (disk sh)" and "length nm \<le> 8"
    and "r = user_request 0 (padded nm) (currentDirCluster sh) 0"
  shows "returns (shell_mkdir L (line nm) sh) (\<lambda>t. shell_ok t \<and> same_vars sh t
    \<and> (if name_taken (disk sh) r \<or> \<not> has_room (disk sh) r then same_files (disk sh) (disk t)
       else \<exists>c. node_added (disk sh) (disk t) (currentDirCluster sh) (padded nm) (Folder c)))"
  by (rule mkdir_returns [OF assms])

theorem mkdir_command_witness:
  "returns (shell_mkdir demo_layout (line (str ''docs'')) (shell_on demo_fs))
     (\<lambda>t. \<exists>c. lookup (disk t) ROOT_CLUSTER_NUMBER = [(padded (str ''docs''), replicate 3 0) \<mapsto> Folder c])"
proof -
  have "\<not> name_taken demo_fs demo_docs \<and> has_room demo_fs demo_docs"
    by (rule fresh_room [OF demo_shell_root(2) demo_docs_def]) simp
  with mkdir_command [OF shell_on_ok [OF demo_consistent(1)], of "str ''docs''" demo_docs demo_layout]
  show ?thesis by (auto simp: demo_docs_def node_added_def elim!: returns_mono)
qed

text \<open>C32: \<open>rm\<close> of a plain name returns and keeps invariant and place: a file and an empty folder
  leave the directory's map and nothing else changes; an unknown name and a folder with entries
  leave the file system as it was.\<close>

theorem rm_command:
  assumes "shell_ok sh" and "length nm \<le> 8"
    and "r = user_request 0 (padded nm) (currentDirCluster sh) 0"
    and "plain_request (disk sh) (dirs (disk sh)) r"
  shows "returns (rm L (line nm) sh) (\<lambda>t. shell_ok t \<and> same_vars sh t
    \<and> (case lookup (disk sh) (currentDirCluster sh) (padded nm, replicate 3 0) of
         None \<Rightarrow> same_files (disk sh) (disk t)
       | Some m \<Rightarrow> if \<exists>c. m = Folder c \<and> lookup (disk sh) c \<noteq> Map.empty then same_files (disk sh) (disk t)
           else node_removed (disk sh) (disk t) (currentDirCluster sh) (padded nm) m))"
  by (rule rm_returns [OF assms])

theorem rm_command_witness:
  "\<exists>st. lookup st ROOT_CLUSTER_NUMBER = [(padded (str ''notes''), replicate 3 0) \<mapsto> File note_bytes]
    \<and> returns (rm demo_layout (line (str ''notes'')) (shell_on st)) (\<lambda>t. lookup (disk t) ROOT_CLUSTER_NUMBER = Map.empty)"
proof -
  obtain st where st: "consistent st" "dirs st = {ROOT_CLUSTER_NUMBER}"
    "lookup st ROOT_CLUSTER_NUMBER = [(padded (str ''notes''), replicate 3 0) \<mapsto> File note_bytes]"
    and p: "\<And>r. request_key r = request_key demo_note \<Longrightarrow> wf_request r \<Longrightarrow> parent_cluster_number r = ROOT_CLUSTER_NUMBER \<Longrightarrow>
      plain_request st (dirs st) r"
    by (rule note_written) blast
  have "plain_request st (dirs st) (user_request 0 (padded (str ''notes'')) ROOT_CLUSTER_NUMBER 0)"
    by (rule p) (simp_all add: demo_note_def)
  with rm_command [OF shell_on_ok [OF st(1)] _ refl, of "str ''notes''" demo_layout]
  have "returns (rm demo_layout (line (str ''notes'')) (shell_on st)) (\<lambda>t. lookup (disk t) ROOT_CLUSTER_NUMBER = Map.empty)"
    using st by (auto simp: node_removed_def fun_upd_def elim!: returns_mono)
  with st(3) show ?thesis by blast
qed

text \<open>C33: \<open>cat\<close> of a file of at most ten clusters reads it into the buffer and prints, in green at the
  printer's position, the bytes before the first zero of the buffer, then a new line. A file with
  a zero byte is cut there, a file without one is followed by whatever lies behind it, and when no
  zero follows the print runs out of the buffer.\<close>

theorem cat_command:
  assumes "layout_ok L" and "shell_ok sh" and "length nm \<le> 8"
    and "plain_request (disk sh) (dirs (disk sh)) (data_request L (padded nm) (currentDirCluster sh))"
    and "lookup (disk sh) (currentDirCluster sh) (padded nm, replicate 3 0) = Some (File bs)"
    and "length bs \<le> DATA_SIZE"
  shows "\<exists>s1 data. same_view sh s1 \<and> length data = DATA_SIZE \<and> take (length bs) data = bs
    \<and> (0 \<in> set bs \<longrightarrow> c_string data = c_string bs)
    \<and> cat L (line nm) sh = (if 0 \<in> set data then user_puts L (c_literal [CHR 0x0A]) 0x7 (shown (c_string data) s1)
         else Some (Inl OutOfBounds))"
  using cat_eq [OF assms] c_string_take length_data_at by metis

theorem cat_command_witness:
  "\<exists>st s1. lookup st ROOT_CLUSTER_NUMBER = [(padded (str ''notes''), replicate 3 0) \<mapsto> File note_bytes]
    \<and> same_view (shell_on st) s1
    \<and> cat demo_layout (line (str ''notes'')) (shell_on st)
      = user_puts demo_layout (c_literal [CHR 0x0A]) 0x7 (shown (c_string note_bytes) s1)"
proof -
  obtain st where st: "consistent st"
    "lookup st ROOT_CLUSTER_NUMBER = [(padded (str ''notes''), replicate 3 0) \<mapsto> File note_bytes]"
    and p: "\<And>r. request_key r = request_key demo_note \<Longrightarrow> wf_request r \<Longrightarrow> parent_cluster_number r = ROOT_CLUSTER_NUMBER \<Longrightarrow>
      plain_request st (dirs st) r"
    by (rule note_written) blast
  have "plain_request st (dirs st) (data_request demo_layout (padded (str ''notes'')) ROOT_CLUSTER_NUMBER)"
    by (rule p) (simp_all add: demo_note_def)
  with cat_command [OF demo_layout_ok shell_on_ok [OF st(1)], of "str ''notes''" note_bytes] st(2)
  obtain s1 data where "same_view (shell_on st) s1" "take (length note_bytes) data = note_bytes"
    and c: "c_string data = c_string note_bytes"
    and r: "cat demo_layout (line (str ''notes'')) (shell_on st) = (if 0 \<in> set data
       then user_puts demo_layout (c_literal [CHR 0x0A]) 0x7 (shown (c_string data) s1) else Some (Inl OutOfBounds))"
    using note_zero by auto
  moreover have "0 \<in> set data" using c_string_take [OF calculation(2) note_zero] by simp
  ultimately show ?thesis using st(2) by auto
qed

text \<open>C34: \<open>cp\<close> of a file with a zero byte does not copy the file: the entry that it writes, always
  under the name \<open>copy\<close>, has the bytes before the first zero, and is an empty folder when the file
  begins with a zero.\<close>

theorem cp_copies_up_to_the_first_zero:
  assumes "layout_ok L" and "shell_ok sh" and "length nm \<le> 8" and "currentDirCluster sh \<in> dirs (disk sh)"
    and "plain_request (disk sh) (dirs (disk sh)) (data_request L (padded nm) (currentDirCluster sh))"
    and "lookup (disk sh) (currentDirCluster sh) (padded nm, replicate 3 0) = Some (File bs)"
    and "length bs \<le> DATA_SIZE" and "0 \<in> set bs"
    and "r = user_request (at_data L) copy_name_literal (currentDirCluster sh) (of_nat (length (c_string bs)))"
  shows "returns (cp L (line nm) sh) (\<lambda>t. shell_ok t \<and> same_vars sh t
    \<and> (if name_taken (disk sh) r \<or> \<not> has_room (disk sh) r then same_files (disk sh) (disk t)
       else \<exists>c. node_added (disk sh) (disk t) (currentDirCluster sh) copy_name_literal
         (if c_string bs = [] then Folder c else File (c_string bs))))"
  by (rule cp_returns [OF assms])

theorem cp_copies_up_to_the_first_zero_witness:
  "\<exists>st. lookup st ROOT_CLUSTER_NUMBER = [(padded (str ''notes''), replicate 3 0) \<mapsto> File note_bytes]
    \<and> length note_bytes = 300 \<and> length (c_string note_bytes) = 255
    \<and> returns (cp demo_layout (line (str ''notes'')) (shell_on st)) (\<lambda>t. shell_ok t
      \<and> lookup (disk t) ROOT_CLUSTER_NUMBER (copy_name_literal, replicate 3 0) = Some (File (c_string note_bytes)))"
proof -
  obtain st where st: "consistent st" "dirs st = {ROOT_CLUSTER_NUMBER}"
    "lookup st ROOT_CLUSTER_NUMBER = [(padded (str ''notes''), replicate 3 0) \<mapsto> File note_bytes]"
    and p: "\<And>r. request_key r = request_key demo_note \<Longrightarrow> wf_request r \<Longrightarrow> parent_cluster_number r = ROOT_CLUSTER_NUMBER \<Longrightarrow>
      plain_request st (dirs st) r"
    and room: "\<And>r. root_request r \<Longrightarrow> request_key r \<noteq> request_key demo_note \<Longrightarrow> unat (buffer_size r) \<le> CLUSTER_SIZE \<Longrightarrow>
      \<not> name_taken st r \<and> has_room st r"
    by (rule note_written) blast
  have plain: "plain_request st (dirs st) (data_request demo_layout (padded (str ''notes'')) ROOT_CLUSTER_NUMBER)"
    by (rule p) (simp_all add: demo_note_def)
  define r where "r = user_request (at_data demo_layout) copy_name_literal ROOT_CLUSTER_NUMBER (of_nat (length (c_string note_bytes)))"
  have names: "copy_name_literal \<noteq> root_name" "copy_name_literal \<noteq> replicate 8 0" "copy_name_literal \<noteq> padded (str ''notes'')"
    by code_simp+
  have n: "unat (of_nat (length (c_string note_bytes)) :: u32) = 255" by (simp add: note_string)
  have ok: "\<not> name_taken st r \<and> has_room st r"
    by (rule room) (use names n in \<open>simp_all add: root_request_def r_def demo_note_def\<close>)
  have "returns (cp demo_layout (line (str ''notes'')) (shell_on st)) (\<lambda>t. shell_ok t
      \<and> lookup (disk t) ROOT_CLUSTER_NUMBER (copy_name_literal, replicate 3 0) = Some (File (c_string note_bytes)))"
    using plain st ok note_string
    by (intro returns_mono [OF cp_copies_up_to_the_first_zero [OF demo_layout_ok shell_on_ok [OF st(1)],
          of "str ''notes''" note_bytes r, OF _ _ _ _ _ note_zero]])
      (auto simp: node_added_def r_def)
  with st(3) note_string show ?thesis by auto
qed

section \<open>Walking the tree\<close>

text \<open>\<open>cd\<close> into a folder of the current table and \<open>cd ..\<close>, each followed by its prompt, returns to
  the cluster, the depth and the open directories it started from, with the table of that cluster
  loaded and the file system untouched.\<close>

theorem cd_and_back:
  assumes "shell_ok sh" and "unat (buffer_index sh) < 254"
    and "length nm \<le> 8" and "0 \<notin> set nm" and "nm \<noteq> dots"
    and "List.find (folder_named nm) (currentDir sh) = Some e" and "entry_cluster e \<noteq> ROOT_CLUSTER_NUMBER"
    and "\<exists>e' \<in> set (dir_at (storage (disk sh)) (entry_cluster e)). name e' ! 0 \<noteq> 0"
  shows "returns (block [cd L (line nm), cetak_prompt L] sh) (\<lambda>t. currentDirCluster t = entry_cluster e \<and> at_home t
    \<and> returns (block [cd L (line dots), cetak_prompt L] t) (\<lambda>u. shell_ok u \<and> at_home u
      \<and> same_files (disk sh) (disk u) \<and> currentDirCluster u = currentDirCluster sh
      \<and> buffer_index u = buffer_index sh
      \<and> take (unat (buffer_index sh)) (parent_clusters u) = take (unat (buffer_index sh)) (parent_clusters sh)))"
proof -
  let ?i = "unat (buffer_index sh)"
  obtain s1 where s1: "cd L (line nm) sh = Some (Inr s1)" "shell_ok s1" "same_files (disk sh) (disk s1)"
    "currentDirCluster s1 = entry_cluster e" "buffer_index s1 = buffer_index sh + 1"
    "parent_clusters s1 = (parent_clusters sh)[?i := currentDirCluster sh]"
    using cd_enters [OF assms(1-6), of L] by (auto simp: returns_def)
  obtain s2 where s2: "cetak_prompt L s1 = Some (Inr s2)" "same_place s1 s2" "at_home s2"
    using prompt_returns [OF s1(2), of L] by (auto simp: returns_def)
  have ok2: "shell_ok s2" by (rule place.same_ok [OF s2(2) s1(2)])
  have v2: "currentDirCluster s2 = entry_cluster e" "buffer_index s2 = buffer_index sh + 1"
    "parent_clusters s2 = (parent_clusters sh)[?i := currentDirCluster sh]" "same_files (disk sh) (disk s2)"
    using s1 s2(2) same_files_trans [OF s1(3)] by (simp_all add: same_place_def)
  have "unat (buffer_index sh + 1) = Suc ?i" using assms(2) by (simp add: unat_word_ariths)
  then have nz: "buffer_index s2 \<noteq> 0" unfolding v2(2) by (metis unat_0 nat.distinct(1))
  have "\<exists>e' \<in> set (currentDir s2). name e' ! 0 \<noteq> 0"
    using s2(3) v2(1,4) assms(8) by (simp add: at_home_def same_files_def)
  with cd_leaves [OF ok2 _ nz] obtain s3 where s3: "cd L (line dots) s2 = Some (Inr s3)" "shell_ok s3"
    "same_files (disk s2) (disk s3)" "currentDirCluster s3 = parent_clusters s2 ! unat (buffer_index s2 - 1)"
    "buffer_index s3 = buffer_index s2 - 1" "parent_clusters s3 = parent_clusters s2"
    using v2(1) assms(7) by (auto simp: returns_def)
  obtain s4 where s4: "cetak_prompt L s3 = Some (Inr s4)" "same_place s3 s4" "at_home s4"
    using prompt_returns [OF s3(2), of L] by (auto simp: returns_def)
  have "length (parent_clusters sh) = 256" using assms(1) by (simp add: shell_ok_def)
  then have "currentDirCluster s3 = currentDirCluster sh" using assms(2) by (simp add: s3(4) v2(2,3))
  then have "currentDirCluster s4 = currentDirCluster sh" "buffer_index s4 = buffer_index sh"
    "take ?i (parent_clusters s4) = take ?i (parent_clusters sh)" "same_files (disk sh) (disk s4)" "shell_ok s4"
    using s4(2) s3 v2 same_files_trans [OF v2(4) s3(3)] same_files_trans place.same_ok [OF s4(2) s3(2)]
    by (auto simp: same_place_def)
  with s1(1) s2 s3(1) s4 v2(1) show ?thesis by simp
qed

theorem cd_and_back_witness:
  "\<exists>st e. entry_cluster e \<noteq> ROOT_CLUSTER_NUMBER
    \<and> returns (block [cd demo_layout (line (str ''docs'')), cetak_prompt demo_layout] (shell_on st))
        (\<lambda>t. currentDirCluster t = entry_cluster e
          \<and> returns (block [cd demo_layout (line dots), cetak_prompt demo_layout] t)
              (\<lambda>u. currentDirCluster u = ROOT_CLUSTER_NUMBER \<and> same_files st (disk u)))"
proof -
  obtain st e where d: "consistent st" "List.find (folder_named (str ''docs'')) (dir_at (storage st) ROOT_CLUSTER_NUMBER) = Some e"
    "entry_cluster e \<noteq> ROOT_CLUSTER_NUMBER" "\<exists>e' \<in> set (dir_at (storage st) (entry_cluster e)). name e' ! 0 \<noteq> 0"
    by (rule docs_written) blast
  have n: "length (str ''docs'') \<le> 8" "0 \<notin> set (str ''docs'')" "str ''docs'' \<noteq> dots" by code_simp+
  show ?thesis
  proof (intro exI conjI)
    show "entry_cluster e \<noteq> ROOT_CLUSTER_NUMBER" by (rule d(3))
    show "returns (block [cd demo_layout (line (str ''docs'')), cetak_prompt demo_layout] (shell_on st))
        (\<lambda>t. currentDirCluster t = entry_cluster e
          \<and> returns (block [cd demo_layout (line dots), cetak_prompt demo_layout] t)
              (\<lambda>u. currentDirCluster u = ROOT_CLUSTER_NUMBER \<and> same_files st (disk u)))"
      using d by (intro returns_mono [OF cd_and_back [OF shell_on_ok [OF d(1)] _ n, of e demo_layout]])
        (auto elim!: returns_mono)
  qed
qed

text \<open>In the root directory of a formatted device \<open>root\<close> names the directory's own entry, whose
  cluster is 0: \<open>cd root\<close> goes to the boot sector.\<close>

lemma root_entry_named: "List.find (folder_named (str ''root'')) root_table = Some (root_table ! 0)"
proof -
  have "folder_named (str ''root'') (root_table ! 0)" by code_simp
  moreover have "root_table = root_table ! 0 # drop 1 root_table" by code_simp
  ultimately show ?thesis by (metis List.find.simps(2))
qed

theorem cd_root_enters_the_boot_sector:
  "returns (cd L (line (str ''root'')) (shell_on demo_fs)) (\<lambda>t. currentDirCluster t = 0)"
proof -
  have n: "length (str ''root'') \<le> 8" "0 \<notin> set (str ''root'')" "str ''root'' \<noteq> dots" "entry_cluster (root_table ! 0) = 0"
    by code_simp+
  have "returns (cd L (line (str ''root'')) (shell_on demo_fs)) (\<lambda>t. currentDirCluster t = entry_cluster (root_table ! 0))"
    using cd_enters [OF shell_on_ok [OF demo_consistent(1)] _ n(1-3), of "root_table ! 0" L] root_entry_named
    by (auto simp: fresh_table elim!: returns_mono)
  then show ?thesis unfolding n(4) .
qed

end
