(* ===== verification/Shell_Screen.thy ===== *)
theory Shell_Screen
  imports Shell_Copy
begin

unbundle bit_operations_syntax

text \<open>
  What the user sees. The screen of a shell is the text position and the 2000 cells; a printed
  string is a list of characters in one ink. The locale \<open>emitting\<close> is the contract of statements that
  return, keep a relation and put a known text on the screen: a block of them puts their texts there
  in order. \<open>ls\<close>, \<open>find\<close> and the prompt are such statements.
\<close>

section \<open>Statements with an output\<close>

locale emitting = kept_relation ok same for ok :: "'s \<Rightarrow> bool" and same :: "'s \<Rightarrow> 's \<Rightarrow> bool" +
  fixes look :: "'s \<Rightarrow> 'v" and act :: "'o \<Rightarrow> 'v \<Rightarrow> 'v"
begin

definition emits :: "('s \<Rightarrow> 's run) \<Rightarrow> 'o list \<Rightarrow> bool" where
  "emits f os \<longleftrightarrow> (\<forall>s. ok s \<longrightarrow> returns (f s) (\<lambda>t. same s t \<and> look t = fold act os (look s)))"

lemma emitsI: "(\<And>s. ok s \<Longrightarrow> returns (f s) (\<lambda>t. same s t \<and> look t = fold act os (look s))) \<Longrightarrow> emits f os"
  by (simp add: emits_def)

lemma emitsE:
  assumes "emits f os" and "ok s"
  obtains t where "f s = Some (Inr t)" "same s t" "ok t" "look t = fold act os (look s)"
  using assms same_ok unfolding emits_def returns_def by blast

lemma emits_keeps: "emits f os \<Longrightarrow> keeps f"
  by (rule keepsI) (auto simp: emits_def returns_def)

lemma emits_nothing: "emits (block []) []"
  by (rule emitsI) (simp add: same_refl)

lemma emits_then:
  assumes "emits f os" and "emits g ps"
  shows "emits (\<lambda>s. bind_run (f s) g) (os @ ps)"
proof (rule emitsI)
  fix s assume "ok s"
  with assms(1) obtain t where t: "f s = Some (Inr t)" "same s t" "ok t" "look t = fold act os (look s)" by (rule emitsE)
  from assms(2) t(3) obtain u where u: "g t = Some (Inr u)" "same t u" "look u = fold act ps (look t)" by (rule emitsE)
  show "returns (bind_run (f s) g) (\<lambda>t. same s t \<and> look t = fold act (os @ ps) (look s))"
    using t u same_trans [OF t(2) u(2)] by simp
qed

lemma emits_block: "list_all2 emits fs oss \<Longrightarrow> emits (block fs) (concat oss)"
proof (induction fs oss rule: list_all2_induct)
  case Nil
  show ?case unfolding concat.simps by (rule emits_nothing)
next
  case (Cons f fs os oss)
  have "block (f # fs) = (\<lambda>s. bind_run (f s) (block fs))" by (rule ext) simp
  with emits_then [OF Cons(1,3)] show ?case by (simp del: block.simps)
qed

end

section \<open>The screen\<close>

definition screen :: "shell \<Rightarrow> screen" where
  "screen sh = (text_pos (tty (sys sh)), cells (user_memory sh))"

definition write_on :: "u8 \<times> byte list \<Rightarrow> screen \<Rightarrow> screen" where
  "write_on = (\<lambda>(ink, bs). fold (put_on ink) bs)"

definition ink :: "u32 \<Rightarrow> u8" where
  "ink color = push_bit 4 (ucast (drop_bit 4 color AND 0x0F)) OR ucast (color AND 0x0F)"

interpretation out: emitting shell_ok same_view screen write_on ..

interpretation move: emitting shell_ok same_place screen write_on ..

lemma emits_view_place: "out.emits f os \<Longrightarrow> move.emits f os"
  by (auto simp: out.emits_def move.emits_def returns_def view_place)

text \<open>Writing to user memory leaves the screen alone.\<close>

lemma fb_addr_high: "n < 4000 \<Longrightarrow> user_area p k \<Longrightarrow> k \<le> unat (fb_addr n - p)"
proof -
  assume n: "n < 4000" and u: "user_area p k"
  have "unat (fb_addr n) = unat (FRAMEBUFFER_MEMORY_OFFSET) + n"
    using n by (simp add: fb_addr_def unat_word_ariths unat_of_nat)
  then show ?thesis using u by (simp add: user_area_def unat_sub_if')
qed

lemma cells_user_write:
  assumes "user_area p (length bs)"
  shows "cells (mem_write m p bs) = cells m"
proof
  fix q
  have other: "mem_write m p bs (fb_addr n) = m (fb_addr n)" if "n < 4000" for n
    by (rule mem_write_other) (rule fb_addr_high [OF that assms])
  show "cells (mem_write m p bs) q = cells m q"
  proof (cases "q < 2000")
    case True
    have "frame_buffer_index (of_nat (q div 80)) (of_nat (q mod 80)) + 1 < 4000"
      using cell_at_on_screen [OF True] by (simp add: on_screen_def frame_buffer_index_def)
    then show ?thesis by (simp add: cells_def cell_at_def cell_def Let_def other)
  qed (simp add: cells_def)
qed

lemma put_object_screen: "user_area p (length bs) \<Longrightarrow> screen (put_object p bs sh) = screen sh"
  unfolding screen_def put_object_memory by (simp add: cells_user_write) (simp add: put_object_def)

section \<open>Printing\<close>

definition text_area :: "shell_layout \<Rightarrow> bool" where
  "text_area L \<longleftrightarrow> user_area (at_text L) 2048 \<and> user_area (at_dir L) CLUSTER_SIZE"

lemma puts_call_screen:
  assumes sh: "shell_ok sh" and u: "user_area p (length obj)" and z: "0 \<in> set obj"
    and m: "mem_read (user_memory sh) p (length obj) = obj"
  shows "screen (sh\<lparr>sys := with_console (puts p (of_nat (length (c_string obj))) color) (sys sh)\<rparr>)
    = write_on (ink color, c_string obj) (screen sh)"
proof -
  let ?c = "(tty (sys sh))\<lparr>video := memory (files (sys sh))\<rparr>" and ?n = "length (c_string obj)"
  have c: "cursor_ok ?c" using sh by (simp add: shell_ok_def kernel_inv_def cursor_ok_def)
  have n: "?n \<le> length obj" by (simp add: c_string_def length_takeWhile_le)
  have "length obj < 2 ^ 32" using u by (simp add: user_area_def)
  then have un: "unat (of_nat ?n :: u32) = ?n" using n by simp
  have off: "\<forall>i < ?n. off_screen (p + of_nat i)" using u n by (auto intro: user_off_screen)
  have "mem_read (video ?c) p ?n = take ?n (mem_read (user_memory sh) p (length obj))"
    using n by (simp add: user_memory_def take_mem_read)
  then have "mem_read (video ?c) p ?n = take ?n obj" unfolding m .
  then have "takeWhile (\<lambda>b. b \<noteq> 0) (mem_read (video ?c) p ?n) = c_string obj" by (simp add: c_string_prefix)
  then have "puts p (of_nat ?n) color ?c
      = update_cursor_position (print (ucast (color AND 0x0F)) (ucast (drop_bit 4 color AND 0x0F)) (c_string obj) ?c)"
    using puts_loop_print [OF c off] by (simp only: puts_def un)
  then show ?thesis
    using print_screen [OF c, of "ucast (color AND 0x0F)" "ucast (drop_bit 4 color AND 0x0F)" "c_string obj"]
    by (simp add: screen_def with_console_def Let_def user_memory_def write_on_def ink_def text_pos_def)
qed

lemma user_puts_emits:
  assumes u: "user_area (at_text L) (length obj)" and z: "0 \<in> set obj"
  shows "out.emits (user_puts L obj color) [(ink color, c_string obj)]"
proof (rule out.emitsI)
  fix sh assume sh: "shell_ok sh"
  let ?s = "put_object (at_text L) obj sh"
  have n: "length obj \<le> 2 ^ 32" using u by (simp add: user_area_def)
  have ok: "shell_ok ?s" by (rule view.same_ok [OF put_object_view sh])
  have m: "mem_read (user_memory ?s) (at_text L) (length obj) = obj"
    using n by (simp add: put_object_memory mem_read_write)
  have eq: "user_puts L obj color sh
      = Some (Inr (?s\<lparr>sys := with_console (puts (at_text L) (of_nat (length (c_string obj))) color) (sys ?s)\<rparr>))"
    using z by (simp add: user_puts_def puts_at_def m strLength_eq puts_call)
  have "returns (user_puts L obj color sh) (same_view sh)"
    by (rule view.keepsD [OF user_puts_keeps [OF z n] sh])
  with puts_call_screen [OF ok u z m] show "returns (user_puts L obj color sh)
      (\<lambda>t. same_view sh t \<and> screen t = fold write_on [(ink color, c_string obj)] (screen sh))"
    by (simp add: eq put_object_screen [OF u])
qed

lemma literal_emits:
  assumes "text_area L" and "length s < 2048" and "0 \<notin> set (str s)"
  shows "out.emits (user_puts L (c_literal s) color) [(ink color, str s)]"
proof -
  have "c_string (c_literal s) = str s" using assms(3) c_string_append [of "str s" "[]"] by (simp add: c_literal_def)
  then show ?thesis
    using user_puts_emits [of L "c_literal s" color] assms(1,2) by (simp add: text_area_def user_area_def c_literal_def)
qed

lemma object_emits:
  "text_area L \<Longrightarrow> length obj \<le> 2048 \<Longrightarrow> 0 \<in> set obj \<Longrightarrow> out.emits (user_puts L obj color) [(ink color, c_string obj)]"
  by (rule user_puts_emits) (simp_all add: text_area_def user_area_def)

section \<open>ls\<close>

lemma load_emits:
  assumes "text_area L" and sh: "shell_ok sh"
  shows "returns (currentDir_call L 3 (currentDirCluster sh) sh)
    (\<lambda>t. same_place sh t \<and> at_home t \<and> screen t = screen sh)"
proof -
  have area: "user_area (at_dir L) (length (rd (storage (disk sh)) c))" "user_area (at_dir L) (length (encode_table (currentDir sh)))" for c
    using assms sh by (simp_all add: text_area_def shell_ok_def)
  let ?t = "(loaded L (currentDirCluster sh) sh)\<lparr>currentDir := dir_at (storage (disk sh)) (currentDirCluster sh)\<rparr>"
  have "screen (loaded L (currentDirCluster sh) sh) = screen sh"
    unfolding loaded_def by (simp only: put_object_screen [OF area(1)] put_object_screen [OF area(2)])
  then have "screen ?t = screen sh" by (simp add: screen_def user_memory_def)
  then show ?thesis using load_returns [of L sh] by (simp add: load_eq)
qed

text \<open>The entry's name is printed as a string: a name of 8 characters runs on into the extension.\<close>

definition entry_text :: "dirent \<Rightarrow> (u8 \<times> byte list) list" where
  "entry_text e = (if name e ! 0 = 0 then [] else [(2, c_string (encode_dirent e)), (2, str '' '')])"

definition printable_entry :: "dirent \<Rightarrow> bool" where
  "printable_entry e \<longleftrightarrow> name e ! 0 = 0 \<or> 0 \<in> set (encode_dirent e)"

lemma inks: "ink 0x2 = 2" "ink 0x5 = 5" "ink 0x7 = 7" "ink 0x9 = 9" "ink 0xC = 12"
  by code_simp+

lemma ls_entry_emits:
  assumes "text_area L" and "wf_dirent e" and "printable_entry e"
  shows "out.emits (ls_entry L e) (entry_text e)"
proof (cases "name e ! 0 = 0")
  case True
  then have "ls_entry L e = block []" "entry_text e = []" by (simp_all add: ls_entry_def entry_text_def)
  then show ?thesis using out.emits_nothing by (simp only:)
next
  case False
  have blank: "0 \<notin> set (str '' '')" by code_simp
  have "out.emits (user_puts L (encode_dirent e) 0x2) [(ink 0x2, c_string (encode_dirent e))]"
    using assms False entries.len_enc [OF assms(2)] by (intro object_emits) (simp_all add: printable_entry_def)
  moreover have "out.emits (user_puts L (c_literal '' '') 0x2) [(ink 0x2, str '' '')]"
    using assms(1) blank by (intro literal_emits) simp_all
  ultimately have "out.emits (block [user_puts L (encode_dirent e) 0x2, user_puts L (c_literal '' '') 0x2])
      (concat [[(ink 0x2, c_string (encode_dirent e))], [(ink 0x2, str '' '')]])"
    by (intro out.emits_block) (simp del: str_def)
  moreover have "ls_entry L e = block [user_puts L (encode_dirent e) 0x2, user_puts L (c_literal '' '') 0x2]"
    using False by (simp add: ls_entry_def)
  ultimately show ?thesis using False by (simp add: entry_text_def inks)
qed


definition ls_text :: "dirent list \<Rightarrow> (u8 \<times> byte list) list" where
  "ls_text t = concat (map entry_text (drop 2 t)) @ [(2, [10])]"

lemma ls_emits:
  assumes L: "text_area L" and sh: "shell_ok sh"
    and p: "list_all printable_entry (drop 2 (dir_at (storage (disk sh)) (currentDirCluster sh)))"
  shows "returns (ls L sh) (\<lambda>t. same_place sh t \<and> at_home t
    \<and> screen t = fold write_on (ls_text (dir_at (storage (disk sh)) (currentDirCluster sh))) (screen sh))"
proof -
  let ?t = "dir_at (storage (disk sh)) (currentDirCluster sh)"
  have nl: "0 \<notin> set (str [CHR 0x0A])" "str [CHR 0x0A] = [10]" by code_simp+
  obtain s1 where s1: "currentDir_call L 3 (currentDirCluster sh) sh = Some (Inr s1)" "same_place sh s1" "at_home s1"
    "screen s1 = screen sh"
    using load_emits [OF L sh] by (auto elim: returnsE)
  have ok1: "shell_ok s1" by (rule place.same_ok [OF s1(2) sh])
  have dir: "currentDir s1 = ?t" using s1(2,3) by (simp add: at_home_def same_place_def same_files_def)
  have wf: "list_all wf_dirent ?t" using wf_dir_at [of "storage (disk sh)" "currentDirCluster sh"] by (simp add: wf_table_def)
  have "list_all2 out.emits (map (ls_entry L) (drop 2 ?t)) (map entry_text (drop 2 ?t))"
    using wf p by (auto simp: list_all2_conv_all_nth list_all_length intro!: ls_entry_emits [OF L])
  from out.emits_block [OF this] have "out.emits (block (map (ls_entry L) (drop 2 ?t))) (concat (map entry_text (drop 2 ?t)))" .
  from out.emitsE [OF this ok1] obtain s2 where s2: "block (map (ls_entry L) (drop 2 ?t)) s1 = Some (Inr s2)"
    "same_view s1 s2" "shell_ok s2" "screen s2 = fold write_on (concat (map entry_text (drop 2 ?t))) (screen s1)" .
  have "out.emits (user_puts L (c_literal [CHR 0x0A]) 0x2) [(2, [10])]"
    using literal_emits [OF L _ nl(1), of "0x2"] by (simp add: nl(2) inks)
  from out.emitsE [OF this s2(3)] obtain s3 where s3: "user_puts L (c_literal [CHR 0x0A]) 0x2 s2 = Some (Inr s3)"
    "same_view s2 s3" "screen s3 = fold write_on [(2, [10])] (screen s2)" .
  have "ls L sh = Some (Inr s3)"
    by (simp add: ls_def s1(1) dir s2(1) s3(1))
  moreover have v: "same_view s1 s3" by (rule view.same_trans [OF s2(2) s3(2)])
  moreover have "same_place sh s3" by (rule place.same_trans [OF s1(2) view_place [OF v]])
  moreover have "at_home s3" using at_home_view [OF v] s1(3) by simp
  ultimately show ?thesis using s1(4) s2(4) s3(3) by (simp add: ls_text_def)
qed

section \<open>find\<close>

definition find_text :: "byte list \<Rightarrow> dirent list \<Rightarrow> (u8 \<times> byte list) list" where
  "find_text nm t = (if list_ex (named nm) t then [(2, str ''File found: ''), (2, nm), (2, [10])]
     else [(12, str ''File not found'' @ [10])])"

lemma find_emits:
  assumes L: "text_area L" and nm: "length nm \<le> 256" "0 \<notin> set nm" and es: "list_all wf_dirent es"
  shows "out.emits (find_loop L (line nm) es) (find_text nm es)"
  using es
proof (induction es)
  case Nil
  have lit: "0 \<notin> set (str (''File not found'' @ [CHR 0x0A]))" "str (''File not found'' @ [CHR 0x0A]) = str ''File not found'' @ [10]"
    by code_simp+
  have "find_loop L (line nm) [] = user_puts L (c_literal (''File not found'' @ [CHR 0x0A])) 0xC" by (rule ext) simp
  moreover have "find_text nm [] = [(ink 0xC, str (''File not found'' @ [CHR 0x0A]))]" unfolding lit(2) by (simp add: find_text_def inks)
  ultimately show ?case using literal_emits [OF L _ lit(1)] by simp
next
  case (Cons e es)
  have wf: "wf_dirent e" "list_all wf_dirent es" using Cons.prems by simp_all
  let ?found = "block [user_puts L (c_literal ''File found: '') 0x2, user_puts L (fullname e) 0x2, user_puts L (c_literal [CHR 0x0A]) 0x2]"
  have eq: "find_loop L (line nm) (e # es) = (if named nm e then ?found else find_loop L (line nm) es)"
    by (rule ext) (simp add: compare_name [OF nm wf(1)] named_def)
  show ?case
  proof (cases "named nm e")
    case True
    have lit: "0 \<notin> set (str ''File found: '')" "0 \<notin> set (str [CHR 0x0A])" "str [CHR 0x0A] = [10]" by code_simp+
    have "0 \<in> set (fullname e)" "length (fullname e) \<le> 2048" using wf(1) by (simp_all add: fullname_def wf_dirent_def)
    then have "out.emits (user_puts L (fullname e) 0x2) [(ink 0x2, c_string (fullname e))]" by (intro object_emits [OF L])
    then have "list_all2 out.emits [user_puts L (c_literal ''File found: '') 0x2, user_puts L (fullname e) 0x2, user_puts L (c_literal [CHR 0x0A]) 0x2]
        [[(ink 0x2, str ''File found: '')], [(ink 0x2, c_string (fullname e))], [(ink 0x2, str [CHR 0x0A])]]"
      using literal_emits [OF L _ lit(1)] literal_emits [OF L _ lit(2)] by simp
    from out.emits_block [OF this] show ?thesis
      using True unfolding eq lit(3) by (simp add: find_text_def inks named_def del: block.simps)
  next
    case False
    with Cons.IH [OF wf(2)] show ?thesis by (simp add: eq find_text_def)
  qed
qed

section \<open>The prompt\<close>

definition row_text :: "byte list \<Rightarrow> nat \<Rightarrow> nat \<Rightarrow> (u8 \<times> byte list) list" where
  "row_text d n i = (9, c_string (dir_row d i)) # (if i \<noteq> n then [(9, str ''/'')] else [])"

definition path_text :: "byte list \<Rightarrow> nat \<Rightarrow> nat \<Rightarrow> (u8 \<times> byte list) list" where
  "path_text d n i = concat (map (row_text d n) [i..<Suc n])"

lemma path_text_Suc: "i \<le> n \<Longrightarrow> path_text d n i = row_text d n i @ path_text d n (Suc i)"
  by (simp add: path_text_def upt_conv_Cons del: upt_Suc)

lemma prompt_loop_screen:
  assumes L: "text_area L"
  shows "shell_ok sh \<Longrightarrow> returns (prompt_loop L i sh) (\<lambda>t. same_view sh t
    \<and> screen t = fold write_on (path_text (dir_buff sh) (unat (buffer_index sh)) (unat i)) (screen sh))"
proof (induction "Suc (unat (buffer_index sh)) - unat i" arbitrary: i sh)
  case 0
  then have "\<not> ucast i \<le> buffer_index sh" by (simp add: word_le_nat_alt)
  moreover have "path_text (dir_buff sh) (unat (buffer_index sh)) (unat i) = []"
    using 0 by (simp add: path_text_def)
  ultimately show ?case by (simp add: prompt_loop.simps view.same_refl)
next
  case (Suc k)
  let ?d = "dir_buff sh" and ?n = "unat (buffer_index sh)"
  have le: "unat i \<le> ?n" using Suc.hyps(2) by simp
  then have i: "ucast i \<le> buffer_index sh" "unat i < 255"
    using Suc.prems by (simp_all add: word_le_nat_alt shell_ok_def)
  have slash: "0 \<notin> set (str ''/'')" by code_simp
  have len: "length (dir_row ?d (unat i)) \<le> 2048" using Suc.prems by (simp add: dir_row_def shell_ok_def)
  have "out.emits (user_puts L (dir_row ?d (unat i)) 0x9) [(ink 0x9, c_string (dir_row ?d (unat i)))]"
    by (rule object_emits [OF L len dir_row_string(1) [OF Suc.prems i(2)]])
  from out.emitsE [OF this Suc.prems] obtain s1 where
    s1: "user_puts L (dir_row ?d (unat i)) 0x9 sh = Some (Inr s1)" "same_view sh s1" "shell_ok s1"
      "screen s1 = fold write_on [(9, c_string (dir_row ?d (unat i)))] (screen sh)" unfolding inks .
  have b1: "buffer_index s1 = buffer_index sh" using s1(2) by (simp add: same_view_def same_place_def)
  have last: "ucast i \<noteq> buffer_index sh \<longleftrightarrow> unat i \<noteq> ?n" by (simp add: word_unat_eq_iff)
  obtain s2 where s2: "(if ucast i \<noteq> buffer_index s1 then user_puts L (c_literal ''/'') 0x9 s1 else Some (Inr s1)) = Some (Inr s2)"
      "same_view s1 s2" "screen s2 = fold write_on (if unat i \<noteq> ?n then [(9, str ''/'')] else []) (screen s1)"
  proof (cases "unat i = ?n")
    case True
    then show thesis using that [of s1] last by (simp add: b1 view.same_refl)
  next
    case False
    have "out.emits (user_puts L (c_literal ''/'') 0x9) [(ink 0x9, str ''/'')]"
      by (rule literal_emits [OF L _ slash]) simp
    from out.emitsE [OF this s1(3)] obtain u where u: "user_puts L (c_literal ''/'') 0x9 s1 = Some (Inr u)" "same_view s1 u"
      "screen u = fold write_on [(9, str ''/'')] (screen s1)" unfolding inks .
    with that [of u] False last show thesis by (simp add: b1)
  qed
  have v: "same_view sh s2" by (rule view.same_trans [OF s1(2) s2(2)])
  have ok2: "shell_ok s2" by (rule view.same_ok [OF v Suc.prems])
  have b2: "buffer_index s2 = buffer_index sh" "dir_buff s2 = ?d" using v by (simp_all add: same_view_def same_place_def)
  have i1: "unat (i + 1) = Suc (unat i)" using i(2) by (simp add: unat_word_ariths)
  then have "k = Suc (unat (buffer_index s2)) - unat (i + 1)" using Suc.hyps(2) b2 by simp
  from Suc.hyps(1) [OF this ok2] have "returns (prompt_loop L (i + 1) s2) (\<lambda>t. same_view sh t
      \<and> screen t = fold write_on (path_text ?d ?n (unat i)) (screen sh))"
    unfolding b2 i1 path_text_Suc [OF le] row_text_def
    by (elim returns_mono) (auto simp: s2(3) s1(4) intro: view.same_trans [OF v])
  then show ?case by (subst prompt_loop.simps) (simp add: i(1) s1(1) s2(1))
qed

definition prompt_text :: "byte list \<Rightarrow> nat \<Rightarrow> (u8 \<times> byte list) list" where
  "prompt_text d n = [(5, str ''Istiqomah@OS-IF2230:''), (9, str ''/'')] @ path_text d n 0 @ [(7, str ''$ '')]"

text \<open>The row of the current directory gets its name, without a terminator.\<close>

lemma set_row_fold:
  "n \<le> length nm \<Longrightarrow> k + n \<le> length d \<Longrightarrow>
   fold (\<lambda>j d. d[k + j := nm ! j]) [0..<n] d = take k d @ take n nm @ drop (k + n) d"
proof (induction n)
  case 0
  then show ?case by simp
next
  case (Suc n)
  have "drop (k + n) d = d ! (k + n) # drop (Suc (k + n)) d"
    using Suc.prems(2) by (intro Cons_nth_drop_Suc [symmetric]) simp
  then show ?case using Suc by (simp add: list_update_append take_Suc_conv_app_nth)
qed

lemma set_dir_row_eq:
  "length nm = 8 \<Longrightarrow> 8 * i + 8 \<le> length d \<Longrightarrow> set_dir_row i nm d = take (8 * i) d @ nm @ drop (8 * i + 8) d"
  using set_row_fold [of 8 nm "8 * i" d] by (simp add: set_dir_row_def)

lemma dir_row_set:
  "length nm = 8 \<Longrightarrow> 8 * i + 8 \<le> length d \<Longrightarrow> dir_row (set_dir_row i nm d) i = nm @ dir_row d (Suc i)"
  by (simp add: dir_row_def set_dir_row_eq add.commute)

lemma prompt_emits:
  assumes L: "text_area L" and sh: "shell_ok sh"
  shows "returns (cetak_prompt L sh) (\<lambda>t. same_place sh t \<and> at_home t
    \<and> dir_buff t = set_dir_row (unat (buffer_index sh)) (name (dir_at (storage (disk sh)) (currentDirCluster sh) ! 0)) (dir_buff sh)
    \<and> screen t = fold write_on (prompt_text (dir_buff t) (unat (buffer_index sh))) (screen sh))"
proof -
  let ?puts = "user_puts L (c_literal ''Istiqomah@OS-IF2230:'') 0x5" and ?slash = "user_puts L (c_literal ''/'') 0x9"
  let ?head = "[(5, str ''Istiqomah@OS-IF2230:''), (9, str ''/'')] :: (u8 \<times> byte list) list"
  have lit: "0 \<notin> set (str ''Istiqomah@OS-IF2230:'')" "0 \<notin> set (str ''/'')" "0 \<notin> set (str ''$ '')" by code_simp+
  obtain s1 where s1: "currentDir_call L 3 (currentDirCluster sh) sh = Some (Inr s1)" "same_place sh s1" "at_home s1"
    "screen s1 = screen sh" "s1 = (loaded L (currentDirCluster sh) sh)\<lparr>currentDir := dir_at (storage (disk sh)) (currentDirCluster sh)\<rparr>"
    using load_emits [OF L sh] by (auto simp: load_eq)
  have ok1: "shell_ok s1" by (rule place.same_ok [OF s1(2) sh])
  have "list_all2 out.emits [?puts, ?slash] [[(ink 0x5, str ''Istiqomah@OS-IF2230:'')], [(ink 0x9, str ''/'')]]"
    using literal_emits [OF L _ lit(1)] literal_emits [OF L _ lit(2)] by simp
  from out.emits_block [OF this] have "out.emits (block [?puts, ?slash]) ?head" by (simp add: inks del: block.simps)
  from out.emitsE [OF this ok1] obtain s2 where s2: "block [?puts, ?slash] s1 = Some (Inr s2)" "same_view s1 s2" "shell_ok s2"
    "screen s2 = fold write_on ?head (screen s1)" .
  have b2: "unat (buffer_index s2) < 256" using s2(3) by (simp add: shell_ok_def)
  have ok3: "shell_ok (show_place s2)" by (rule show_place_ok [OF s2(3)])
  let ?d = "dir_buff (show_place (sh\<lparr>currentDir := dir_at (storage (disk sh)) (currentDirCluster sh)\<rparr>))"
  have sp: "screen (show_place s2) = screen s2" by (simp add: screen_def show_place_def user_memory_def)
  have dl: "dir_buff (loaded L c sh) = dir_buff sh" "buffer_index (loaded L c sh) = buffer_index sh" for c
    using loaded_view [of sh L c] by (simp_all add: same_view_def same_place_def)
  then have d: "dir_buff (show_place s2) = ?d" "buffer_index (show_place s2) = buffer_index sh"
    using s2(2) s1(5) by (simp_all add: show_place_def same_view_def same_place_def)
  obtain s4 where s4: "prompt_loop L 0 (show_place s2) = Some (Inr s4)" "same_view (show_place s2) s4"
    "screen s4 = fold write_on (path_text ?d (unat (buffer_index sh)) 0) (screen s2)"
    using prompt_loop_screen [OF L ok3, of 0] unfolding d sp by (auto elim: returnsE)
  have "out.emits (user_puts L (c_literal ''$ '') 0x7) [(ink 0x7, str ''$ '')]" by (rule literal_emits [OF L _ lit(3)]) simp
  from out.emitsE [OF this view.same_ok [OF s4(2) ok3]] obtain s5 where
    s5: "user_puts L (c_literal ''$ '') 0x7 s4 = Some (Inr s5)" "same_view s4 s5"
      "screen s5 = fold write_on [(7, str ''$ '')] (screen s4)" unfolding inks .
  have "cetak_prompt L sh = Some (Inr s5)" by (rule prompt_run [OF s1(1) s2(1) b2 s4(1) s5(1)])
  moreover have v: "same_view (show_place s2) s5" by (rule view.same_trans [OF s4(2) s5(2)])
  have "same_place s2 s5" by (rule place.same_trans [OF show_place_same view_place [OF v]])
  then have "same_place sh s5" using place.same_trans [OF s1(2) place.same_trans [OF view_place [OF s2(2)]]] by blast
  moreover have "at_home s5"
    using at_home_view [OF v] at_home_view [OF s2(2)] s1(3) by (simp add: at_home_def show_place_def)
  moreover have d5: "dir_buff s5 = ?d" using v d(1) by (simp add: same_view_def)
  moreover have "screen s5 = fold write_on (prompt_text ?d (unat (buffer_index sh))) (screen sh)"
    by (simp only: s5(3) s4(3) s2(4) s1(4) prompt_text_def fold_append comp_apply)
  moreover have "?d = set_dir_row (unat (buffer_index sh)) (name (dir_at (storage (disk sh)) (currentDirCluster sh) ! 0)) (dir_buff sh)"
    by (simp add: show_place_def)
  ultimately show ?thesis by (simp add: returns_def)
qed

end
