(* ===== verification/Shell_Keys.thy ===== *)
theory Shell_Keys
  imports Shell_Typing Shell_Copy
begin

unbundle bit_operations_syntax

text \<open>
  What no command of the shell touches. \<open>kept_value\<close> is the contract of statements that leave a part
  of the state alone whenever they return, \<open>quiet_value\<close> that of parts which every command leaves
  alone. Two parts meet it: \<open>keys\<close>, the switches of the keyboard driver and its one-character buffer,
  so a line can be typed after the command; and \<open>dir_buff\<close>, the names that the prompt shows.
\<close>

section \<open>Parts of the state that statements leave alone\<close>

lemma bind_runE:
  assumes "bind_run x f = Some (Inr t)"
  obtains s where "x = Some (Inr s)" "f s = Some (Inr t)"
  using assms by (auto simp: bind_run_def split: option.splits sum.splits)

locale kept_value =
  fixes val :: "'s \<Rightarrow> 'v"
begin

definition leaves :: "('s \<Rightarrow> 's run) \<Rightarrow> bool" where
  "leaves f \<longleftrightarrow> (\<forall>s t. f s = Some (Inr t) \<longrightarrow> val t = val s)"

lemma leavesI: "(\<And>s t. f s = Some (Inr t) \<Longrightarrow> val t = val s) \<Longrightarrow> leaves f"
  by (simp add: leaves_def)

lemma leavesD: "leaves f \<Longrightarrow> f s = Some (Inr t) \<Longrightarrow> val t = val s"
  by (simp add: leaves_def)

lemma leaves_bind: "leaves f \<Longrightarrow> leaves g \<Longrightarrow> leaves (\<lambda>s. bind_run (f s) g)"
proof (rule leavesI)
  fix s t assume k: "leaves f" "leaves g" and "bind_run (f s) g = Some (Inr t)"
  then obtain u where u: "f s = Some (Inr u)" "g u = Some (Inr t)" by (elim bind_runE)
  show "val t = val s" using leavesD [OF k(1) u(1)] leavesD [OF k(2) u(2)] by simp
qed

lemma leaves_block: "list_all leaves fs \<Longrightarrow> leaves (block fs)"
proof (induction fs)
  case Nil
  show ?case by (simp add: leaves_def)
next
  case (Cons f fs)
  then have "leaves (\<lambda>s. bind_run (f s) (block fs))" by (intro leaves_bind) simp_all
  moreover have "block (f # fs) = (\<lambda>s. bind_run (f s) (block fs))" by (rule ext) simp
  ultimately show ?case by simp
qed

text \<open>Statements that read the state to decide what they do.\<close>

lemma leaves_value: "(\<And>s a. leaves (f s a)) \<Longrightarrow> leaves (\<lambda>s. with_value (x s) (f s) s)"
proof (rule leavesI)
  fix s t assume k: "\<And>s a. leaves (f s a)" and "with_value (x s) (f s) s = Some (Inr t)"
  then obtain a where a: "f s a s = Some (Inr t)" by (cases "x s") auto
  show "val t = val s" by (rule leavesD [OF k a])
qed

lemma leaves_if: "leaves f \<Longrightarrow> leaves g \<Longrightarrow> leaves (\<lambda>s. if P s then f s else g s)"
  by (simp add: leaves_def)

lemma leaves_fault: "leaves (\<lambda>s. Some (Inl e))"
  by (simp add: leaves_def)

lemma leaves_at: "(\<And>s. leaves (f s)) \<Longrightarrow> leaves (\<lambda>s. f s s)"
  by (simp add: leaves_def)

end

section \<open>Statements of the shell\<close>

text \<open>
  A part of the shell's state that no system call of a command touches and that does not depend on
  the variables which commands set is left alone by every command.
\<close>

locale quiet_value = kept_value val for val :: "shell \<Rightarrow> 'v" +
  assumes user_syscall_leaves: "eax \<noteq> 4 \<Longrightarrow> eax \<noteq> 7 \<Longrightarrow> leaves (user_syscall eax ebx ecx edx)"
    and val_update [simp]: "val (put_object p bs sh) = val sh" "val (sh\<lparr>currentDir := es\<rparr>) = val sh"
      "val (sh\<lparr>currentDirCluster := c\<rparr>) = val sh" "val (sh\<lparr>buffer_index := i\<rparr>) = val sh"
      "val (sh\<lparr>parent_clusters := ps\<rparr>) = val sh"
begin

lemma puts_at_leaves: "leaves (puts_at p n color)"
proof (rule leavesI)
  fix s t assume "puts_at p n color s = Some (Inr t)"
  then obtain count where "user_syscall 6 p count color s = Some (Inr t)"
    by (cases "strLength (mem_read (user_memory s) p n)") (auto simp: puts_at_def)
  then show "val t = val s" by (rule leavesD [OF user_syscall_leaves, rotated 2]) simp_all
qed

lemma user_puts_leaves: "leaves (user_puts L obj color)"
proof (rule leavesI)
  fix s t assume "user_puts L obj color s = Some (Inr t)"
  then have "puts_at (at_text L) (length obj) color (put_object (at_text L) obj s) = Some (Inr t)"
    by (simp add: user_puts_def)
  from leavesD [OF puts_at_leaves this] show "val t = val s" by simp
qed

lemma currentDir_leaves: "eax \<noteq> 4 \<Longrightarrow> eax \<noteq> 7 \<Longrightarrow> leaves (\<lambda>sh. currentDir_call L eax (f sh) sh)"
proof (rule leavesI)
  fix s t assume e: "eax \<noteq> 4" "eax \<noteq> 7" and r: "currentDir_call L eax (f s) s = Some (Inr t)"
  from r obtain u where u: "user_syscall eax (f s) (at_dir L) 1 (put_object (at_dir L) (encode_table (currentDir s)) s)
      = Some (Inr u)" "val t = val u"
    by (auto simp: currentDir_call_def elim!: bind_runE)
  then show "val t = val s" using leavesD [OF user_syscall_leaves [OF e] u(1)] by simp
qed

lemma file_call_leaves:
  assumes "eax \<noteq> 4" and "eax \<noteq> 7" and "\<And>c. leaves (rest c)"
  shows "leaves (file_call L eax r rest)"
proof (rule leavesI)
  fix s t assume "file_call L eax r rest s = Some (Inr t)"
  then obtain u where u: "user_syscall eax (at_request L) (at_code L) 0 (put_object (at_request L) (encode_request r) s)
      = Some (Inr u)" "rest (user_memory u (at_code L)) u = Some (Inr t)"
    by (auto simp: file_call_def elim!: bind_runE)
  then show "val t = val s"
    using leavesD [OF user_syscall_leaves [OF assms(1,2)] u(1)] leavesD [OF assms(3) u(2)] by simp
qed

lemmas statement_leaves = puts_at_leaves user_puts_leaves currentDir_leaves leaves_block

text \<open>The commands.\<close>

lemma prompt_loop_leaves: "leaves (prompt_loop L i)"
proof -
  have "\<forall>t. x = Inr t \<longrightarrow> val t = val s" if "prompt_loop L i s = Some x" for s x
  proof (rule prompt_loop.raw_induct [where P = "\<lambda>L i s x. \<forall>t. x = Inr t \<longrightarrow> val t = val s", OF _ that])
    fix loop :: "shell_layout \<Rightarrow> u8 \<Rightarrow> shell \<Rightarrow> shell run" and L i sh x
    assume IH: "\<And>L i sh y. loop L i sh = Some y \<Longrightarrow> \<forall>t. y = Inr t \<longrightarrow> val t = val sh"
      and r: "(if ucast i \<le> buffer_index sh
         then case user_puts L (dir_row (dir_buff sh) (unat i)) 9 sh of
             None \<Rightarrow> None
           | Some (Inl e) \<Rightarrow> Some (Inl e)
           | Some (Inr s1) \<Rightarrow>
               case if ucast i \<noteq> buffer_index s1 then user_puts L (c_literal ''/'') 9 s1 else Some (Inr s1) of
                 None \<Rightarrow> None | Some (Inl e) \<Rightarrow> Some (Inl e) | Some (Inr s2) \<Rightarrow> loop L (i + 1) s2
         else Some (Inr sh)) = Some x"
    show "\<forall>t. x = Inr t \<longrightarrow> val t = val sh"
    proof (intro allI impI)
      fix t assume t: "x = Inr t"
      show "val t = val sh"
      proof (cases "ucast i \<le> buffer_index sh")
        case True
        with r t obtain s1 s2 where s1: "user_puts L (dir_row (dir_buff sh) (unat i)) 9 sh = Some (Inr s1)"
          and s2: "(if ucast i \<noteq> buffer_index s1 then user_puts L (c_literal ''/'') 9 s1 else Some (Inr s1)) = Some (Inr s2)"
          and l: "loop L (i + 1) s2 = Some (Inr t)"
          by (auto split: option.splits sum.splits)
        have "val t = val s2" using IH [OF l] by simp
        also have "\<dots> = val s1"
          using s2 leavesD [OF user_puts_leaves, of L "c_literal ''/''" 9 s1 s2] by (auto split: if_splits)
        also have "\<dots> = val sh" by (rule leavesD [OF user_puts_leaves s1])
        finally show ?thesis .
      qed (use r t in simp)
    qed
  qed
  then show ?thesis by (intro leavesI) blast
qed

lemma cat_error_leaves: "leaves (cat_error L filename c)"
  by (simp add: cat_error_def statement_leaves)

lemmas command_leaves = leaves_if leaves_value leaves_fault file_call_leaves leaves_block

lemma mkdir_leaves: "leaves (shell_mkdir L f)"
  unfolding shell_mkdir_def [abs_def] by (intro command_leaves) (simp_all add: statement_leaves)

lemma rm_leaves: "leaves (rm L f)" and rmNoPrint_leaves: "leaves (rmNoPrint L f)"
  unfolding rm_def [abs_def] rmNoPrint_def [abs_def] by (intro command_leaves; simp add: statement_leaves)+

lemma ls_leaves: "leaves (ls L)"
proof -
  have "leaves (ls_entry L e)" for e by (simp add: ls_entry_def statement_leaves)
  then have "leaves (\<lambda>sh. block (map (ls_entry L) (drop 2 (currentDir sh))) sh)"
    using leaves_at [of "\<lambda>sh. block (map (ls_entry L) (drop 2 (currentDir sh)))"] leaves_block
    by (simp add: list_all_iff)
  then show ?thesis by (simp add: ls_def statement_leaves)
qed

lemma find_leaves: "leaves (shell_find L f)"
proof -
  have "leaves (find_loop L f es)" for es
  proof (induction es)
    case Nil
    show ?case by (simp add: statement_leaves)
  next
    case (Cons e es)
    then show ?case
      unfolding find_loop.simps by (intro command_leaves) (simp_all add: statement_leaves)
  qed
  then show ?thesis unfolding shell_find_def [abs_def] by (rule leaves_at)
qed

lemma cat_leaves: "leaves (cat L f)" and cp_leaves: "leaves (cp L f)"
  unfolding cat_def [abs_def] cp_def [abs_def]
  by (intro command_leaves; simp add: statement_leaves cat_error_leaves)+

lemma cd_leaves_value: "leaves (cd L f)" and cdNoPrint_leaves: "leaves (cdNoPrint L f)"
proof -
  have go: "leaves (\<lambda>sh. Some (Inr (g sh)))" if "\<And>sh. val (g sh) = val sh" for g :: "shell \<Rightarrow> shell"
    using that by (simp add: leaves_def)
  have loop: "leaves (cd_loop L say f es)" if say: "\<And>bs c. leaves (say bs c)" for say es
  proof (induction es)
    case Nil
    show ?case using say by simp
  next
    case (Cons e es)
    have "leaves (cd_parent L say)" "leaves (cd_child L e)"
      unfolding cd_parent_def [abs_def] cd_child_def [abs_def]
      by (intro command_leaves; simp add: statement_leaves say go)+
    with Cons have "leaves (\<lambda>sh. with_value (strCompare (fullname e) (buff_object f))
        (\<lambda>equal. if equal \<and> attribute e AND 0x10 \<noteq> 0 then cd_child L e else cd_loop L say f es) sh)"
      by (intro leaves_value) simp
    with Cons \<open>leaves (cd_parent L say)\<close> show ?case unfolding cd_loop.simps by (intro command_leaves) simp_all
  qed
  show "leaves (cd L f)" "leaves (cdNoPrint L f)"
    unfolding cd_def [abs_def] cdNoPrint_def [abs_def]
    using leaves_at [of "\<lambda>sh. cd_loop L (user_puts L) f (currentDir sh)"]
      leaves_at [of "\<lambda>sh. cd_loop L (\<lambda>_ _. block []) f (currentDir sh)"]
    by (intro leaves_if; simp add: statement_leaves loop)+
qed

end

section \<open>The keyboard\<close>

definition switches :: "keyboard \<Rightarrow> bool \<times> bool \<times> bool \<times> byte" where
  "switches k = (keyboard_input_on k, key_pressed k, backspace_pressed k, keyboard_buffer k)"

definition keys :: "shell \<Rightarrow> bool \<times> bool \<times> bool \<times> byte" where
  "keys sh = switches (kbd (tty (sys sh)))"

lemma put_char_switches [simp]: "switches (kbd (put_char fg bg ch c)) = switches (kbd c)"
  by (simp add: put_char_def Let_def switches_def)

lemma puts_switches: "switches (kbd (puts s n attr c)) = switches (kbd c)"
proof -
  have "switches (kbd (puts_loop s n fg bg c)) = switches (kbd c)" for n fg bg
    by (induction s n fg bg c rule: puts_loop.induct) simp_all
  then show ?thesis by (simp add: puts_def)
qed

lemma return_code_switches: "return_code p k res = Some (Inr k') \<Longrightarrow> tty k' = tty k"
  by (cases res; cases "the res") (auto simp: return_code_def split: prod.splits)

text \<open>Of the system calls only 4 and 7 touch the driver.\<close>

lemma syscall_tty:
  assumes "eax \<noteq> 4" and "eax \<noteq> 7" and "syscall (call_frame eax ebx ecx edx) k = Some (Inr k')"
  shows "switches (kbd (tty k')) = switches (kbd (tty k))"
  using assms
  by (auto simp: syscall_def Let_def with_console_def puts_switches split: if_splits
      dest: return_code_switches)

interpretation keys: quiet_value keys
proof
  show "kept_value.leaves keys (user_syscall eax ebx ecx edx)" if "eax \<noteq> 4" "eax \<noteq> 7" for eax ebx ecx edx
    using that by (intro kept_value.leavesI)
      (auto simp: user_syscall_def keys_def elim!: bind_runE dest!: syscall_tty)
qed (simp_all add: keys_def put_object_def)

lemma prompt_leaves_keys: "keys.leaves (cetak_prompt L)"
proof -
  have "keys.leaves (\<lambda>sh. (if unat (buffer_index sh) < 256
      then Some (Inr (sh\<lparr>dir_buff := set_dir_row (unat (buffer_index sh)) (name (currentDir sh ! 0)) (dir_buff sh)\<rparr>))
      else Some (Inl OutOfBounds)))"
    by (rule keys.leavesI) (auto simp: keys_def split: if_splits)
  then show ?thesis
    unfolding cetak_prompt_def
    by (intro keys.leaves_block) (simp add: keys.statement_leaves keys.prompt_loop_leaves)
qed

text \<open>The names of the open directories are another such part; only the prompt sets them.\<close>

interpretation rows: quiet_value dir_buff
proof
  show "kept_value.leaves dir_buff (user_syscall eax ebx ecx edx)" for eax ebx ecx edx
    by (intro kept_value.leavesI) (auto simp: user_syscall_def elim!: bind_runE)
qed (simp_all add: put_object_def)

end
