(* ===== verification/Shell_Tree.thy ===== *)
theory Shell_Tree
  imports Shell_Screen Shell_Keys
begin

unbundle bit_operations_syntax

text \<open>
  The shell against an abstract directory tree. A \<open>tree\<close> has the maps of all folders, the folder the
  user is in and the folders above it. \<open>tree_step\<close> says what each command may do to it, \<open>tree_ok\<close> is
  its invariant: the path leads from the root to where the user is. \<open>tree_of\<close> abstracts a shell; every
  acceptable command returns and is a step of the tree.
\<close>

section \<open>The abstract tree\<close>

record tree =
  folders :: "u32 set"
  nodes :: "u32 \<Rightarrow> byte list \<times> byte list \<Rightarrow> node option"
  here :: u32
  above :: "u32 list"

datatype command = Cd "byte list" | Ls | Mkdir "byte list" | Cat "byte list" | Rm "byte list" | Cp "byte list"
  | Find "byte list" | Unknown "byte list"

abbreviation (input) key where "key nm \<equiv> (padded nm, replicate 3 (0 :: byte))"

definition put_node :: "byte list \<times> byte list \<Rightarrow> node \<Rightarrow> tree \<Rightarrow> tree" where
  "put_node k n t =
     (let t = t\<lparr>nodes := (nodes t)(here t := (nodes t (here t))(k \<mapsto> n))\<rparr>
      in case n of File bs \<Rightarrow> t
         | Folder c \<Rightarrow> t\<lparr>folders := insert c (folders t), nodes := (nodes t)(c := Map.empty)\<rparr>)"

definition drop_node :: "byte list \<times> byte list \<Rightarrow> tree \<Rightarrow> tree" where
  "drop_node k t =
     (let t' = t\<lparr>nodes := (nodes t)(here t := (nodes t (here t))(k := None))\<rparr>
      in case nodes t (here t) k of Some (Folder c) \<Rightarrow> t'\<lparr>folders := folders t - {c}\<rparr> | _ \<Rightarrow> t')"

text \<open>
  Creating a node may fail for reasons that the tree does not have: the table or the device may be
  full. A step has a flag that says whether there is room and the name is free; a creation then
  happens exactly when the flag is set. A file is copied up to its first zero, and is a folder when
  nothing is left.
\<close>

definition fresh_node :: "tree \<Rightarrow> node \<Rightarrow> bool" where
  "fresh_node t n \<longleftrightarrow> (\<forall>c. n = Folder c \<longrightarrow> c \<notin> folders t)"

definition removable :: "tree \<Rightarrow> node \<Rightarrow> bool" where
  "removable t n \<longleftrightarrow> (\<forall>c. n = Folder c \<longrightarrow> nodes t c = Map.empty)"

inductive tree_step :: "bool \<Rightarrow> tree \<Rightarrow> command \<Rightarrow> tree \<Rightarrow> bool" for able where
  look: "cmd = Ls \<or> cmd = Cat nm \<or> cmd = Find nm \<or> cmd = Unknown nm \<Longrightarrow> tree_step able t cmd t"
| enter: "nm \<noteq> dots \<Longrightarrow> nodes t (here t) k = Some (Folder c) \<Longrightarrow> c_string (fst k) = nm \<Longrightarrow>
    tree_step able t (Cd nm) (t\<lparr>here := c, above := above t @ [here t]\<rparr>)"
| no_entry: "nm \<noteq> dots \<Longrightarrow> 8 < length nm \<or> (\<forall>k c. nodes t (here t) k = Some (Folder c) \<longrightarrow> c_string (fst k) \<noteq> nm) \<Longrightarrow>
    tree_step able t (Cd nm) t"
| leave: "above t \<noteq> [] \<Longrightarrow> tree_step able t (Cd dots) (t\<lparr>here := last (above t), above := butlast (above t)\<rparr>)"
| at_root: "above t = [] \<Longrightarrow> tree_step able t (Cd dots) t"
| make: "able \<Longrightarrow> nodes t (here t) (key nm) = None \<Longrightarrow> c \<notin> folders t \<Longrightarrow> tree_step able t (Mkdir nm) (put_node (key nm) (Folder c) t)"
| no_make: "\<not> able \<Longrightarrow> tree_step able t (Mkdir nm) t"
| remove: "nodes t (here t) (key nm) = Some n \<Longrightarrow> removable t n \<Longrightarrow> tree_step able t (Rm nm) (drop_node (key nm) t)"
| no_remove: "nodes t (here t) (key nm) = None \<or> nodes t (here t) (key nm) = Some n \<and> \<not> removable t n \<or> 8 < length nm \<Longrightarrow>
    tree_step able t (Rm nm) t"
| copy: "able \<Longrightarrow> nodes t (here t) (key nm) = Some (File bs) \<Longrightarrow> n = (if c_string bs = [] then Folder c else File (c_string bs)) \<Longrightarrow>
    fresh_node t n \<Longrightarrow> nodes t (here t) (copy_name_literal, replicate 3 0) = None \<Longrightarrow>
    tree_step able t (Cp nm) (put_node (copy_name_literal, replicate 3 0) n t)"
| no_copy: "\<not> able \<Longrightarrow> tree_step able t (Cp nm) t"

inductive_cases tree_stepE:
  "tree_step able t (Cd nm) t'" "tree_step able t (Mkdir nm) t'" "tree_step able t (Rm nm) t'" "tree_step able t (Cp nm) t'"

definition linked :: "tree \<Rightarrow> u32 \<Rightarrow> u32 \<Rightarrow> bool" where
  "linked t d c \<longleftrightarrow> (\<exists>k. nodes t d k = Some (Folder c))"

definition closed :: "tree \<Rightarrow> bool" where
  "closed t \<longleftrightarrow> ROOT_CLUSTER_NUMBER \<in> folders t
     \<and> (\<forall>d c. linked t d c \<longrightarrow> d \<in> folders t \<and> c \<in> folders t \<and> c \<noteq> ROOT_CLUSTER_NUMBER)
     \<and> (\<forall>d k d' k' c. nodes t d k = Some (Folder c) \<and> nodes t d' k' = Some (Folder c) \<longrightarrow> d' = d \<and> k' = k)"

definition path :: "tree \<Rightarrow> u32 list" where
  "path t = above t @ [here t]"

definition tree_ok :: "tree \<Rightarrow> bool" where
  "tree_ok t \<longleftrightarrow> closed t \<and> hd (path t) = ROOT_CLUSTER_NUMBER \<and> successively (linked t) (path t)"

lemma path_in_folders: "tree_ok t \<Longrightarrow> d \<in> set (path t) \<Longrightarrow> d \<in> folders t"
proof -
  assume t: "tree_ok t" and "d \<in> set (path t)"
  then obtain i where i: "i < length (path t)" "d = path t ! i" by (auto simp: in_set_conv_nth)
  show ?thesis
  proof (cases i)
    case 0
    then show ?thesis using t i by (simp add: tree_ok_def closed_def hd_conv_nth path_def)
  next
    case (Suc j)
    then have "linked t (path t ! j) d" using t i by (simp add: tree_ok_def successively_conv_nth)
    then show ?thesis using t unfolding tree_ok_def closed_def by blast
  qed
qed

text \<open>Only the root has an empty path above it, and a folder on the path above is not empty.\<close>

lemma above_root: "tree_ok t \<Longrightarrow> above t = [] \<longleftrightarrow> here t = ROOT_CLUSTER_NUMBER"
proof -
  assume t: "tree_ok t"
  have "here t \<noteq> ROOT_CLUSTER_NUMBER" if "above t \<noteq> []"
  proof -
    have "linked t (last (above t)) (here t)"
      using t that by (simp add: tree_ok_def path_def successively_append_iff)
    then show ?thesis using t unfolding tree_ok_def closed_def by blast
  qed
  then show ?thesis using t by (auto simp: tree_ok_def path_def)
qed

lemma path_link: "tree_ok t \<Longrightarrow> Suc i < length (path t) \<Longrightarrow> linked t (path t ! i) (path t ! Suc i)"
  by (simp add: tree_ok_def successively_conv_nth)

lemma path_after:
  assumes "tree_ok t" and "closed t'" and "path t' = path t"
    and "\<And>i. Suc i < length (path t) \<Longrightarrow> linked t' (path t ! i) (path t ! Suc i)"
  shows "tree_ok t'"
  using assms by (simp add: tree_ok_def successively_conv_nth)

section \<open>The steps keep the invariant\<close>

lemma put_node_sel:
  "nodes (put_node k n t) d k' = (if n = Folder d then None else if d = here t \<and> k' = k then Some n else nodes t d k')"
  "folders (put_node k n t) = folders t \<union> {c. n = Folder c}"
  "here (put_node k n t) = here t" "above (put_node k n t) = above t"
  by (auto simp: put_node_def Let_def split: node.split)

lemma drop_node_sel:
  "nodes (drop_node k t) d k' = (if d = here t \<and> k' = k then None else nodes t d k')"
  "folders (drop_node k t) = folders t - {c. nodes t (here t) k = Some (Folder c)}"
  "here (drop_node k t) = here t" "above (drop_node k t) = above t"
  by (auto simp: drop_node_def Let_def split: option.split node.split)

lemma here_folder: "tree_ok t \<Longrightarrow> here t \<in> folders t"
  by (rule path_in_folders) (simp_all add: path_def)

lemma closedD:
  assumes "closed t" and "nodes t d k = Some (Folder c)"
  shows "d \<in> folders t" and "c \<in> folders t" and "c \<noteq> ROOT_CLUSTER_NUMBER"
    and "nodes t d' k' = Some (Folder c) \<Longrightarrow> d' = d \<and> k' = k"
  using assms unfolding closed_def linked_def by blast+

lemma closedI:
  assumes "ROOT_CLUSTER_NUMBER \<in> folders t"
    and "\<And>d k c. nodes t d k = Some (Folder c) \<Longrightarrow> d \<in> folders t \<and> c \<in> folders t \<and> c \<noteq> ROOT_CLUSTER_NUMBER"
    and "\<And>d k d' k' c. nodes t d k = Some (Folder c) \<Longrightarrow> nodes t d' k' = Some (Folder c) \<Longrightarrow> d' = d \<and> k' = k"
  shows "closed t"
  using assms unfolding closed_def linked_def by blast

lemma put_node_closed:
  assumes t: "tree_ok t" and k: "nodes t (here t) k = None" and n: "fresh_node t n"
  shows "closed (put_node k n t)"
proof (rule closedI)
  have cl: "closed t" using t by (simp add: tree_ok_def)
  then have root: "ROOT_CLUSTER_NUMBER \<in> folders t" by (simp add: closed_def)
  then show "ROOT_CLUSTER_NUMBER \<in> folders (put_node k n t)" by (simp add: put_node_sel)
  have new: "c \<notin> folders t" if "n = Folder c" for c using n that by (simp add: fresh_node_def)
  have old: "(n = Folder c \<and> d = here t \<and> k' = k) \<or> (n \<noteq> Folder c \<and> nodes t d k' = Some (Folder c))"
    if "nodes (put_node k n t) d k' = Some (Folder c)" for d k' c
    using that new closedD(2) [OF cl] unfolding put_node_sel by (metis option.distinct(1) option.inject)
  show "d \<in> folders (put_node k n t) \<and> c \<in> folders (put_node k n t) \<and> c \<noteq> ROOT_CLUSTER_NUMBER"
    if a: "nodes (put_node k n t) d k' = Some (Folder c)" for d k' c
    using old [OF a] closedD(1-3) [OF cl] here_folder [OF t] new root unfolding put_node_sel by blast
  show "d' = d \<and> k2 = k1" if a: "nodes (put_node k n t) d k1 = Some (Folder c)" "nodes (put_node k n t) d' k2 = Some (Folder c)"
    for d k1 d' k2 c
    using old [OF a(1)] old [OF a(2)] closedD(4) [OF cl] by blast
qed

lemma put_node_ok:
  assumes t: "tree_ok t" and k: "nodes t (here t) k = None" and n: "fresh_node t n"
  shows "tree_ok (put_node k n t)"
proof (rule path_after [OF t put_node_closed [OF assms]])
  show p: "path (put_node k n t) = path t" by (simp add: path_def put_node_sel)
  fix i assume i: "Suc i < length (path t)"
  obtain k' where k': "nodes t (path t ! i) k' = Some (Folder (path t ! Suc i))" using path_link [OF t i] by (auto simp: linked_def)
  have "path t ! i \<in> folders t" using i by (intro path_in_folders [OF t]) simp
  then have "n \<noteq> Folder (path t ! i)" using n by (auto simp: fresh_node_def)
  moreover have "\<not> (path t ! i = here t \<and> k' = k)" using k k' by auto
  ultimately have "nodes (put_node k n t) (path t ! i) k' = Some (Folder (path t ! Suc i))" using k' by (auto simp: put_node_sel)
  then show "linked (put_node k n t) (path t ! i) (path t ! Suc i)" unfolding linked_def by blast
qed

text \<open>A removable node is no folder of the path: these all have an entry.\<close>

lemma path_not_empty:
  assumes t: "tree_ok t" and k: "nodes t (here t) k = Some n" and d: "d \<in> set (path t)"
  shows "nodes t d \<noteq> Map.empty"
proof -
  obtain i where i: "i < length (path t)" "d = path t ! i" using d by (auto simp: in_set_conv_nth)
  show ?thesis
  proof (cases "Suc i < length (path t)")
    case True
    then show ?thesis using path_link [OF t True] i by (auto simp: linked_def)
  next
    case False
    then have "i = length (above t)" using i by (simp add: path_def)
    then have "d = here t" using i by (simp add: path_def)
    then show ?thesis using k by auto
  qed
qed

lemma drop_node_ok:
  assumes t: "tree_ok t" and k: "nodes t (here t) k = Some n" and r: "removable t n"
  shows "tree_ok (drop_node k t)"
proof (rule path_after [OF t])
  have cl: "closed t" using t by (simp add: tree_ok_def)
  have out: "d \<notin> {c. nodes t (here t) k = Some (Folder c)}" if "nodes t d k' = Some m" for d k' m
    using r k that by (auto simp: removable_def)
  have old: "nodes t d k' = Some (Folder c) \<and> \<not> (d = here t \<and> k' = k)" if "nodes (drop_node k t) d k' = Some (Folder c)" for d k' c
    using that unfolding drop_node_sel by (metis option.distinct(1))
  show "closed (drop_node k t)"
  proof (rule closedI)
    show "ROOT_CLUSTER_NUMBER \<in> folders (drop_node k t)"
      using cl closedD(3) [OF cl] unfolding drop_node_sel closed_def by blast
    show "d \<in> folders (drop_node k t) \<and> c \<in> folders (drop_node k t) \<and> c \<noteq> ROOT_CLUSTER_NUMBER"
      if a: "nodes (drop_node k t) d k' = Some (Folder c)" for d k' c
      using old [OF a] closedD [OF cl, of d k' c] out [of d k' "Folder c"] unfolding drop_node_sel by blast
    show "d' = d \<and> k2 = k1" if a: "nodes (drop_node k t) d k1 = Some (Folder c)" "nodes (drop_node k t) d' k2 = Some (Folder c)"
      for d k1 d' k2 c
      using old [OF a(1)] old [OF a(2)] closedD(4) [OF cl] by blast
  qed
  show p: "path (drop_node k t) = path t" by (simp add: path_def drop_node_sel)
  fix i assume i: "Suc i < length (path t)"
  obtain k' where k': "nodes t (path t ! i) k' = Some (Folder (path t ! Suc i))" using path_link [OF t i] by (auto simp: linked_def)
  have "nodes t (path t ! Suc i) \<noteq> Map.empty" using i by (intro path_not_empty [OF t k]) simp
  then have "\<not> (path t ! i = here t \<and> k' = k)" using k' k r by (auto simp: removable_def)
  then have "nodes (drop_node k t) (path t ! i) k' = Some (Folder (path t ! Suc i))" using k' by (simp add: drop_node_sel)
  then show "linked (drop_node k t) (path t ! i) (path t ! Suc i)" unfolding linked_def by blast
qed

theorem tree_step_ok: "tree_step able t cmd t' \<Longrightarrow> tree_ok t \<Longrightarrow> tree_ok t'"
proof (induction rule: tree_step.induct)
  case (enter nm t k c)
  then have "linked t (here t) c" unfolding linked_def by blast
  moreover have "linked (t\<lparr>here := c, above := above t @ [here t]\<rparr>) = linked t" by (intro ext) (simp add: linked_def)
  moreover have "closed (t\<lparr>here := c, above := above t @ [here t]\<rparr>) = closed t" by (simp add: closed_def linked_def)
  ultimately show ?case
    using enter.prems by (auto simp: tree_ok_def path_def successively_append_iff hd_append split: if_splits)
next
  case (leave t)
  let ?t = "t\<lparr>here := last (above t), above := butlast (above t)\<rparr>"
  have "linked ?t = linked t" by (intro ext) (simp add: linked_def)
  moreover have "closed ?t = closed t" by (simp add: closed_def linked_def)
  moreover have "path ?t = above t" using leave.hyps by (simp add: path_def)
  ultimately show ?case using leave by (auto simp: tree_ok_def path_def successively_append_iff)
next
  case (make t nm c)
  then show ?case by (intro put_node_ok) (simp_all add: fresh_node_def)
next
  case (copy t nm bs n c)
  then show ?case by (intro put_node_ok)
next
  case (remove t nm n)
  then show ?case by (intro drop_node_ok)
qed

section \<open>The tree of a shell\<close>

definition tree_at :: "fs \<Rightarrow> u32 \<Rightarrow> u32 list \<Rightarrow> tree" where
  "tree_at st d ps = \<lparr>folders = dirs st, nodes = (\<lambda>d. if d \<in> dirs st then lookup st d else Map.empty), here = d, above = ps\<rparr>"

definition tree_of :: "shell \<Rightarrow> tree" where
  "tree_of sh = tree_at (disk sh) (currentDirCluster sh) (take (unat (buffer_index sh)) (parent_clusters sh))"

lemma consistent_closed: "consistent st \<Longrightarrow> closed (tree_at st d ps)"
proof (rule closedI)
  assume con: "consistent st"
  show "ROOT_CLUSTER_NUMBER \<in> folders (tree_at st d ps)" by (simp add: tree_at_def dirs.root)
  have at: "d \<in> dirs st \<and> lookup st d k = Some (Folder c)" if "nodes (tree_at st x ps) d k = Some (Folder c)" for x d k c
    using that by (simp add: tree_at_def split: if_splits)
  show "d' \<in> folders (tree_at st d ps) \<and> c \<in> folders (tree_at st d ps) \<and> c \<noteq> ROOT_CLUSTER_NUMBER"
    if "nodes (tree_at st d ps) d' k = Some (Folder c)" for d' k c
  proof -
    have "d' \<in> dirs st" "lookup st d' k = Some (Folder c)" using at [OF that] by simp_all
    then show ?thesis by (auto simp: tree_at_def elim: folder_entry [OF con])
  qed
  show "d2 = d1 \<and> k2 = k1" if a: "nodes (tree_at st d ps) d1 k1 = Some (Folder c)" "nodes (tree_at st d ps) d2 k2 = Some (Folder c)"
    for d1 k1 d2 k2 c
  proof -
    obtain i where i: "(d1, i) \<in> entries st (dirs st)" "entry_key (dir_at (storage st) d1 ! i) = k1"
      "clusters_of (fat_table st) (entry_at st (d1, i)) = [c]"
      by (rule folder_entry [OF con conjunct1 [OF at [OF a(1)]] conjunct2 [OF at [OF a(1)]]])
    obtain j where j: "(d2, j) \<in> entries st (dirs st)" "entry_key (dir_at (storage st) d2 ! j) = k2"
      "clusters_of (fat_table st) (entry_at st (d2, j)) = [c]"
      by (rule folder_entry [OF con conjunct1 [OF at [OF a(2)]] conjunct2 [OF at [OF a(2)]]])
    have "owners_ok st (dirs st)" using con by (simp add: consistent_def fs_inv_def)
    then have "(d1, i) \<noteq> (d2, j) \<longrightarrow> set [c] \<inter> set [c] = {}"
      using i(1,3) j(1,3) unfolding owners_ok_def by metis
    then have "(d1, i) = (d2, j)" by auto
    with i(2) j(2) show ?thesis by simp
  qed
qed

lemma root_tree_ok: "consistent st \<Longrightarrow> tree_ok (tree_at st ROOT_CLUSTER_NUMBER [])"
  using consistent_closed by (simp add: tree_ok_def path_def) (simp add: tree_at_def)

lemma tree_at_same: "same_files a b \<Longrightarrow> tree_at b = tree_at a"
  using same_files_view(2,3) [of a b] by (intro ext) (simp add: tree_at_def cong: if_cong)

text \<open>What the commands do to the device, on the tree.\<close>

lemma node_added_tree:
  assumes "node_added st st' d nm n" and "d \<in> dirs st"
  shows "tree_at st' d ps = put_node (nm, replicate 3 0) n (tree_at st d ps)" and "fresh_node (tree_at st d ps) n"
proof -
  note a = assms(1) [unfolded node_added_def]
  have "nodes (tree_at st' d ps) d' = nodes (put_node (nm, replicate 3 0) n (tree_at st d ps)) d'" for d'
    using a assms(2) by (intro ext) (auto simp: tree_at_def put_node_sel split: node.splits)
  moreover have "folders (tree_at st' d ps) = folders (put_node (nm, replicate 3 0) n (tree_at st d ps))"
    using a by (auto simp: tree_at_def put_node_sel split: node.splits)
  ultimately show "tree_at st' d ps = put_node (nm, replicate 3 0) n (tree_at st d ps)"
    by (intro tree.equality ext) (simp_all add: put_node_sel, simp_all add: tree_at_def)
  show "fresh_node (tree_at st d ps) n" using a by (auto simp: fresh_node_def tree_at_def)
qed

lemma node_removed_tree:
  assumes "node_removed st st' d nm n" and "d \<in> dirs st" and "lookup st d (nm, replicate 3 0) = Some n"
    and "\<And>c. n = Folder c \<Longrightarrow> lookup st c = Map.empty"
  shows "tree_at st' d ps = drop_node (nm, replicate 3 0) (tree_at st d ps)"
proof -
  note a = assms(1) [unfolded node_removed_def]
  have "nodes (tree_at st' d ps) d' = nodes (drop_node (nm, replicate 3 0) (tree_at st d ps)) d'" for d'
    using a assms(2-4) by (intro ext) (auto simp: tree_at_def drop_node_sel split: node.splits)
  moreover have "folders (tree_at st' d ps) = folders (drop_node (nm, replicate 3 0) (tree_at st d ps))"
    using a assms(2,3) by (auto simp: tree_at_def drop_node_sel split: node.splits)
  ultimately show ?thesis
    by (intro tree.equality ext) (simp_all add: drop_node_sel, simp_all add: tree_at_def)
qed

text \<open>And on the names that directories carry.\<close>

lemma node_added_titles:
  assumes con: "consistent st" and d: "d \<in> dirs st" and added: "node_added st st' d nm n"
  shows "keeps_titles st st'"
proof (rule keeps_titlesI [OF con])
  note a = added [unfolded node_added_def]
  show "own_name st' d' = own_name st d'" if "d' \<in> dirs st" for d' using a that by blast
  fix d' k c assume d': "d' \<in> dirs st'" and l: "lookup st' d' k = Some (Folder c)"
  have "c \<in> dirs st'" by (rule folder_entry [OF conjunct1 [OF a] d' l]) simp
  moreover have "d' \<in> dirs st" using a d' l by (auto split: node.splits)
  moreover have "own_name st' c = c_string (fst k)" if "lookup st d' k \<noteq> Some (Folder c)"
    using a l that \<open>d' \<in> dirs st\<close> by (auto split: if_splits)
  ultimately show "c \<in> dirs st' \<and> (d' \<in> dirs st \<and> lookup st d' k = Some (Folder c) \<or> own_name st' c = c_string (fst k))"
    by blast
qed

lemma node_removed_titles:
  assumes con: "consistent st" and removed: "node_removed st st' d nm n"
  shows "keeps_titles st st'"
proof (rule keeps_titlesI [OF con])
  note a = removed [unfolded node_removed_def]
  show "own_name st' d' = own_name st d'" if "d' \<in> dirs st'" for d' using a that by blast
  fix d' k c assume d': "d' \<in> dirs st'" and l: "lookup st' d' k = Some (Folder c)"
  have "c \<in> dirs st'" by (rule folder_entry [OF conjunct1 [OF a] d' l]) simp
  moreover have "d' \<in> dirs st" "lookup st d' k = Some (Folder c)" using a d' l by (auto split: if_splits)
  ultimately show "c \<in> dirs st' \<and> (d' \<in> dirs st \<and> lookup st d' k = Some (Folder c) \<or> own_name st' c = c_string (fst k))"
    by blast
qed

end
