(* ===== verification/Shell_Steps.thy ===== *)
theory Shell_Steps
  imports Shell_Tree
begin

unbundle bit_operations_syntax

text \<open>
  Every acceptable command returns and is a step of the abstract tree. \<open>acceptable\<close> excludes what
  the code does not handle: names longer than a request's field for \<open>cat\<close> and \<open>cp\<close>, the entries of
  the directory itself and of its parent for \<open>cd\<close> and \<open>rm\<close>, a file without a zero byte for \<open>cat\<close>,
  more open folders than the array holds. \<open>mv\<close> depends on bytes that nothing initialises and is
  treated on its own.
\<close>

section \<open>Commands\<close>

fun run_of :: "shell_layout \<Rightarrow> command \<Rightarrow> shell \<Rightarrow> shell run" where
  "run_of L (Cd nm) = cd L (line nm)"
| "run_of L Ls = ls L"
| "run_of L (Mkdir nm) = shell_mkdir L (line nm)"
| "run_of L (Cat nm) = cat L (line nm)"
| "run_of L (Rm nm) = rm L (line nm)"
| "run_of L (Cp nm) = cp L (line nm)"
| "run_of L (Find nm) = shell_find L (line nm)"
| "run_of L (Unknown w) = block []"

definition word :: "byte list \<Rightarrow> bool" where
  "word nm \<longleftrightarrow> nm \<noteq> [] \<and> length nm \<le> 200 \<and> 0 \<notin> set nm \<and> 32 \<notin> set nm"

abbreviation (input) request_here where "request_here nm sh \<equiv> user_request 0 (padded nm) (currentDirCluster sh) 0"

fun acceptable :: "command \<Rightarrow> shell \<Rightarrow> bool" where
  "acceptable (Cd nm) sh \<longleftrightarrow> word nm \<and>
     (if nm = dots then list_ex (\<lambda>e. name e ! 0 \<noteq> 0) (currentDir sh)
      else length nm \<le> 8 \<longrightarrow> unat (buffer_index sh) < 254
        \<and> \<not> folder_named nm (currentDir sh ! 0) \<and> \<not> folder_named nm (currentDir sh ! 1)
        \<and> (case List.find (folder_named nm) (currentDir sh) of None \<Rightarrow> True | Some e \<Rightarrow> attribute e = 0x10))"
| "acceptable Ls sh \<longleftrightarrow> list_all printable_entry (drop 2 (currentDir sh))"
| "acceptable (Mkdir nm) sh \<longleftrightarrow> word nm"
| "acceptable (Cat nm) sh \<longleftrightarrow> word nm \<and> length nm \<le> 8 \<and> plain_request (disk sh) (dirs (disk sh)) (request_here nm sh)
     \<and> (case lookup (disk sh) (currentDirCluster sh) (key nm) of
          Some (File bs) \<Rightarrow> length bs \<le> DATA_SIZE \<longrightarrow> 0 \<in> set bs | _ \<Rightarrow> True)"
| "acceptable (Rm nm) sh \<longleftrightarrow> word nm \<and> (length nm \<le> 8 \<longrightarrow> plain_request (disk sh) (dirs (disk sh)) (request_here nm sh))"
| "acceptable (Cp nm) sh \<longleftrightarrow> word nm \<and> length nm \<le> 8 \<and> plain_request (disk sh) (dirs (disk sh)) (request_here nm sh)
     \<and> (case lookup (disk sh) (currentDirCluster sh) (key nm) of
          Some (File bs) \<Rightarrow> length bs \<le> DATA_SIZE \<and> 0 \<in> set bs | _ \<Rightarrow> False)"
| "acceptable (Find nm) sh \<longleftrightarrow> word nm"
| "acceptable (Unknown w) sh \<longleftrightarrow> word w \<and> list_all (\<lambda>s. take (length s) w \<noteq> str s) command_names"

definition shell_inv :: "shell \<Rightarrow> bool" where
  "shell_inv sh \<longleftrightarrow> shell_ok sh \<and> at_home sh \<and> tree_ok (tree_of sh)"

definition shell_area :: "shell_layout \<Rightarrow> bool" where
  "shell_area L \<longleftrightarrow> layout_ok L \<and> text_area L"

text \<open>Whether a creating command has a free name, a free slot and free clusters.\<close>

abbreviation (input) creates where "creates r sh \<equiv> \<not> name_taken (disk sh) r \<and> has_room (disk sh) r"

fun can_create :: "command \<Rightarrow> shell \<Rightarrow> bool" where
  "can_create (Mkdir nm) sh \<longleftrightarrow> length nm \<le> 8 \<and> creates (request_here nm sh) sh"
| "can_create (Cp nm) sh \<longleftrightarrow> (case lookup (disk sh) (currentDirCluster sh) (key nm) of
     Some (File bs) \<Rightarrow> creates (user_request 0 copy_name_literal (currentDirCluster sh) (of_nat (length (c_string bs)))) sh
   | _ \<Rightarrow> False)"
| "can_create _ sh \<longleftrightarrow> False"

lemma creates_any_buffer:
  "name_taken st (user_request p nm d n) = name_taken st (user_request 0 nm d n)"
  "has_room st (user_request p nm d n) = has_room st (user_request 0 nm d n)"
  by (simp_all add: name_taken_def has_room_def entry_matches_def user_request_def)

text \<open>A command simulates a step of the tree, and the directories that stay keep their names.\<close>

definition simulates :: "shell_layout \<Rightarrow> command \<Rightarrow> shell \<Rightarrow> bool" where
  "simulates L cmd sh \<longleftrightarrow> returns (run_of L cmd sh) (\<lambda>t. shell_ok t
     \<and> tree_step (can_create cmd sh) (tree_of sh) cmd (tree_of t) \<and> keeps_titles (disk sh) (disk t))"

lemma same_vars_tree: "same_vars s t \<Longrightarrow> tree_of t = tree_at (disk t) (currentDirCluster s) (take (unat (buffer_index s)) (parent_clusters s))"
  by (simp add: tree_of_def same_vars_def)

lemma same_place_tree: "same_place s t \<Longrightarrow> tree_of t = tree_of s"
  using tree_at_same [of "disk s" "disk t"] by (simp add: tree_of_def same_place_def)

lemma unchanged_tree: "same_vars s t \<Longrightarrow> same_files (disk s) (disk t) \<Longrightarrow> tree_of t = tree_of s"
  using tree_at_same [of "disk s" "disk t"] by (simp add: tree_of_def same_vars_def)

lemma tree_of_sel:
  "here (tree_of sh) = currentDirCluster sh" "folders (tree_of sh) = dirs (disk sh)"
  "above (tree_of sh) = take (unat (buffer_index sh)) (parent_clusters sh)"
  "d \<in> dirs (disk sh) \<Longrightarrow> nodes (tree_of sh) d = lookup (disk sh) d"
  by (simp_all add: tree_of_def tree_at_def)

lemma here_in_dirs: "shell_inv sh \<Longrightarrow> currentDirCluster sh \<in> dirs (disk sh)"
  using here_folder [of "tree_of sh"] by (simp add: shell_inv_def tree_of_sel)

lemma keeps_place_simulates:
  assumes "returns (run_of L cmd sh) (same_place sh)" and "shell_ok sh" and "tree_step (can_create cmd sh) (tree_of sh) cmd (tree_of sh)"
  shows "simulates L cmd sh"
  unfolding simulates_def
  using assms(1) by (rule returns_mono) (use assms(2,3) in \<open>auto simp: same_place_tree intro: place.same_ok keeps_titles_same [OF place_disk]\<close>)

section \<open>Commands that look\<close>

lemma ls_simulates:
  assumes "shell_area L" and "shell_inv sh" and "acceptable Ls sh"
  shows "simulates L Ls sh"
proof (rule keeps_place_simulates)
  have "list_all printable_entry (drop 2 (dir_at (storage (disk sh)) (currentDirCluster sh)))"
    using assms(2,3) by (simp add: shell_inv_def at_home_def)
  with assms(1,2) show "returns (run_of L Ls sh) (same_place sh)"
    unfolding run_of.simps by (intro returns_mono [OF ls_emits]) (simp_all add: shell_area_def shell_inv_def)
qed (use assms(2) in \<open>auto simp: shell_inv_def intro: tree_step.look\<close>)

lemma find_simulates:
  assumes "shell_area L" and "shell_inv sh" and "acceptable (Find nm) sh"
  shows "simulates L (Find nm) sh"
proof (rule keeps_place_simulates)
  have ok: "shell_ok sh" using assms(2) by (simp add: shell_inv_def)
  then have "list_all wf_dirent (currentDir sh)" by (simp add: shell_ok_def wf_table_def)
  then have "out.emits (find_loop L (line nm) (currentDir sh)) (find_text nm (currentDir sh))"
    using assms(1,3) by (intro find_emits) (simp_all add: shell_area_def word_def)
  from out.emitsE [OF this ok] show "returns (run_of L (Find nm) sh) (same_place sh)"
    by (metis returns_def run_of.simps(7) shell_find_def view_place)
qed (use assms(2) in \<open>auto simp: shell_inv_def intro: tree_step.look\<close>)

lemma unknown_simulates: "shell_inv sh \<Longrightarrow> simulates L (Unknown w) sh"
  by (rule keeps_place_simulates) (auto simp: shell_inv_def place.same_refl intro: tree_step.look)

lemma cat_rest:
  assumes "length nm \<le> 8"
  shows "cat L (line nm) sh = file_call L 0 (data_request L (padded nm) (currentDirCluster sh)) (\<lambda>c.
    block [if c = 0 then puts_at (at_data L) DATA_SIZE 0x2 else cat_error L (line nm) c, user_puts L (c_literal [CHR 0x0A]) 0x7]) sh"
  by (simp only: cat_def request_name_line [OF assms] with_value_simps)

text \<open>A read into the data buffer fails unless the name is a file that fits.\<close>

lemma data_read_fails:
  assumes con: "consistent st" and ok: "call_ok st (Read (data_request L nm d))"
    and no: "\<not> (\<exists>bs. lookup st d (nm, replicate 3 0) = Some (File bs) \<and> length bs \<le> DATA_SIZE)"
  obtains c where "fat32_read (data_request L nm d) st = Some (Inr (c, st))" "c \<noteq> 0"
proof -
  note out = read_map [OF con ok, unfolded data_request_simps]
  show thesis
  proof (cases "lookup st d (nm, replicate 3 0)")
    case None
    then show thesis using out that [of 2] by simp
  next
    case (Some n)
    show thesis
    proof (cases n)
      case (Folder c)
      then show thesis using Some out that [of 1] by simp
    next
      case (File bs)
      then have "\<not> length bs \<le> DATA_SIZE" using no Some by simp
      then have "(DATA_SIZE + 1 + 2047) div CLUSTER_SIZE \<le> cluster_count (length bs)"
        unfolding cluster_count_def by (intro div_le_mono) simp
      then have "unat (20480 :: u32) div CLUSTER_SIZE < cluster_count (length bs)" by simp
      then show thesis using Some File out that [of "-1"] by simp
    qed
  qed
qed

lemma cat_returns:
  assumes L: "layout_ok L" and sh: "shell_ok sh" and nm: "length nm \<le> 8"
    and plain: "plain_request (disk sh) (dirs (disk sh)) (request_here nm sh)"
    and f: "\<And>bs. lookup (disk sh) (currentDirCluster sh) (key nm) = Some (File bs) \<Longrightarrow> length bs \<le> DATA_SIZE \<Longrightarrow> 0 \<in> set bs"
  shows "returns (cat L (line nm) sh) (\<lambda>t. shell_ok t \<and> same_vars sh t \<and> same_files (disk sh) (disk t))"
proof -
  let ?r = "data_request L (padded nm) (currentDirCluster sh)"
  have wf: "wf_request ?r" using nm by simp
  have plain': "plain_request (disk sh) (dirs (disk sh)) ?r" using plain nm by (simp add: plain_request_def)
  note same = same_files_view [OF requested_disk [of sh L ?r]] and con = requested_consistent [OF sh, of L ?r]
  have ok: "call_ok (disk (requested L ?r sh)) (Read ?r)" using plain' same by (simp add: call_ok_def)
  show ?thesis
  proof (cases "\<exists>bs. lookup (disk sh) (currentDirCluster sh) (key nm) = Some (File bs) \<and> length bs \<le> DATA_SIZE")
    case True
    then obtain bs where bs: "lookup (disk sh) (currentDirCluster sh) (key nm) = Some (File bs)" "length bs \<le> DATA_SIZE" by blast
    obtain s1 where s1: "\<forall>rest. file_call L 0 ?r rest sh = rest 0 s1" "same_view sh s1" "take (length bs) (data_at L s1) = bs"
      by (rule read_file_call [OF L sh refl plain' bs])
    have ok1: "shell_ok s1" by (rule view.same_ok [OF s1(2) sh])
    have z: "0 \<in> set (data_at L s1)" using c_string_take [OF s1(3) f [OF bs]] by simp
    have "returns (cat L (line nm) sh) (same_view s1)"
      unfolding cat_rest [OF nm] s1(1) [rule_format] using nm by (intro cp_result_returns [OF L ok1 z]) simp
    then show ?thesis
      using view.same_trans [OF s1(2)] view.same_ok [OF _ sh] place_vars [OF view_place] place_disk [OF view_place]
      by (elim returns_mono) blast
  next
    case False
    obtain c where c: "fat32_read ?r (disk (requested L ?r sh)) = Some (Inr (c, disk (requested L ?r sh)))" "c \<noteq> 0"
      by (rule data_read_fails [OF con ok]) (use False same(3) in simp_all)
    define rest where "rest = (\<lambda>c. block [if c = 0 then puts_at (at_data L) DATA_SIZE 0x2 else cat_error L (line nm) c,
      user_puts L (c_literal [CHR 0x0A]) 0x7])"
    have k: "place.keeps (rest c)"
      using c(2) nm unfolding rest_def by (intro keeps_view_place view.keeps_block) (simp add: cat_error_def view.keeps_block)
    have call: "file_call L 0 ?r rest sh = rest c (answered L c (disk (requested L ?r sh)) (requested L ?r sh))"
      using c(1) by (intro file_call_return_code [OF wf]) auto
    have "returns (file_call L 0 ?r rest sh) (\<lambda>t. shell_ok t \<and> same_vars sh t \<and> same_files (disk (requested L ?r sh)) (disk t))"
      by (rule call_then [where rest = rest, OF call sh con place.keepsD [OF k]])
    then show ?thesis unfolding cat_rest [OF nm] rest_def [symmetric]
      using same_files_trans [OF requested_disk] by (elim returns_mono) blast
  qed
qed

lemma cat_simulates:
  assumes "shell_area L" and "shell_inv sh" and "acceptable (Cat nm) sh"
  shows "simulates L (Cat nm) sh"
proof -
  have "returns (cat L (line nm) sh) (\<lambda>t. shell_ok t \<and> same_vars sh t \<and> same_files (disk sh) (disk t))"
    using assms by (intro cat_returns) (auto simp: shell_area_def shell_inv_def)
  then show ?thesis unfolding simulates_def run_of.simps
    by (rule returns_mono) (auto simp: unchanged_tree intro: tree_step.look keeps_titles_same)
qed

section \<open>Commands that change the tree\<close>

lemma not_taken:
  assumes "consistent st" and "d \<in> dirs st" and "length nm = 8"
  shows "\<not> name_taken st (user_request p nm d n) \<Longrightarrow> lookup st d (nm, replicate 3 0) = None"
proof (rule ccontr)
  assume a: "\<not> name_taken st (user_request p nm d n)" "lookup st d (nm, replicate 3 0) \<noteq> None"
  then obtain m where "lookup st d (nm, replicate 3 0) = Some m" by blast
  then obtain i where i: "live (dir_at (storage st) d) i" "entry_key (dir_at (storage st) d ! i) = (nm, replicate 3 0)"
    by (rule lookup_Some)
  then have "entry_matches (user_request p nm d n) (dir_at (storage st) d ! i)"
    using matches_key [of "user_request p nm d n" i "storage st" d] live_at [OF i(1)] assms(3) by simp
  moreover have "dir_at (storage st) d ! i \<in> set (dir_at (storage st) d)" using live_at [OF i(1)] by (intro nth_mem) simp
  ultimately show False using a(1) by (auto simp: name_taken_def)
qed

lemma mkdir_simulates:
  assumes "shell_inv sh" and "acceptable (Mkdir nm) sh"
  shows "simulates L (Mkdir nm) sh"
proof (cases "length nm \<le> 8")
  case False
  have sh: "shell_ok sh" and n: "length nm \<le> 256" using assms by (simp_all add: shell_inv_def word_def)
  have eq: "run_of L (Mkdir nm) sh = user_puts L (c_literal ''Directory name is too long! (Max Characters is 8)'') 0xC sh"
    using slen_line_le [OF n] False by (simp add: shell_mkdir_def)
  show ?thesis
  proof (rule keeps_place_simulates [OF _ sh])
    show "returns (run_of L (Mkdir nm) sh) (same_place sh)" unfolding eq by (intro place.keepsD [OF _ sh] say_keeps) simp
  qed (use False in \<open>auto intro: tree_step.no_make\<close>)
next
  case True
  note len = True
  have sh: "shell_ok sh" using assms(1) by (simp add: shell_inv_def)
  note d = here_in_dirs [OF assms(1)]
  note step = mkdir_returns [OF sh d True refl, of L]
  have none: "\<not> name_taken (disk sh) (request_here nm sh) \<Longrightarrow> nodes (tree_of sh) (here (tree_of sh)) (key nm) = None"
    using not_taken [OF shell_consistent [OF sh] d length_padded [OF True]] d by (simp add: tree_of_sel)
  show ?thesis unfolding simulates_def run_of.simps
  proof (rule returns_mono [OF step], elim conjE, intro conjI)
    fix t assume t: "shell_ok t" "same_vars sh t"
      and o: "if name_taken (disk sh) (request_here nm sh) \<or> \<not> has_room (disk sh) (request_here nm sh) then same_files (disk sh) (disk t)
       else \<exists>c. node_added (disk sh) (disk t) (currentDirCluster sh) (padded nm) (Folder c)"
    show "shell_ok t" by (rule t(1))
    show "keeps_titles (disk sh) (disk t)"
      using o keeps_titles_same node_added_titles [OF shell_consistent [OF sh] d] by (auto split: if_splits)
    show "tree_step (can_create (Mkdir nm) sh) (tree_of sh) (Mkdir nm) (tree_of t)"
    proof (cases "name_taken (disk sh) (request_here nm sh) \<or> \<not> has_room (disk sh) (request_here nm sh)")
      case True
      then show ?thesis using o unchanged_tree [OF t(2)] by (auto intro: tree_step.no_make)
    next
      case False
      then obtain c where c: "node_added (disk sh) (disk t) (currentDirCluster sh) (padded nm) (Folder c)" using o by auto
      note a = node_added_tree [OF c d]
      show ?thesis unfolding same_vars_tree [OF t(2)] a(1) tree_of_def [symmetric]
        using none False a(2) len by (intro tree_step.make) (simp_all add: fresh_node_def tree_of_def tree_at_def)
    qed
  qed
qed

lemma rm_simulates:
  assumes "shell_inv sh" and "acceptable (Rm nm) sh"
  shows "simulates L (Rm nm) sh"
proof (cases "length nm \<le> 8")
  case False
  have sh: "shell_ok sh" and n: "length nm \<le> 256" using assms by (simp_all add: shell_inv_def word_def)
  have eq: "run_of L (Rm nm) sh = user_puts L (c_literal ''rm: cannot remove : name is too long! (Max Characters is 8)'') 0xC sh"
    using slen_line_le [OF n] False by (simp add: rm_def)
  show ?thesis
  proof (rule keeps_place_simulates [OF _ sh])
    show "returns (run_of L (Rm nm) sh) (same_place sh)" unfolding eq by (intro place.keepsD [OF _ sh] say_keeps) simp
  qed (use False in \<open>auto intro: tree_step.no_remove\<close>)
next
  case True
  have sh: "shell_ok sh" using assms(1) by (simp add: shell_inv_def)
  note d = here_in_dirs [OF assms(1)]
  have plain: "plain_request (disk sh) (dirs (disk sh)) (request_here nm sh)" using assms(2) True by simp
  let ?l = "lookup (disk sh) (currentDirCluster sh) (key nm)"
  have l: "nodes (tree_of sh) (here (tree_of sh)) (key nm) = ?l" using d by (simp add: tree_of_sel)
  have sub: "nodes (tree_of sh) c = lookup (disk sh) c" if "?l = Some (Folder c)" for c
    using folder_entry [OF shell_consistent [OF sh] d that] by (metis tree_of_sel(4))
  have r: "removable (tree_of sh) m \<longleftrightarrow> \<not> (\<exists>c. m = Folder c \<and> lookup (disk sh) c \<noteq> Map.empty)" if "?l = Some m" for m
    using sub that by (auto simp: removable_def)
  show ?thesis unfolding simulates_def run_of.simps
  proof (rule returns_mono [OF rm_returns [OF sh True refl plain]], elim conjE, intro conjI)
    fix t assume t: "shell_ok t" "same_vars sh t"
      and o: "case ?l of None \<Rightarrow> same_files (disk sh) (disk t)
       | Some m \<Rightarrow> if \<exists>c. m = Folder c \<and> lookup (disk sh) c \<noteq> Map.empty then same_files (disk sh) (disk t)
           else node_removed (disk sh) (disk t) (currentDirCluster sh) (padded nm) m"
    show "shell_ok t" by (rule t(1))
    show "keeps_titles (disk sh) (disk t)"
      using o keeps_titles_same node_removed_titles [OF shell_consistent [OF sh]] by (auto split: option.splits if_splits)
    show "tree_step (can_create (Rm nm) sh) (tree_of sh) (Rm nm) (tree_of t)"
    proof (cases "\<exists>m. ?l = Some m \<and> removable (tree_of sh) m")
      case True
      then obtain m where m: "?l = Some m" "removable (tree_of sh) m" by blast
      then have n: "node_removed (disk sh) (disk t) (currentDirCluster sh) (padded nm) m" using o r by simp
      have e: "lookup (disk sh) c = Map.empty" if "m = Folder c" for c using r [OF m(1)] m(2) that by blast
      have "tree_of t = drop_node (key nm) (tree_of sh)"
        unfolding same_vars_tree [OF t(2)] tree_of_def [of sh] by (rule node_removed_tree [OF n d m(1) e])
      then show ?thesis using tree_step.remove [of "tree_of sh" nm m] l m by simp
    next
      case False
      then have "same_files (disk sh) (disk t)" using o r by (cases ?l) auto
      then show ?thesis using unchanged_tree [OF t(2)] False l
        by (cases ?l) (auto intro: tree_step.no_remove)
    qed
  qed
qed

lemma cp_simulates:
  assumes L: "shell_area L" and inv: "shell_inv sh" and acc: "acceptable (Cp nm) sh"
  shows "simulates L (Cp nm) sh"
proof -
  have sh: "shell_ok sh" using inv by (simp add: shell_inv_def)
  have Lo: "layout_ok L" using L by (simp add: shell_area_def)
  note d = here_in_dirs [OF inv]
  have nm: "length nm \<le> 8" using acc by simp
  let ?l = "lookup (disk sh) (currentDirCluster sh) (key nm)"
  obtain bs where bs: "?l = Some (File bs)" "length bs \<le> DATA_SIZE" "0 \<in> set bs"
    using acc by (auto split: option.splits node.splits)
  have plain: "plain_request (disk sh) (dirs (disk sh)) (data_request L (padded nm) (currentDirCluster sh))"
    using acc by (simp add: plain_request_def)
  define r where "r = user_request (at_data L) copy_name_literal (currentDirCluster sh) (of_nat (length (c_string bs)))"
  have none: "\<not> name_taken (disk sh) r \<Longrightarrow>
      nodes (tree_of sh) (here (tree_of sh)) (copy_name_literal, replicate 3 0) = None"
    using not_taken [OF shell_consistent [OF sh] d length_copy_literal] d by (simp add: tree_of_sel r_def)
  have l: "nodes (tree_of sh) (here (tree_of sh)) (key nm) = Some (File bs)" using d bs by (simp add: tree_of_sel)
  have able: "can_create (Cp nm) sh \<longleftrightarrow> creates r sh"
    using bs(1) creates_any_buffer [of _ "at_data L"] by (simp add: r_def)
  show ?thesis unfolding simulates_def run_of.simps
  proof (rule returns_mono [OF cp_returns [OF Lo sh nm d plain bs r_def]], elim conjE, intro conjI)
    fix t assume t: "shell_ok t" "same_vars sh t"
      and o: "if name_taken (disk sh) r \<or> \<not> has_room (disk sh) r then same_files (disk sh) (disk t)
       else \<exists>c. node_added (disk sh) (disk t) (currentDirCluster sh) copy_name_literal
         (if c_string bs = [] then Folder c else File (c_string bs))"
    show "shell_ok t" by (rule t(1))
    show "keeps_titles (disk sh) (disk t)"
    proof (cases "name_taken (disk sh) r \<or> \<not> has_room (disk sh) r")
      case False
      with o obtain c where "node_added (disk sh) (disk t) (currentDirCluster sh) copy_name_literal
         (if c_string bs = [] then Folder c else File (c_string bs))" by auto
      then show ?thesis by (rule node_added_titles [OF shell_consistent [OF sh] d])
    qed (use o keeps_titles_same in auto)
    show "tree_step (can_create (Cp nm) sh) (tree_of sh) (Cp nm) (tree_of t)"
    proof (cases "name_taken (disk sh) r \<or> \<not> has_room (disk sh) r")
      case True
      then show ?thesis using o unchanged_tree [OF t(2)] able by (auto intro: tree_step.no_copy)
    next
      case False
      then obtain c where c: "node_added (disk sh) (disk t) (currentDirCluster sh) copy_name_literal
         (if c_string bs = [] then Folder c else File (c_string bs))" using o by auto
      note a = node_added_tree [OF c d]
      show ?thesis unfolding same_vars_tree [OF t(2)] a(1) tree_of_def [symmetric]
        using none False a(2) l able by (intro tree_step.copy [where bs = bs and c = c]) (simp_all add: tree_of_def)
    qed
  qed
qed

section \<open>Walking\<close>

lemma c_string_fullname: "c_string (fullname e) = c_string (name e)"
proof -
  have "c_string (xs @ [0]) = c_string xs" for xs by (induction xs) simp_all
  then show ?thesis by (simp add: fullname_def)
qed

text \<open>A folder entry behind the first two is a folder of the map, and the other way round.\<close>

lemma folder_named_lookup:
  assumes inv: "shell_inv sh" and f: "List.find (folder_named nm) (currentDir sh) = Some e" and a: "attribute e = 0x10"
    and own: "\<not> folder_named nm (currentDir sh ! 0)" "\<not> folder_named nm (currentDir sh ! 1)"
  shows "\<exists>k. nodes (tree_of sh) (here (tree_of sh)) k = Some (Folder (entry_cluster e)) \<and> c_string (fst k) = nm"
proof -
  let ?t = "dir_at (storage (disk sh)) (currentDirCluster sh)"
  have home: "currentDir sh = ?t" using inv by (simp add: shell_inv_def at_home_def)
  have con: "consistent (disk sh)" using inv shell_consistent by (simp add: shell_inv_def)
  note d = here_in_dirs [OF inv]
  have ok: "table_ok ?t" using fs_inv_dir(4) [OF con [unfolded consistent_def] d] .
  obtain i where i: "i < DIR_ENTRIES" "folder_named nm (?t ! i)" "e = ?t ! i" using f unfolding home find_Some_iff by auto
  have "i \<noteq> 0" using own(1) i(2) unfolding home by metis
  moreover have "i \<noteq> 1" using own(2) i(2) unfolding home by metis
  ultimately have i2: "2 \<le> i" by linarith
  have live: "live ?t i"
  proof (rule ccontr)
    assume "\<not> live ?t i"
    then have "?t ! i = zero_dirent" using ok i(1) i2 by (auto simp: table_ok_def)
    then show False using i(2) by (simp add: folder_named_def)
  qed
  have "lookup (disk sh) (currentDirCluster sh) (entry_key e) = Some (node_of (disk sh) e)"
    unfolding i(3) by (rule lookup_live [OF ok live])
  moreover have "node_of (disk sh) e = Folder (entry_cluster e)" using a by (simp add: node_of_def is_folder_def)
  moreover have "c_string (fst (entry_key e)) = nm"
    using i(2,3) by (simp add: entry_key_def folder_named_def c_string_fullname)
  ultimately show ?thesis using d by (intro exI [of _ "entry_key e"]) (simp add: tree_of_sel)
qed

lemma no_folder_named:
  assumes inv: "shell_inv sh" and nm: "nm \<noteq> []" and f: "List.find (folder_named nm) (currentDir sh) = None"
    and k: "nodes (tree_of sh) (here (tree_of sh)) k = Some (Folder c)"
  shows "c_string (fst k) \<noteq> nm"
proof
  assume s: "c_string (fst k) = nm"
  let ?t = "dir_at (storage (disk sh)) (currentDirCluster sh)"
  have home: "currentDir sh = ?t" using inv by (simp add: shell_inv_def at_home_def)
  have con: "consistent (disk sh)" using inv shell_consistent by (simp add: shell_inv_def)
  note d = here_in_dirs [OF inv]
  have "lookup (disk sh) (currentDirCluster sh) k = Some (Folder c)" using k d by (simp add: tree_of_sel)
  from folder_entry [OF con d this] obtain i where i: "live ?t i" "entry_key (?t ! i) = k" "is_folder (?t ! i)" by blast
  have l: "i < DIR_ENTRIES" using live_at [OF i(1)] by simp
  have key: "fst k = name (?t ! i)" unfolding i(2) [symmetric] by (simp add: entry_key_def)
  have "length (name (?t ! i)) = 8" using wf_table_nth [OF wf_dir_at l] by (simp add: wf_dirent_def)
  then obtain b bs where b: "name (?t ! i) = b # bs" by (cases "name (?t ! i)") simp_all
  have "b \<noteq> 0" using s nm unfolding key b by auto
  moreover have "attribute (?t ! i) AND 0x10 \<noteq> 0"
  proof -
    have "(0x10 :: byte) AND 0x10 \<noteq> 0" by code_simp
    then show ?thesis using i(3) by (simp add: is_folder_def)
  qed
  ultimately have "folder_named nm (?t ! i)" using s unfolding key by (simp add: folder_named_def c_string_fullname b)
  moreover have "?t ! i \<in> set (currentDir sh)" unfolding home using l by (intro nth_mem) simp
  ultimately show False using f unfolding find_None_iff by blast
qed

text \<open>When the loop of \<open>cd\<close> ends without an entry.\<close>

lemma cd_loop_none:
  assumes nm: "length nm \<le> 8" "0 \<notin> set nm" "nm \<noteq> dots" and es: "list_all wf_dirent es"
    and f: "List.find (folder_named nm) es = None"
  shows "cd_loop L say (line nm) es sh = say (c_literal (''Directory not found'' @ [CHR 0x0A])) 0xC sh"
proof -
  have le256: "length nm \<le> 256" using nm(1) by simp
  show ?thesis using es f
    by (induction es) (auto simp: folder_named_def compare_up [OF nm(1,2)] compare_name [OF le256 nm(2)] nm(3) split: if_splits)
qed

lemma cd_simulates_name:
  assumes inv: "shell_inv sh" and acc: "acceptable (Cd nm) sh" and nd: "nm \<noteq> dots"
  shows "simulates L (Cd nm) sh"
proof -
  have sh: "shell_ok sh" and w: "word nm" using inv acc by (simp_all add: shell_inv_def)
  have n256: "length nm \<le> 256" and nz: "0 \<notin> set nm" and ne: "nm \<noteq> []" using w by (simp_all add: word_def)
  have wf: "list_all wf_dirent (currentDir sh)" using sh by (simp add: shell_ok_def wf_table_def)
  have says: "simulates L (Cd nm) sh"
    if "run_of L (Cd nm) sh = user_puts L (c_literal s) 0xC sh" and "length s < 100"
      and "8 < length nm \<or> (\<forall>k c. nodes (tree_of sh) (here (tree_of sh)) k = Some (Folder c) \<longrightarrow> c_string (fst k) \<noteq> nm)" for s
  proof (rule keeps_place_simulates [OF _ sh])
    show "returns (run_of L (Cd nm) sh) (same_place sh)"
      unfolding that(1) using that(2) by (intro place.keepsD [OF _ sh] say_keeps) simp
  qed (rule tree_step.no_entry [OF nd that(3)])
  show ?thesis
  proof (cases "length nm \<le> 8")
    case False
    then show ?thesis
      using slen_line_le [OF n256]
      by (intro says [of "''Directory name is too long! (Maximum 8 Characters)''"]) (simp_all add: cd_def)
  next
    case True
    note short = slen_line_le [OF n256]
    show ?thesis
    proof (cases "List.find (folder_named nm) (currentDir sh)")
      case None
      then show ?thesis
        using True short cd_loop_none [OF True nz nd wf None] no_folder_named [OF inv ne None]
        by (intro says [of "''Directory not found'' @ [CHR 0x0A]"]) (simp_all add: cd_def)
    next
      case (Some e)
      have a: "attribute e = 0x10" "unat (buffer_index sh) < 254" "\<not> folder_named nm (currentDir sh ! 0)"
        "\<not> folder_named nm (currentDir sh ! 1)"
        using acc nd True Some by simp_all
      obtain k where k: "nodes (tree_of sh) (here (tree_of sh)) k = Some (Folder (entry_cluster e))" "c_string (fst k) = nm"
        using folder_named_lookup [OF inv Some a(1) a(3,4)] by blast
      have len: "length (parent_clusters sh) = 256" using sh by (simp add: shell_ok_def)
      have b: "unat (buffer_index sh + 1) = Suc (unat (buffer_index sh))" using a(2) by (simp add: unat_word_ariths)
      show ?thesis unfolding simulates_def run_of.simps
      proof (rule returns_mono [OF cd_enters [OF sh a(2) True nz nd Some]], elim conjE, intro conjI)
        fix t assume t: "shell_ok t" "same_files (disk sh) (disk t)" "currentDirCluster t = entry_cluster e"
          "buffer_index t = buffer_index sh + 1" "parent_clusters t = (parent_clusters sh)[unat (buffer_index sh) := currentDirCluster sh]"
        show "shell_ok t" "keeps_titles (disk sh) (disk t)" by (rule t(1), rule keeps_titles_same [OF t(2)])
        have "tree_of t = (tree_of sh)\<lparr>here := entry_cluster e, above := above (tree_of sh) @ [here (tree_of sh)]\<rparr>"
          using a(2) len b tree_at_same [OF t(2)] t(3-5)
          by (simp add: tree_of_def tree_at_def take_Suc_conv_app_nth)
        then show "tree_step (can_create (Cd nm) sh) (tree_of sh) (Cd nm) (tree_of t)" using tree_step.enter [OF nd k] by simp
      qed
    qed
  qed
qed

lemma cd_simulates_up:
  assumes inv: "shell_inv sh" and acc: "acceptable (Cd dots) sh"
  shows "simulates L (Cd dots) sh"
proof -
  have sh: "shell_ok sh" using inv by (simp add: shell_inv_def)
  have es: "\<exists>e \<in> set (currentDir sh). name e ! 0 \<noteq> 0" using acc by (simp add: list_ex_iff)
  have ok: "tree_ok (tree_of sh)" using inv by (simp add: shell_inv_def)
  have len: "length (parent_clusters sh) = 256" "unat (buffer_index sh) < 255" using sh by (simp_all add: shell_ok_def)
  have root: "take (unat (buffer_index sh)) (parent_clusters sh) = [] \<longleftrightarrow> currentDirCluster sh = ROOT_CLUSTER_NUMBER"
    using above_root [OF ok] by (simp add: tree_of_sel)
  show ?thesis
  proof (cases "currentDirCluster sh = ROOT_CLUSTER_NUMBER")
    case True
    have "cd L (line dots) sh = user_puts L (c_literal (''Already in root directory'' @ [CHR 0x0A])) 0xC sh"
      using slen_line_le [of dots] dots_name cd_loop_parent [OF es] True by (simp add: cd_def cd_parent_def)
    moreover have "returns (user_puts L (c_literal (''Already in root directory'' @ [CHR 0x0A])) 0xC sh) (same_place sh)"
      by (intro place.keepsD [OF _ sh] say_keeps) simp
    ultimately show ?thesis
      using root True by (intro keeps_place_simulates [OF _ sh] tree_step.at_root) (simp_all add: tree_of_sel)
  next
    case False
    then have "take (unat (buffer_index sh)) (parent_clusters sh) \<noteq> []" using root by simp
    then have b: "unat (buffer_index sh) \<noteq> 0" by auto
    then have nz: "buffer_index sh \<noteq> 0" by auto
    then have u: "unat (buffer_index sh - 1) = unat (buffer_index sh) - 1" by (simp add: unat_minus_one)
    show ?thesis unfolding simulates_def run_of.simps
    proof (rule returns_mono [OF cd_leaves [OF sh False nz es]], elim conjE, intro conjI)
      fix t assume t: "shell_ok t" "same_files (disk sh) (disk t)"
        "currentDirCluster t = parent_clusters sh ! unat (buffer_index sh - 1)"
        "buffer_index t = buffer_index sh - 1" "parent_clusters t = parent_clusters sh"
      show "shell_ok t" "keeps_titles (disk sh) (disk t)" by (rule t(1), rule keeps_titles_same [OF t(2)])
      obtain n where n: "unat (buffer_index sh) = Suc n" using b by (cases "unat (buffer_index sh)") auto
      have "n < length (parent_clusters sh)" using len n by simp
      then have "take (Suc n) (parent_clusters sh) = take n (parent_clusters sh) @ [parent_clusters sh ! n]"
        by (rule take_Suc_conv_app_nth)
      then have "tree_of t = (tree_of sh)\<lparr>here := last (above (tree_of sh)), above := butlast (above (tree_of sh))\<rparr>"
        using tree_at_same [OF t(2)] t(3-5) u n by (simp add: tree_of_def tree_at_def)
      moreover have "above (tree_of sh) \<noteq> []" using False root by (simp add: tree_of_sel)
      ultimately show "tree_step (can_create (Cd dots) sh) (tree_of sh) (Cd dots) (tree_of t)" using tree_step.leave [of "tree_of sh"] by simp
    qed
  qed
qed

lemma command_simulates:
  assumes "shell_area L" and "shell_inv sh" and "acceptable cmd sh"
  shows "simulates L cmd sh"
proof (cases cmd)
  case (Cd nm)
  then show ?thesis using assms cd_simulates_name cd_simulates_up by (cases "nm = dots") simp_all
qed (use assms ls_simulates mkdir_simulates cat_simulates rm_simulates cp_simulates find_simulates unknown_simulates in simp_all)

end
