(* ===== verification/Shell_Path.thy ===== *)
theory Shell_Path
  imports Shell_Steps
begin

unbundle bit_operations_syntax

text \<open>
  The prompt against the tree. The rows of \<open>dir_buff\<close> hold the names that the open directories carry;
  a command leaves the rows alone and steps along the path, and the prompt fills the last row. When
  the directories of the device are titled, the rows are the names under which one walks from the
  root to the current directory, and the prompt prints them.
\<close>

section \<open>Paths\<close>

text \<open>A step keeps the path up to where it ends, or enters one more folder.\<close>

lemma step_path:
  assumes "tree_step able t cmd t'" and "i < length (above t')"
  shows "i < length (path t)" and "path t' ! i = path t ! i"
  using assms
  by (induction rule: tree_step.induct) (auto simp: path_def nth_append put_node_sel drop_node_sel nth_butlast)

text \<open>The names that lead from the root along a path.\<close>

definition spells :: "tree \<Rightarrow> byte list list \<Rightarrow> bool" where
  "spells t names \<longleftrightarrow> length names = length (path t) \<and> names ! 0 = str ''root''
     \<and> (\<forall>i. Suc i < length names \<longrightarrow>
          (\<exists>k. nodes t (path t ! i) k = Some (Folder (path t ! Suc i)) \<and> names ! Suc i = c_string (fst k)))"

lemma path_dirs: "tree_ok (tree_of sh) \<Longrightarrow> i < length (path (tree_of sh)) \<Longrightarrow> path (tree_of sh) ! i \<in> dirs (disk sh)"
  using path_in_folders [of "tree_of sh"] nth_mem unfolding tree_of_sel(2) by blast

lemma titled_spells:
  assumes inv: "shell_inv sh" and t: "titled (disk sh)"
  shows "spells (tree_of sh) (map (own_name (disk sh)) (path (tree_of sh)))"
proof -
  let ?t = "tree_of sh"
  have ok: "tree_ok ?t" using inv by (simp add: shell_inv_def)
  have "path ?t ! 0 = ROOT_CLUSTER_NUMBER" using ok by (simp add: tree_ok_def path_def hd_conv_nth)
  then have "own_name (disk sh) (path ?t ! 0) = str ''root''" using t by (simp add: titled_def)
  moreover have "\<exists>k. nodes ?t (path ?t ! i) k = Some (Folder (path ?t ! Suc i))
      \<and> own_name (disk sh) (path ?t ! Suc i) = c_string (fst k)" if i: "Suc i < length (path ?t)" for i
  proof -
    obtain k where k: "nodes ?t (path ?t ! i) k = Some (Folder (path ?t ! Suc i))"
      using path_link [OF ok i] by (auto simp: linked_def)
    have d: "path ?t ! i \<in> dirs (disk sh)" using i by (intro path_dirs [OF ok]) simp
    have "own_name (disk sh) (path ?t ! Suc i) = c_string (fst k)" by (rule titledD [OF t d]) (use k d in \<open>simp add: tree_of_sel\<close>)
    with k show ?thesis by blast
  qed
  moreover have "path ?t \<noteq> []" by (simp add: path_def)
  ultimately show ?thesis unfolding spells_def length_map using nth_map [of _ "path ?t" "own_name (disk sh)"]
    by (metis Suc_lessD length_greater_0_conv)
qed

section \<open>Rows\<close>

definition rows_named :: "nat \<Rightarrow> shell \<Rightarrow> bool" where
  "rows_named n sh \<longleftrightarrow> (\<forall>i < n. c_string (take 8 (dir_row (dir_buff sh) i)) = own_name (disk sh) (path (tree_of sh) ! i))"

text \<open>Between two commands the rows of all open directories are named, after the prompt it is on the screen.\<close>

definition rows_ok :: "shell \<Rightarrow> bool" where
  "rows_ok sh \<longleftrightarrow> titled (disk sh) \<and> rows_named (Suc (unat (buffer_index sh))) sh"

definition prompted :: "shell \<Rightarrow> bool" where
  "prompted sh \<longleftrightarrow> rows_ok sh
     \<and> (\<exists>before. screen sh = fold write_on (prompt_text (dir_buff sh) (unat (buffer_index sh))) before)"

lemma above_depth: "shell_ok sh \<Longrightarrow> length (above (tree_of sh)) = unat (buffer_index sh)"
  by (simp add: tree_of_sel shell_ok_def)

lemma rows_ok_view:
  assumes "same_view s t"
  shows "rows_ok t = rows_ok s"
proof -
  have v: "same_files (disk s) (disk t)" "dir_buff t = dir_buff s" "buffer_index t = buffer_index s"
    using assms by (simp_all add: same_view_def same_place_def)
  have p: "tree_of t = tree_of s" by (rule same_place_tree [OF view_place [OF assms]])
  show ?thesis unfolding rows_ok_def rows_named_def v(2,3) p titled_same [OF v(1)] same_files_view(8) [OF v(1)] by (rule refl)
qed

lemma step_rows:
  assumes inv: "shell_inv sh" and n: "rows_ok sh" and step: "tree_step able (tree_of sh) cmd (tree_of t)"
    and t: "shell_ok t" "keeps_titles (disk sh) (disk t)" "dir_buff t = dir_buff sh"
  shows "titled (disk t)" and "rows_named (unat (buffer_index t)) t"
proof -
  show "titled (disk t)" using t(2) n by (simp add: keeps_titles_def rows_ok_def)
  have sh: "shell_ok sh" and ok: "tree_ok (tree_of sh)" using inv by (simp_all add: shell_inv_def)
  have ok': "tree_ok (tree_of t)" by (rule tree_step_ok [OF step ok])
  show "rows_named (unat (buffer_index t)) t" unfolding rows_named_def
  proof (intro allI impI)
    fix i assume "i < unat (buffer_index t)"
    then have i: "i < length (above (tree_of t))" using above_depth [OF t(1)] by simp
    note p = step_path [OF step i]
    have "path (tree_of t) ! i \<in> dirs (disk t)"
      using i by (intro path_dirs [OF ok']) (simp add: path_def)
    moreover have "path (tree_of t) ! i \<in> dirs (disk sh)"
      unfolding p(2) by (rule path_dirs [OF ok p(1)])
    ultimately have "own_name (disk t) (path (tree_of t) ! i) = own_name (disk sh) (path (tree_of sh) ! i)"
      using t(2) unfolding keeps_titles_def p(2) by blast
    moreover have "i < Suc (unat (buffer_index sh))" using p(1) above_depth [OF sh] by (simp add: path_def)
    ultimately show "c_string (take 8 (dir_row (dir_buff t) i)) = own_name (disk t) (path (tree_of t) ! i)"
      using n by (simp add: rows_ok_def rows_named_def t(3))
  qed
qed

lemma other_row:
  assumes "i < n" and "length nm = 8" and "8 * n + 8 \<le> length d"
  shows "take 8 (dir_row (set_dir_row n nm d) i) = take 8 (dir_row d i)"
  using assms by (simp add: dir_row_def set_dir_row_eq drop_take)

lemma prompt_prompts:
  assumes L: "text_area L" and sh: "shell_ok sh" and t: "titled (disk sh)" and rows: "rows_named (unat (buffer_index sh)) sh"
  shows "returns (cetak_prompt L sh) (\<lambda>t. same_place sh t \<and> at_home t \<and> prompted t)"
proof (rule returns_mono [OF prompt_emits [OF L sh]], elim conjE, intro conjI)
  fix u
  let ?n = "unat (buffer_index sh)" and ?nm = "name (dir_at (storage (disk sh)) (currentDirCluster sh) ! 0)"
  assume u: "same_place sh u" "at_home u" "dir_buff u = set_dir_row ?n ?nm (dir_buff sh)"
    "screen u = fold write_on (prompt_text (dir_buff u) ?n) (screen sh)"
  show "same_place sh u" "at_home u" by (rule u)+
  have same: "same_files (disk sh) (disk u)" "buffer_index u = buffer_index sh" using u(1) by (simp_all add: same_place_def)
  have p: "tree_of u = tree_of sh" by (rule same_place_tree [OF u(1)])
  have len: "length ?nm = 8" using wf_table_nth [OF wf_dir_at] by (simp add: wf_dirent_def)
  have d: "length (dir_buff sh) = 2048" "?n < 255" using sh by (simp_all add: shell_ok_def)
  have "c_string (take 8 (dir_row (dir_buff u) i)) = own_name (disk sh) (path (tree_of sh) ! i)" if "i < Suc ?n" for i
  proof (cases "i = ?n")
    case True
    have "path (tree_of sh) ! ?n = currentDirCluster sh"
      using above_depth [OF sh] by (simp add: path_def nth_append tree_of_sel)
    moreover have "take 8 (dir_row (dir_buff u) ?n) = ?nm" using len d by (simp add: u(3) dir_row_set)
    ultimately show ?thesis using True by (simp add: own_name_def)
  next
    case False
    then have i: "i < ?n" using that by simp
    then have "take 8 (dir_row (dir_buff u) i) = take 8 (dir_row (dir_buff sh) i)"
      unfolding u(3) using len d by (intro other_row) simp_all
    with rows i show ?thesis by (simp add: rows_named_def)
  qed
  then have "rows_named (Suc ?n) u" unfolding rows_named_def p same_files_view(8) [OF same(1)] by blast
  moreover have "titled (disk u)" unfolding titled_same [OF same(1)] by (rule t)
  ultimately show "prompted u" using u(4) unfolding prompted_def rows_ok_def same(2) by blast
qed

section \<open>What is printed\<close>

lemma c_string_short: "length (c_string (take 8 r)) < 8 \<Longrightarrow> c_string r = c_string (take 8 r)"
proof -
  assume a: "length (c_string (take 8 r)) < 8"
  show ?thesis
  proof (cases "0 \<in> set (take 8 r)")
    case True
    have "take (length (take 8 r)) r = take 8 r" by (simp add: min_def)
    from c_string_take [OF this True] show ?thesis by simp
  next
    case False
    then have all: "c_string (take 8 r) = take 8 r" by (auto simp: c_string_def takeWhile_eq_all_conv)
    then have "length r < 8" using a by simp
    then show ?thesis by simp
  qed
qed

definition path_prompt :: "byte list list \<Rightarrow> (u8 \<times> byte list) list" where
  "path_prompt names = [(5, str ''Istiqomah@OS-IF2230:'')] @ concat (map (\<lambda>nm. [(9, str ''/''), (9, nm)]) names) @ [(7, str ''$ '')]"

lemma path_text_names:
  assumes "\<And>i. i < Suc n \<Longrightarrow> c_string (dir_row d i) = names ! i" and "length names = Suc n"
  shows "prompt_text d n = path_prompt names"
proof -
  have "(9, str ''/'') # path_text d n k = concat (map (\<lambda>nm. [(9, str ''/''), (9, nm)]) (drop k names))" if "k \<le> n" for k
    using that
  proof (induction rule: inc_induct)
    case base
    have "drop n names = [names ! n]" using assms(2) Cons_nth_drop_Suc [of n names] by simp
    then show ?case using assms(1) [of n] by (simp add: path_text_def row_text_def)
  next
    case (step k)
    then have "drop k names = names ! k # drop (Suc k) names" using assms(2) Cons_nth_drop_Suc [of k names] by simp
    with step show ?case using assms(1) [of k] by (simp add: path_text_Suc row_text_def)
  qed
  from this [of 0] show ?thesis by (simp add: prompt_text_def path_prompt_def)
qed

text \<open>The last thing that was printed is the prompt with the names of the way to where the user is.\<close>

definition shows_way :: "shell \<Rightarrow> bool" where
  "shows_way sh \<longleftrightarrow> (\<exists>names before. spells (tree_of sh) names
    \<and> ((\<forall>nm \<in> set names. length nm < 8) \<longrightarrow> screen sh = fold write_on (path_prompt names) before))"

lemma prompted_path:
  assumes inv: "shell_inv sh" and p: "prompted sh"
  shows "shows_way sh"
proof -
  let ?names = "map (own_name (disk sh)) (path (tree_of sh))" and ?n = "unat (buffer_index sh)"
  obtain before where b: "screen sh = fold write_on (prompt_text (dir_buff sh) ?n) before" using p by (auto simp: prompted_def)
  have n: "titled (disk sh)" "rows_named (Suc ?n) sh" using p by (simp_all add: prompted_def rows_ok_def)
  have len: "length ?names = Suc ?n" using inv above_depth by (simp add: shell_inv_def path_def)
  have "prompt_text (dir_buff sh) ?n = path_prompt ?names" if short: "\<forall>nm \<in> set ?names. length nm < 8"
  proof (rule path_text_names [OF _ len])
    fix i assume i: "i < Suc ?n"
    then have row: "c_string (take 8 (dir_row (dir_buff sh) i)) = ?names ! i" using n(2) len by (simp add: rows_named_def)
    have "length (?names ! i) < 8" using short nth_mem [of i ?names] i len by simp
    then show "c_string (dir_row (dir_buff sh) i) = ?names ! i" using c_string_short row by simp
  qed
  with b have "(\<forall>nm \<in> set ?names. length nm < 8) \<longrightarrow> screen sh = fold write_on (path_prompt ?names) before" by simp
  with titled_spells [OF inv n(1)] show ?thesis unfolding shows_way_def by blast
qed

end
