(* ===== verification/Shell_Session.thy ===== *)
theory Shell_Session
  imports Shell_Path
begin

unbundle bit_operations_syntax

text \<open>
  Whole sessions at the keyboard: typing the line of an acceptable command, with the enter key pressed
  and released, keeps the invariant of the shell, leaves the keyboard ready for the next line and
  makes the command's step in the abstract tree, with the prompt of the new place on the screen;
  \<open>main\<close> starts in the root with all this in place.
\<close>

section \<open>Lines\<close>

fun command_line :: "command \<Rightarrow> byte list" where
  "command_line (Cd nm) = str ''cd '' @ nm"
| "command_line Ls = str ''ls''"
| "command_line (Mkdir nm) = str ''mkdir '' @ nm"
| "command_line (Cat nm) = str ''cat '' @ nm"
| "command_line (Rm nm) = str ''rm '' @ nm"
| "command_line (Cp nm) = str ''cp '' @ nm"
| "command_line (Find nm) = str ''find '' @ nm"
| "command_line (Unknown w) = w"

lemma first_word_word: "32 \<notin> set nm \<Longrightarrow> first_word nm = nm"
  unfolding first_word_def by (auto intro: takeWhile_eq_all_conv [THEN iffD2])

lemma words_of_line:
  assumes "32 \<notin> set w"
  shows "first_word (w @ 32 # nm) = w" and "next_words (w @ 32 # nm) = nm"
proof -
  show w: "first_word (w @ 32 # nm) = w"
    using assms by (induction w) (auto simp: first_word_def)
  show "next_words (w @ 32 # nm) = nm" by (simp add: next_words_def w)
qed

lemma command_words:
  "str ''cd '' = str ''cd'' @ [32]" "str ''mkdir '' = str ''mkdir'' @ [32]" "str ''cat '' = str ''cat'' @ [32]"
  "str ''rm '' = str ''rm'' @ [32]" "str ''cp '' = str ''cp'' @ [32]" "str ''find '' = str ''find'' @ [32]"
  "list_all (\<lambda>s. 32 \<notin> set (str s)) command_names"
  by code_simp+

text \<open>Which command the first word selects.\<close>

definition selected :: "byte list \<Rightarrow> string option" where
  "selected w = List.find (\<lambda>s. take (length s) w = str s) command_names"

lemma selected_names: "list_all (\<lambda>s. selected (str s) = Some s) command_names"
  by code_simp

lemma find_command:
  "List.find (\<lambda>(s, _). take (length s) w = str s) (commands L v v2) = map_option (\<lambda>s. (s, the (map_of (commands L v v2) s))) (selected w)"
  unfolding selected_def command_names_def commands_def by simp

lemma selected_None: "selected w = None \<longleftrightarrow> list_all (\<lambda>s. take (length s) w \<noteq> str s) command_names"
  by (auto simp: selected_def find_None_iff list_all_iff)

definition lead :: "shell_layout \<Rightarrow> command \<Rightarrow> shell \<Rightarrow> shell run" where
  "lead L cmd = (case cmd of Unknown w \<Rightarrow> user_puts L (c_literal ([CHR 0x0A] @ ''Command not found'' @ [CHR 0x0A])) 0xC
     | _ \<Rightarrow> user_puts L (c_literal [CHR 0x0A]) 0x7)"

lemma block_skip: "block [f, block [], g] = block [f, g]"
  by (rule ext) (simp add: bind_run_def split: option.split sum.split)

lemma length_command_line: "acceptable cmd sh \<Longrightarrow> length (command_line cmd) \<le> 256"
  by (cases cmd) (simp_all add: word_def)

lemma parse_selected:
  assumes "selected w = Some s" and "32 \<notin> set w" and "length (w @ 32 # nm) \<le> 256" and "32 \<notin> set nm"
  shows "parseCommand L (line (w @ 32 # nm)) = block [user_puts L (c_literal [CHR 0x0A]) 0x7,
    the (map_of (commands L (line nm) (line [])) s), cetak_prompt L]"
proof -
  have "first_word (next_words nm) = []" using assms(4) by (simp add: next_words_def first_word_word)
  then show ?thesis
    unfolding parse_line [OF assms(3)] find_command words_of_line [OF assms(2)] first_word_word [OF assms(4)] assms(1)
    by simp
qed

lemma parse_command:
  assumes "acceptable cmd sh"
  shows "parseCommand L (line (command_line cmd)) = block [lead L cmd, run_of L cmd, cetak_prompt L]"
proof -
  have sel: "selected (str s) = Some s" "32 \<notin> set (str s)" if "s \<in> set command_names" for s
    using selected_names command_words(7) that by (simp_all add: list_all_iff)
  have ok: "length (str s @ 32 # nm) \<le> 256" "32 \<notin> set nm" if "word nm" "length s < 50" for s nm
    using that by (simp_all add: word_def)
  have parse: "parseCommand L (line (str s @ 32 # nm)) = block [user_puts L (c_literal [CHR 0x0A]) 0x7,
      the (map_of (commands L (line nm) (line [])) s), cetak_prompt L]"
    if "s \<in> set command_names" "word nm" "length s < 50" for s nm
    by (rule parse_selected [OF sel [OF that(1)] ok [OF that(2,3)]])
  note names = command_names_def commands_def lead_def command_words
  show ?thesis
  proof (cases cmd)
    case (Unknown w)
    then have w: "32 \<notin> set w" "selected w = None" using assms by (simp_all add: word_def selected_None)
    have l: "length w \<le> 256" using Unknown assms by (simp add: word_def)
    show ?thesis
      unfolding Unknown command_line.simps run_of.simps parse_line [OF l] find_command first_word_word [OF w(1)] w(2)
        lead_def block_skip by simp
  next
    case Ls
    have l: "length (str ''ls'') \<le> 256" by simp
    have "first_word (str ''ls'') = str ''ls''" "selected (str ''ls'') = Some ''ls''" by code_simp+
    then show ?thesis
      unfolding Ls command_line.simps run_of.simps parse_line [OF l] find_command by (simp add: commands_def lead_def)
  qed (use assms parse [of "''cd''"] parse [of "''mkdir''"] parse [of "''cat''"] parse [of "''rm''"] parse [of "''cp''"]
      parse [of "''find''"] in \<open>simp_all add: names\<close>)
qed

section \<open>One command\<close>

lemma acceptable_view:
  assumes "same_view s t"
  shows "acceptable cmd t = acceptable cmd s"
proof -
  have v: "currentDirCluster t = currentDirCluster s" "currentDir t = currentDir s" "buffer_index t = buffer_index s"
    and d: "same_files (disk s) (disk t)"
    using assms by (simp_all add: same_view_def same_place_def)
  note f = same_files_view [OF d]
  show ?thesis by (cases cmd) (simp_all add: v f cong: option.case_cong node.case_cong)
qed

lemma can_create_view:
  assumes "same_view s t"
  shows "can_create cmd t = can_create cmd s"
proof -
  have v: "currentDirCluster t = currentDirCluster s" and d: "same_files (disk s) (disk t)"
    using assms by (simp_all add: same_view_def same_place_def)
  show ?thesis by (cases cmd) (simp_all add: v same_files_view [OF d] before_same [OF d] cong: option.case_cong node.case_cong)
qed

lemma shell_inv_view: "same_view s t \<Longrightarrow> shell_inv s \<Longrightarrow> shell_inv t"
  using view.same_ok at_home_view same_place_tree [OF view_place] by (simp add: shell_inv_def)

lemma lead_keeps: "view.keeps (lead L cmd)"
  by (simp add: lead_def split: command.split)

context quiet_value
begin

lemma run_of_leaves: "leaves (run_of L cmd)"
  using leaves_block [of "[]"]
  by (cases cmd) (simp_all add: cd_leaves_value ls_leaves mkdir_leaves cat_leaves rm_leaves cp_leaves find_leaves)

lemma lead_leaves: "leaves (lead L cmd)"
  by (simp add: lead_def user_puts_leaves split: command.split)

end

lemma command_leaves_keys: "keys.leaves (block [lead L cmd, run_of L cmd, cetak_prompt L])"
  by (intro keys.leaves_block) (simp add: keys.lead_leaves keys.run_of_leaves prompt_leaves_keys)

lemma command_returns:
  assumes L: "shell_area L" and inv: "shell_inv sh" and acc: "acceptable cmd sh"
  shows "returns (block [lead L cmd, run_of L cmd, cetak_prompt L] sh)
    (\<lambda>t. shell_inv t \<and> tree_step (can_create cmd sh) (tree_of sh) cmd (tree_of t) \<and> (rows_ok sh \<longrightarrow> prompted t))"
proof -
  have sh: "shell_ok sh" using inv by (simp add: shell_inv_def)
  obtain s1 where s1: "lead L cmd sh = Some (Inr s1)" "same_view sh s1"
    using view.keepsD [OF lead_keeps sh] by (rule returnsE)
  have inv1: "shell_inv s1" by (rule shell_inv_view [OF s1(2) inv])
  have "acceptable cmd s1" using acc acceptable_view [OF s1(2)] by simp
  from command_simulates [OF L inv1 this] obtain s2 where s2: "run_of L cmd s1 = Some (Inr s2)" "shell_ok s2"
    "tree_step (can_create cmd s1) (tree_of s1) cmd (tree_of s2)" "keeps_titles (disk s1) (disk s2)"
    by (auto simp: simulates_def elim: returnsE)
  obtain s3 where s3: "cetak_prompt L s2 = Some (Inr s3)" "same_place s2 s3" "at_home s3"
    using prompt_returns [OF s2(2), of L] by (auto elim: returnsE)
  have t: "tree_of s1 = tree_of sh" "tree_of s3 = tree_of s2"
    by (rule same_place_tree [OF view_place [OF s1(2)]], rule same_place_tree [OF s3(2)])
  have step: "tree_step (can_create cmd sh) (tree_of sh) cmd (tree_of s3)" using s2(3) t can_create_view [OF s1(2)] by simp
  have "tree_ok (tree_of s3)" using tree_step_ok [OF step] inv by (simp add: shell_inv_def)
  then have "shell_inv s3" using place.same_ok [OF s3(2) s2(2)] s3(3) by (simp add: shell_inv_def)
  moreover have "prompted s3" if "rows_ok sh"
  proof -
    have "rows_ok s1" using that rows_ok_view [OF s1(2)] by simp
    moreover have "dir_buff s2 = dir_buff s1" by (rule rows.leavesD [OF rows.run_of_leaves s2(1)])
    ultimately have n: "titled (disk s2)" "rows_named (unat (buffer_index s2)) s2"
      by (rule step_rows [OF inv1 _ s2(3,2,4)])+
    have "text_area L" using L by (simp add: shell_area_def)
    from prompt_prompts [OF this s2(2) n] show ?thesis by (simp add: s3(1))
  qed
  ultimately show ?thesis using step by (simp add: s1(1) s2(1) s3(1))
qed

section \<open>Typing\<close>

definition enter :: "byte list \<Rightarrow> shell_event list" where
  "enter scs = concat (map stroke scs) @ [Key 0x1C, Pass, Key 0x9C]"

text \<open>Between two lines.\<close>

definition waiting :: "string_buff \<times> shell \<Rightarrow> bool" where
  "waiting s \<longleftrightarrow> fst s = stringBuff_create \<and> shell_inv (snd s) \<and> at_keyboard (snd s)"

lemma enter_held_keys: "enter_held sh \<longleftrightarrow> (\<exists>b. keys sh = (True, True, False, b))"
  by (auto simp: enter_held_def keys_def switches_def)

lemma prompted_view: "same_view s t \<Longrightarrow> screen t = screen s \<Longrightarrow> prompted s \<Longrightarrow> prompted t"
proof -
  assume a: "same_view s t" "screen t = screen s" "prompted s"
  then have "dir_buff t = dir_buff s" "buffer_index t = buffer_index s" by (simp_all add: same_view_def same_place_def)
  then show ?thesis using a(3) unfolding prompted_def rows_ok_view [OF a(1)] a(2) by simp
qed

lemma released_screen: "enter_held sh \<Longrightarrow> screen (keyed 0x9C sh) = screen sh"
  using release_enter(2) [of "(tty (sys sh))\<lparr>video := memory (files (sys sh))\<rparr>"]
  by (simp add: enter_held_def screen_def user_memory_def text_pos_def keyed_def with_console_def Let_def)

lemma typed_command:
  assumes L: "shell_area L" and w: "waiting (inp, sh)" and acc: "acceptable cmd sh"
    and scs: "list_all printable scs" "map key_char scs = command_line cmd"
  shows "returns (session L (enter scs) (inp, sh)) (\<lambda>s. waiting s
    \<and> tree_step (can_create cmd sh) (tree_of sh) cmd (tree_of (snd s)) \<and> (rows_ok sh \<longrightarrow> prompted (snd s)))"
proof -
  have inv: "shell_inv sh" and k: "at_keyboard sh" and inp: "inp = stringBuff_create" using w by (simp_all add: waiting_def)
  have "length scs \<le> 256" using length_command_line [OF acc] unfolding scs(2) [symmetric] by simp
  with typed_line [OF scs(1) k, of L] obtain s1 where s1: "same_view sh s1" "enter_held s1"
    "session L (concat (map stroke scs) @ [Key 0x1C, Pass]) (stringBuff_create, sh)
      = bind_run (parseCommand L (line (command_line cmd)) s1) (\<lambda>sh. Some (Inr (stringBuff_create, sh)))"
    unfolding scs(2) by auto
  have inv1: "shell_inv s1" by (rule shell_inv_view [OF s1(1) inv])
  have acc1: "acceptable cmd s1" using acc acceptable_view [OF s1(1)] by simp
  obtain s2 where s2: "block [lead L cmd, run_of L cmd, cetak_prompt L] s1 = Some (Inr s2)" "shell_inv s2"
    "tree_step (can_create cmd s1) (tree_of s1) cmd (tree_of s2)" "rows_ok s1 \<longrightarrow> prompted s2"
    using command_returns [OF L inv1 acc1] by (auto elim: returnsE simp del: block.simps)
  have "keys s2 = keys s1" by (rule keys.leavesD [OF command_leaves_keys s2(1)])
  then have "enter_held s2" using s1(2) by (simp add: enter_held_keys)
  then have k3: "at_keyboard (keyed 0x9C s2)" and "screen (keyed 0x9C s2) = screen s2" by (rule enter_released, rule released_screen)
  then have prompt: "rows_ok sh \<longrightarrow> prompted (keyed 0x9C s2)"
    using s2(4) rows_ok_view [OF s1(1)] prompted_view [OF keyed_view] by blast
  have inv3: "shell_inv (keyed 0x9C s2)" by (rule shell_inv_view [OF keyed_view s2(2)])
  have t: "tree_of s1 = tree_of sh" "tree_of (keyed 0x9C s2) = tree_of s2"
    by (rule same_place_tree [OF view_place [OF s1(1)]], rule same_place_tree [OF view_place [OF keyed_view]])
  have "enter scs = (concat (map stroke scs) @ [Key 0x1C, Pass]) @ [Key 0x9C]" by (simp add: enter_def)
  then have e: "session L (enter scs) s
      = bind_run (session L (concat (map stroke scs) @ [Key 0x1C, Pass]) s) (session L [Key 0x9C])" for s
    using session_append by metis
  have "session L (enter scs) (inp, sh) = Some (Inr (stringBuff_create, keyed 0x9C s2))"
    unfolding e inp s1(3) parse_command [OF acc] s2(1) by (simp add: session_def event_key)
  with k3 inv3 s2(3) t prompt can_create_view [OF s1(1)] show ?thesis by (simp add: waiting_def)
qed

text \<open>
  A session of lines, each acceptable where it is typed; it records with each command whether a
  node could be created there.
\<close>

inductive types :: "shell_layout \<Rightarrow> string_buff \<times> shell \<Rightarrow> (command \<times> bool) list \<Rightarrow> string_buff \<times> shell \<Rightarrow> bool" for L where
  stop: "types L s [] s"
| line: "acceptable cmd (snd s) \<Longrightarrow> list_all printable scs \<Longrightarrow> map key_char scs = command_line cmd \<Longrightarrow>
    session L (enter scs) s = Some (Inr s') \<Longrightarrow> types L s' cmds s'' \<Longrightarrow> types L s ((cmd, can_create cmd (snd s)) # cmds) s''"

inductive tree_steps :: "tree \<Rightarrow> (command \<times> bool) list \<Rightarrow> tree \<Rightarrow> bool" where
  here: "tree_steps t [] t"
| step: "tree_step able t cmd t' \<Longrightarrow> tree_steps t' cmds t'' \<Longrightarrow> tree_steps t ((cmd, able) # cmds) t''"

lemma session_walks:
  assumes "types L s cmds s'" and "shell_area L" and "waiting s"
  shows "waiting s' \<and> tree_steps (tree_of (snd s)) cmds (tree_of (snd s')) \<and> (prompted (snd s) \<longrightarrow> prompted (snd s'))"
  using assms
proof (induction rule: types.induct)
  case (stop s)
  then show ?case by (simp add: tree_steps.here)
next
  case (line cmd s scs s' cmds s'')
  obtain inp sh where s: "s = (inp, sh)" by fastforce
  have "waiting s' \<and> tree_step (can_create cmd sh) (tree_of sh) cmd (tree_of (snd s')) \<and> (prompted sh \<longrightarrow> prompted (snd s'))"
    using typed_command [OF line.prems(1) line.prems(2) [unfolded s] _ line.hyps(2,3)] line.hyps(1,4)
    by (simp add: s prompted_def [of sh])
  with line show ?case by (auto simp: s intro: tree_steps.step)
qed

section \<open>The start of main\<close>

definition zeroed :: "kernel \<Rightarrow> shell" where
  "zeroed k = \<lparr>currentDirCluster = 0, currentDir = replicate DIR_ENTRIES zero_dirent, parent_clusters = replicate 256 0,
     buffer_index = 0, dir_buff = replicate 2048 0, sys = k\<rparr>"

definition activated :: "shell \<Rightarrow> shell" where
  "activated sh = sh\<lparr>sys := (sys sh)\<lparr>tty := (tty (sys sh))\<lparr>kbd := keyboard_state_activate (kbd (tty (sys sh)))\<rparr>\<rparr>\<rparr>"

lemma activate_call: "user_syscall 7 b c d sh = Some (Inr (activated sh))"
  by (simp add: user_syscall_def syscall_def Let_def activated_def)

lemma activated_view: "same_view sh (activated sh)"
  by (simp add: same_view_def same_place_def shell_ok_def activated_def kernel_inv_def cursor_ok_def)

lemma activated_ready:
  "keys sh = (a, False, False, b) \<Longrightarrow> at_keyboard (activated sh)"
  by (simp add: keys_def switches_def at_keyboard_def ready_def activated_def keyboard_state_activate_def)

text \<open>No key is down, and the printer is on the screen.\<close>

definition keyboard_idle :: "kernel \<Rightarrow> bool" where
  "keyboard_idle k \<longleftrightarrow> \<not> key_pressed (kbd (tty k)) \<and> \<not> backspace_pressed (kbd (tty k))"

lemma shell_start_returns:
  assumes L: "shell_area L" and k: "kernel_inv k" and kb: "keyboard_idle k"
  shows "returns (shell_start L k) (\<lambda>s. waiting s \<and> tree_of (snd s) = tree_at (files k) ROOT_CLUSTER_NUMBER []
    \<and> same_files (files k) (disk (snd s)) \<and> (titled (files k) \<longrightarrow> prompted (snd s)))"
proof -
  let ?z = "(zeroed k)\<lparr>currentDirCluster := 2, buffer_index := 0\<rparr>"
  have wf: "wf_table (replicate DIR_ENTRIES zero_dirent)" by (simp add: wf_table_def list_all_iff)
  have ok: "shell_ok ?z" using k wf by (simp add: shell_ok_def zeroed_def)
  obtain s1 where s1: "currentDir_call L 3 (currentDirCluster ?z) ?z = Some (Inr s1)" "same_place ?z s1"
    using load_returns [of L ?z] by (auto elim: returnsE)
  have ok1: "shell_ok s1" by (rule place.same_ok [OF s1(2) ok])
  obtain s2 where s2: "cetak_prompt L s1 = Some (Inr s2)" "same_place s1 s2" "at_home s2"
    using prompt_returns [OF ok1, of L] by (auto elim: returnsE)
  have ok2: "shell_ok s2" by (rule place.same_ok [OF s2(2) ok1])
  have "keys s2 = keys ?z"
    using keys.leavesD [OF prompt_leaves_keys s2(1)] keys.leavesD [OF keys.currentDir_leaves [of 3 L currentDirCluster] s1(1)] by simp
  then have k3: "at_keyboard (activated s2)"
    using kb by (intro activated_ready) (simp add: keys_def switches_def zeroed_def keyboard_idle_def)
  have t: "tree_of (activated s2) = tree_at (files k) ROOT_CLUSTER_NUMBER []"
    using same_place_tree [OF s1(2)] same_place_tree [OF s2(2)] same_place_tree [OF view_place [OF activated_view [of s2]]]
    by (simp add: tree_of_def zeroed_def)
  have "same_files (disk ?z) (disk (activated s2))"
    using place_disk [OF s1(2)] place_disk [OF s2(2)] place_disk [OF view_place [OF activated_view [of s2]]] same_files_trans by blast
  then have same: "same_files (files k) (disk (activated s2))" by (simp add: zeroed_def)
  have "shell_ok (activated s2)" by (rule view.same_ok [OF activated_view ok2])
  moreover have "at_home (activated s2)" using at_home_view [OF activated_view] s2(3) by simp
  ultimately have inv: "shell_inv (activated s2)"
    using t root_tree_ok k by (simp add: shell_inv_def kernel_inv_def)
  moreover have "prompted (activated s2)" if "titled (files k)"
  proof -
    have "same_files (disk ?z) (disk s1)" "buffer_index s1 = 0" using s1(2) by (simp_all add: same_place_def zeroed_def)
    then have "titled (disk s1)" "rows_named (unat (buffer_index s1)) s1"
      using titled_same [of "disk ?z" "disk s1"] that by (simp_all add: rows_named_def zeroed_def)
    from prompt_prompts [OF _ ok1 this, of L] L s2(1) have "prompted s2" by (simp add: shell_area_def)
    then show ?thesis by (rule prompted_view [OF activated_view, rotated]) (simp add: screen_def user_memory_def activated_def text_pos_def)
  qed
  moreover have "shell_start L k = Some (Inr (stringBuff_create, activated s2))"
    using s1(1) s2(1) by (simp add: shell_start_def zeroed_def activate_call)
  ultimately show ?thesis using inv k3 t same by (simp add: waiting_def)
qed

end
