(* ===== verification/Shell_Move.thy ===== *)
theory Shell_Move
  imports Shell_Copy
begin

unbundle bit_operations_syntax

text \<open>
  \<open>mv\<close> of a file into a folder of the current directory. It enters the folder, reads the file from
  the old directory, writes the bytes before the first zero under the same name, and looks at an
  \<open>int\<close> of which the system call has set one byte. When the other three bytes are zero it goes back
  and removes the source; otherwise it stops, in the folder, with the source still there.
\<close>

section \<open>The bytes of the return code that no call writes\<close>

definition code_rest :: "shell_layout \<Rightarrow> shell \<Rightarrow> byte list" where
  "code_rest L sh = mem_read (user_memory sh) (at_code L + 1) 3"

definition mv_layout :: "shell_layout \<Rightarrow> bool" where
  "mv_layout L \<longleftrightarrow> layout_ok L \<and> user_area (at_dir L) CLUSTER_SIZE
     \<and> apart (at_code L) 4 (at_dir L) CLUSTER_SIZE \<and> apart (at_code L) 4 (at_request L) 23"

lemma code_next: "mv_layout L \<Longrightarrow> unat (at_code L + 1) = unat (at_code L) + 1"
  by (simp add: mv_layout_def layout_ok_def user_area_def unat_word_ariths)

lemma rest_apart:
  assumes "mv_layout L" and "user_area q (length bs)" and "apart (at_code L) 4 q (length bs)"
  shows "mem_read (mem_write m q bs) (at_code L + 1) 3 = mem_read m (at_code L + 1) 3"
  using assms code_next [OF assms(1)]
  by (intro mem_read_apart) (auto simp: mv_layout_def layout_ok_def user_area_def apart_def)

lemma update_write: "m(p := b) = mem_write m p [b]"
  by (rule ext) (auto simp: mem_write_def Let_def unat_eq_zero)

lemma rest_update_dir: "mv_layout L \<Longrightarrow> mem_read (m(at_dir L := b)) (at_code L + 1) 3 = mem_read m (at_code L + 1) 3"
  unfolding update_write by (intro rest_apart) (auto simp: mv_layout_def user_area_def apart_def)

lemma rest_update_code: "mem_read (m(at_code L := b)) (at_code L + 1) 3 = mem_read m (at_code L + 1) 3"
  by (simp add: mem_read_def numeral_3_eq_3)

lemma rest_requested:
  assumes "mv_layout L" and "wf_request r"
  shows "code_rest L (requested L r sh) = code_rest L sh"
  using assms requests.len_enc [OF assms(2)]
  by (simp add: code_rest_def requested_def put_object_memory rest_apart mv_layout_def layout_ok_def)

lemma retcode_parts: "retcode_int L sh = of_nat (le_val (user_memory sh (at_code L) # code_rest L sh))"
  using mem_read_Suc [of "user_memory sh" "at_code L" 3] by (simp add: retcode_int_def code_rest_def dec32_def)

lemma le_val_zero: "le_val bs = 0 \<longleftrightarrow> set bs \<subseteq> {0}"
  by (induction bs) (auto simp: unat_eq_zero)

lemma all_zero3: "length bs = 3 \<Longrightarrow> set bs \<subseteq> {0} \<longleftrightarrow> bs = [0, 0, 0]" for bs :: "byte list"
  by (auto simp: numeral_3_eq_3 length_Suc_conv)

lemma retcode_zero:
  assumes "user_memory sh (at_code L) = 0"
  shows "retcode_int L sh = 0 \<longleftrightarrow> code_rest L sh = [0, 0, 0]" and "retcode_int L sh \<noteq> 1"
proof -
  let ?v = "le_val (0 # code_rest L sh)"
  have len: "length (code_rest L sh) = 3" by (simp add: code_rest_def)
  have v: "?v < 4294967296" using le_val_less [of "0 # code_rest L sh"] len by simp
  then have "unat (of_nat ?v :: u32) = ?v" by (intro unat_of_nat32) simp
  then have u: "unat (retcode_int L sh) = ?v" unfolding retcode_parts assms .
  then have "retcode_int L sh = 0 \<longleftrightarrow> ?v = 0" by (metis unat_eq_zero)
  also have "\<dots> \<longleftrightarrow> set (code_rest L sh) \<subseteq> {0}" using le_val_zero [of "0 # code_rest L sh"] by simp
  also have "\<dots> \<longleftrightarrow> code_rest L sh = [0, 0, 0]" by (rule all_zero3 [OF len])
  finally show "retcode_int L sh = 0 \<longleftrightarrow> code_rest L sh = [0, 0, 0]" .
  have "even (unat (retcode_int L sh))" unfolding u by simp
  then show "retcode_int L sh \<noteq> 1" by auto
qed

section \<open>The stray call when no directory answers\<close>

lemma miss_cong:
  assumes "fat32_read_directory r st = (2, st)" and "storage st' = storage st"
  shows "fat32_read_directory r st' = (2, st')"
  using assms by (auto simp: fat32_read_directory_def split: option.splits if_splits)

lemma decode_first: "length bs = CLUSTER_SIZE \<Longrightarrow> name (decode_table bs ! 0) ! 0 = bs ! 0"
  by (simp add: decode_table_def decode_array_def decode_dirent_def chunk_def nth_map)

lemma stray_miss:
  assumes L: "mv_layout L" and sh: "shell_ok sh" and c: "user_area c 23" "apart c 23 (at_dir L) CLUSTER_SIZE"
    and miss: "fat32_read_directory (request_at (sys sh) c) (disk sh) = (2, disk sh)"
  shows "\<exists>t. currentDir_call L 1 c sh = Some (Inr t) \<and> same_place sh t \<and> code_rest L t = code_rest L sh
    \<and> name (currentDir t ! 0) ! 0 = 2"
proof -
  let ?s = "put_object (at_dir L) (encode_table (currentDir sh)) sh"
  have len: "length (encode_table (currentDir sh)) = CLUSTER_SIZE" using sh by (simp add: shell_ok_def)
  have area: "user_area (at_dir L) CLUSTER_SIZE" using L by (simp add: mv_layout_def)
  have "request_at (sys ?s) c = request_at (sys sh) c"
    using c area mem_read_apart [of c 23 "at_dir L" "encode_table (currentDir sh)"]
    by (simp add: request_at_def put_object_def len user_memory_def)
  moreover have "storage (disk ?s) = storage (disk sh)" by (simp add: put_object_def)
  ultimately have r: "fat32_read_directory (request_at (sys ?s) c) (disk ?s) = (2, disk ?s)"
    using miss_cong [OF miss] by simp
  let ?t = "?s\<lparr>sys := (sys ?s)\<lparr>files := store8 (at_dir L) 2 (disk ?s)\<rparr>\<rparr>"
  let ?bs = "mem_read (user_memory ?t) (at_dir L) CLUSTER_SIZE"
  have eq: "currentDir_call L 1 c sh = Some (Inr (?t\<lparr>currentDir := decode_table ?bs\<rparr>))"
    using r by (simp add: currentDir_call_def user_syscall_def syscall_def Let_def return_code_def)
  have mem: "user_memory ?t = (mem_write (user_memory sh) (at_dir L) (encode_table (currentDir sh)))(at_dir L := 2)"
    by (simp add: user_memory_def store8_def put_object_def)
  obtain u where "currentDir_call L 1 c sh = Some (Inr u)" "same_place sh u"
    using stray_call [OF sh, of L "\<lambda>_. c"] by (auto simp: returns_def)
  then have "same_place sh (?t\<lparr>currentDir := decode_table ?bs\<rparr>)" unfolding eq by simp
  moreover have "code_rest L (?t\<lparr>currentDir := decode_table ?bs\<rparr>) = code_rest L sh"
  proof -
    have "code_rest L (?t\<lparr>currentDir := decode_table ?bs\<rparr>) = mem_read (user_memory ?t) (at_code L + 1) 3"
      by (simp add: code_rest_def user_memory_def)
    also have "\<dots> = mem_read (mem_write (user_memory sh) (at_dir L) (encode_table (currentDir sh))) (at_code L + 1) 3"
      unfolding mem by (rule rest_update_dir [OF L])
    also have "\<dots> = code_rest L sh"
      unfolding code_rest_def using L by (intro rest_apart [OF L]) (simp_all add: len mv_layout_def)
    finally show ?thesis .
  qed
  moreover have "name (decode_table ?bs ! 0) ! 0 = 2" by (subst decode_first) (simp_all add: mem)
  ultimately show ?thesis unfolding eq by simp
qed

section \<open>mv\<close>

lemma mv_loop_named:
  assumes dst: "length dst \<le> 8" "0 \<notin> set dst" and es: "list_all wf_dirent es"
    and f: "List.find (named dst) es = Some e" and a: "attribute e = 0x10"
  shows "mv_loop L r filename (line dst) es sh = mv_file L r filename (line dst) sh"
proof -
  have le256: "length dst \<le> 256" using dst(1) by simp
  show ?thesis using es f
    by (induction es) (auto simp: named_def compare_name [OF le256 dst(2)] a split: if_splits)
qed

lemma find_folder_named:
  assumes "List.find (named dst) es = Some e" and "attribute e = 0x10"
  shows "List.find (folder_named dst) es = Some e"
proof -
  have f: "(0x10 :: byte) AND 0x10 \<noteq> 0" by code_simp
  from assms(1) show ?thesis
    by (induction es) (auto simp: named_def folder_named_def assms(2) f [simplified] split: if_splits)
qed

lemma mv_cd:
  assumes L: "mv_layout L" and sh: "shell_ok sh" and b: "unat (buffer_index sh) < 254"
    and dst: "length dst \<le> 8" "0 \<notin> set dst" "dst \<noteq> dots"
    and f: "List.find (folder_named dst) (currentDir sh) = Some e"
    and c: "user_area (entry_cluster e) 23" "apart (entry_cluster e) 23 (at_dir L) CLUSTER_SIZE"
    and miss: "fat32_read_directory (request_at (sys sh) (entry_cluster e)) (disk sh) = (2, disk sh)"
  shows "\<exists>t. cdNoPrint L (line dst) sh = Some (Inr t) \<and> shell_ok t \<and> same_files (disk sh) (disk t)
    \<and> currentDirCluster t = entry_cluster e \<and> buffer_index t = buffer_index sh + 1
    \<and> parent_clusters t = (parent_clusters sh)[unat (buffer_index sh) := currentDirCluster sh]
    \<and> code_rest L t = code_rest L sh \<and> name (currentDir t ! 0) ! 0 \<noteq> 0"
proof -
  let ?s = "sh\<lparr>parent_clusters := (parent_clusters sh)[unat (buffer_index sh) := currentDirCluster sh],
               buffer_index := buffer_index sh + 1, currentDirCluster := entry_cluster e\<rparr>"
  have es: "list_all wf_dirent (currentDir sh)" using sh by (simp add: shell_ok_def wf_table_def)
  have "unat (buffer_index sh + 1) = Suc (unat (buffer_index sh))" using b by (simp add: unat_word_ariths)
  then have ok: "shell_ok ?s" using sh b by (simp add: shell_ok_def)
  have n: "length (parent_clusters sh) = 256" using sh by (simp add: shell_ok_def)
  have m: "fat32_read_directory (request_at (sys ?s) (entry_cluster e)) (disk ?s) = (2, disk ?s)" using miss by simp
  from stray_miss [OF L ok c m] obtain t where
    t: "currentDir_call L 1 (entry_cluster e) ?s = Some (Inr t)" "same_place ?s t" "code_rest L t = code_rest L ?s"
      "name (currentDir t ! 0) ! 0 = 2" by blast
  have "cdNoPrint L (line dst) sh = cd_child L e sh"
    using slen_line_le [of dst] dst(1) cd_loop_child [OF dst es f] by (simp add: cdNoPrint_def)
  also have "\<dots> = Some (Inr t)" using b n t(1) by (simp add: cd_child_def)
  finally have "cdNoPrint L (line dst) sh = Some (Inr t)" .
  moreover have "code_rest L ?s = code_rest L sh" by (simp add: code_rest_def user_memory_def)
  ultimately show ?thesis using t(2-4) ok by (simp add: same_place_def)
qed

text \<open>Back in the old directory: the source is removed.\<close>

lemma write_plain:
  assumes con: "consistent st" and d: "parent_cluster_number r \<in> dirs st" "wf_request r" "fits r"
    and w: "fat32_write r st = Inr (0, st')" and q: "plain_request st (dirs st) q"
  shows "plain_request st' (dirs st') q"
proof -
  have inv: "fs_inv st (dirs st)" using con by (simp add: consistent_def)
  obtain slot slots where "write_step st st' (dirs st) r slot slots"
    by (rule fat32_write_cases [OF inv d]) (use w in auto)
  from ws_plain [OF this q] show ?thesis .
qed

lemma plain_size: "plain_request st D (user_request p nm d n) = plain_request st D (user_request p' nm d n')"
  by (simp add: plain_request_def)

lemma rmNoPrint_returns:
  assumes sh: "shell_ok sh" and nm: "length nm \<le> 8"
    and plain: "plain_request (disk sh) (dirs (disk sh)) (user_request 0 (padded nm) (currentDirCluster sh) 0)"
    and f: "lookup (disk sh) (currentDirCluster sh) (padded nm, replicate 3 0) = Some (File bs)"
  shows "returns (rmNoPrint L (line nm) sh) (\<lambda>t. shell_ok t \<and> same_vars sh t
    \<and> node_removed (disk sh) (disk t) (currentDirCluster sh) (padded nm) (File bs))"
proof -
  define r where "r = user_request 0 (padded nm) (currentDirCluster sh) 0"
  let ?st = "disk (requested L r sh)"
  have eq: "rmNoPrint L (line nm) sh = file_call L 8 r (\<lambda>_. block []) sh"
    using nm slen_line_le [of nm] by (simp add: rmNoPrint_def request_name_line r_def)
  have wf: "wf_request r" using nm by (simp add: r_def)
  note same = same_files_view [OF requested_disk [of sh L r]] and con = requested_consistent [OF sh, of L r]
  have "plain_request ?st (dirs ?st) r" using plain same by (simp add: r_def)
  from delete_outcome [OF con this r_def] f same before_same [OF requested_disk [of sh L r]] obtain st where
    w: "fat32_delete r ?st = Some (Inr (0, st))"
    and n: "node_removed (disk sh) st (currentDirCluster sh) (padded nm) (File bs)" by auto
  have st: "consistent st" using n by (simp add: node_removed_def)
  have k: "place.keeps (block [] :: shell \<Rightarrow> shell run)" by (rule keeps_view_place) simp
  have "returns (file_call L 8 r (\<lambda>_. block []) sh) (\<lambda>t. shell_ok t \<and> same_vars sh t \<and> same_files st (disk t))"
    using w by (intro call_then [OF file_call_return_code [OF wf]] sh st place.keepsD [OF k]) auto
  then show ?thesis unfolding eq using n by (elim returns_mono) (auto dest: node_removed_same)
qed

lemma dotdot_buffer: "bind_outcome (stringBuffInputChar 46 stringBuff_create) (stringBuffInputChar 46) = Inr (line dots)"
proof -
  have "[46, 46] = dots" by code_simp
  then show ?thesis using input_char_line [of "[]" 46] input_char_line [of "[46]" 46] by simp
qed

lemma mv_back_returns:
  assumes sh: "shell_ok sh" and c: "currentDirCluster sh \<noteq> ROOT_CLUSTER_NUMBER" and b: "buffer_index sh \<noteq> 0"
    and es: "name (currentDir sh ! 0) ! 0 \<noteq> 0" and nm: "length nm \<le> 8"
    and src: "src = parent_clusters sh ! unat (buffer_index sh - 1)"
    and plain: "plain_request (disk sh) (dirs (disk sh)) (user_request 0 (padded nm) src 0)"
    and f: "lookup (disk sh) src (padded nm, replicate 3 0) = Some (File bs)"
  shows "returns (mv_back L (line nm) sh) (\<lambda>t. shell_ok t \<and> currentDirCluster t = src
    \<and> buffer_index t = buffer_index sh - 1 \<and> parent_clusters t = parent_clusters sh
    \<and> node_removed (disk sh) (disk t) src (padded nm) (File bs))"
proof -
  obtain s1 where s1: "user_puts L (c_literal (''File moved successfully'' @ [CHR 0x0A])) 0x2 sh = Some (Inr s1)" "same_view sh s1"
    using view.keepsD [OF literal_keeps sh, of "''File moved successfully'' @ [CHR 0x0A]" L "0x2"] by (auto elim: returnsE)
  have ok1: "shell_ok s1" by (rule view.same_ok [OF s1(2) sh])
  have v1: "currentDirCluster s1 = currentDirCluster sh" "buffer_index s1 = buffer_index sh"
    "parent_clusters s1 = parent_clusters sh" "currentDir s1 = currentDir sh" "same_files (disk sh) (disk s1)"
    using s1(2) by (simp_all add: same_view_def same_place_def)
  have "currentDir sh ! 0 \<in> set (currentDir sh)" using sh by (intro nth_mem) (simp add: shell_ok_def wf_table_def)
  then have "\<exists>e \<in> set (currentDir s1). name e ! 0 \<noteq> 0" using es v1(4) by auto
  from cd_loop_parent [OF this] have "cdNoPrint L (line dots) s1 = cd_parent L (\<lambda>_ _. block []) s1"
    using slen_line_le [of dots] dots_name by (simp add: cdNoPrint_def)
  then obtain s2 where s2: "cdNoPrint L (line dots) s1 = Some (Inr s2)" "shell_ok s2" "same_files (disk s1) (disk s2)"
    "currentDirCluster s2 = src" "buffer_index s2 = buffer_index sh - 1" "parent_clusters s2 = parent_clusters sh"
    using cd_parent_returns [OF ok1, of "\<lambda>_ _. block []" L] c b v1 src by (auto simp: returns_def)
  have d2: "same_files (disk sh) (disk s2)" by (rule same_files_trans [OF v1(5) s2(3)])
  note same = same_files_view [OF d2]
  obtain s3 where s3: "rmNoPrint L (line nm) s2 = Some (Inr s3)" "shell_ok s3" "same_vars s2 s3"
    "node_removed (disk sh) (disk s3) src (padded nm) (File bs)"
    using rmNoPrint_returns [OF s2(2) nm, of bs L] plain f same before_same(2) [OF d2] s2(4)
    by (auto simp: returns_def)
  obtain s4 where s4: "currentDir_call L 3 (currentDirCluster s3) s3 = Some (Inr s4)" "same_place s3 s4"
    using load_returns [of L s3] by (auto simp: returns_def)
  have "mv_back L (line nm) sh = Some (Inr s4)"
    unfolding mv_back_def block.simps s1(1) bind_run_simps dotdot_buffer with_value_simps s2(1) s3(1) s4(1) ..
  moreover have "node_removed (disk sh) (disk s4) src (padded nm) (File bs)"
    using s3(4) node_removed_same [OF place_disk [OF s4(2)]] by blast
  ultimately show ?thesis
    using s4(2) s3(2,3) s2(4-6) by (simp add: same_place_def same_vars_def)
qed

text \<open>From the command to the look at the return code.\<close>

lemma rest_read:
  assumes L: "mv_layout L" and r: "wf_request r"
    and m: "\<forall>a. DATA_SIZE \<le> unat (a - at_data L) \<and> a \<noteq> at_code L \<longrightarrow> user_memory s a = user_memory (requested L r t) a"
  shows "code_rest L s = code_rest L t"
proof -
  have "user_memory s a = user_memory (requested L r t) a" if "a \<in> {at_code L + 1, at_code L + 1 + 1, at_code L + 1 + 2}" for a
  proof -
    have l: "user_area (at_data L) DATA_SIZE" "user_area (at_code L) 4" "apart (at_data L) DATA_SIZE (at_code L) 4"
      using L by (simp_all add: mv_layout_def layout_ok_def)
    have "a = at_code L + of_nat 1 \<or> a = at_code L + of_nat 2 \<or> a = at_code L + of_nat 3"
      using that by (simp add: add.assoc)
    then have "\<exists>k :: nat. 0 < k \<and> k < 4 \<and> a = at_code L + of_nat k"
    proof (elim disjE)
      assume "a = at_code L + of_nat 1" then show ?thesis by (intro exI [of _ 1]) simp
    next
      assume "a = at_code L + of_nat 2" then show ?thesis by (intro exI [of _ 2]) simp
    next
      assume "a = at_code L + of_nat 3" then show ?thesis by (intro exI [of _ 3]) simp
    qed
    then obtain k :: nat where k: "0 < k" "k < 4" "a = at_code L + of_nat k" by blast
    have u: "unat a = unat (at_code L) + k"
      using k(2) l(2) unfolding k(3) by (simp add: user_area_def unat_word_ariths unat_of_nat)
    then have "DATA_SIZE \<le> unat (a - at_data L)"
      using l k(2) by (auto simp: unat_sub_if' apart_def user_area_def)
    moreover have "a \<noteq> at_code L" using u k(1) by auto
    ultimately show ?thesis using m by blast
  qed
  then have "code_rest L s = code_rest L (requested L r t)"
    by (simp add: code_rest_def mem_read_def numeral_3_eq_3)
  with rest_requested [OF L r] show ?thesis by simp
qed

lemma line_name: "length nm \<le> 8 \<Longrightarrow> take 8 (chars (line nm)) = padded nm"
  by (simp add: line_def padded_def)


lemma mv_starts:
  assumes sh: "shell_ok sh" and nm: "length nm \<le> 8" and dst: "length dst \<le> 8" "0 \<notin> set dst"
    and e: "List.find (named dst) (currentDir sh) = Some e" "attribute e = 0x10"
  shows "mv L (line nm) (line dst) sh
    = mv_file L (data_request L (padded nm) (currentDirCluster sh)) (line nm) (line dst) sh"
proof -
  have es: "list_all wf_dirent (currentDir sh)" using sh by (simp add: shell_ok_def wf_table_def)
  have short: "(8 < slen (line dst)) = False" using slen_line_le [of dst] dst(1) by simp
  show ?thesis
    unfolding mv_def request_name_line [OF nm] with_value_simps short if_False by (rule mv_loop_named [OF dst es e])
qed

text \<open>The write into the folder, from a state that holds the data.\<close>

lemma mv_writes:
  assumes L: "mv_layout L" and s: "shell_ok s" and nm: "length nm \<le> 8" and c: "c \<in> dirs (disk s)"
    and n: "length bs \<le> DATA_SIZE" and data: "c_string (data_at L s) = c_string bs" "0 \<in> set (data_at L s)"
    and w_def: "w = user_request (at_data L) (padded nm) c (of_nat (length (c_string bs)))"
    and room: "\<not> name_taken (disk s) w" "has_room (disk s) w"
  obtains a c' where "data_length L s = Inr (of_nat (length (c_string bs)))"
    "\<And>rest. file_call L 2 w rest s = rest 0 a" "shell_ok a" "currentDirCluster a = currentDirCluster s"
    "buffer_index a = buffer_index s" "parent_clusters a = parent_clusters s" "currentDir a = currentDir s"
    "user_memory a (at_code L) = 0" "code_rest L a = code_rest L s"
    "node_added (disk s) (disk a) c (padded nm) (if c_string bs = [] then Folder c' else File (c_string bs))"
    "\<And>q. plain_request (disk s) (dirs (disk s)) q \<Longrightarrow> plain_request (disk a) (dirs (disk a)) q"
proof -
  have Lo: "layout_ok L" using L by (simp add: mv_layout_def)
  obtain st c' where w: "data_length L s = Inr (of_nat (length (c_string bs)))"
    "fat32_write w (disk (requested L w s)) = Inr (0, st)" "memory st = memory (disk (requested L w s))"
    "node_added (disk s) st c (padded nm) (if c_string bs = [] then Folder c' else File (c_string bs))"
    by (rule store_data [OF Lo s _ _ data w_def]) (use nm c room in auto)
  let ?a = "answered L 0 st (requested L w s)"
  note same = same_files_view [OF requested_disk [of s L w]]
  have wf: "wf_request w" using nm by (simp add: w_def)
  have fit: "length (c_string bs) \<le> MAX_FILE" "length (c_string bs) < 4294967296"
    using length_takeWhile_le [of "\<lambda>b. b \<noteq> 0" bs] n by (simp_all add: c_string_def MAX_FILE_def)
  have st: "consistent st" using w(4) by (simp add: node_added_def)
  have mem: "user_memory ?a = (user_memory (requested L w s))(at_code L := 0)"
    using w(3) by (simp add: user_memory_def store8_def)
  show thesis
  proof (rule that [of ?a c'])
    show "file_call L 2 w rest s = rest 0 ?a" for rest
      using w(2) by (intro file_call_return_code [OF wf]) auto
    show "shell_ok ?a" by (rule answered_ok [OF view.same_ok [OF requested_view s] st])
    show "user_memory ?a (at_code L) = 0" by (simp add: mem)
    show "code_rest L ?a = code_rest L s"
      using rest_requested [OF L wf, of s] by (simp add: code_rest_def mem rest_update_code)
    show "node_added (disk s) (disk ?a) c (padded nm) (if c_string bs = [] then Folder c' else File (c_string bs))"
      using w(4) node_added_same [of st "disk ?a"] by simp
    fix q assume "plain_request (disk s) (dirs (disk s)) q"
    then have "plain_request (disk (requested L w s)) (dirs (disk (requested L w s))) q" using same by simp
    from write_plain [OF requested_consistent [OF s] _ wf _ w(2) this] have "plain_request st (dirs st) q"
      using c same fit by (simp add: w_def)
    then show "plain_request (disk ?a) (dirs (disk ?a)) q" using same_files_view [of st "disk ?a"] by simp
  qed (use w(1) requested_view [of s L w] in \<open>simp_all add: same_view_def same_place_def\<close>)
qed

lemma mv_copied:
  assumes L: "mv_layout L" and sh: "shell_ok sh" and b: "unat (buffer_index sh) < 254" and nm: "length nm \<le> 8"
    and dst: "length dst \<le> 8" "0 \<notin> set dst" "dst \<noteq> dots"
    and e: "List.find (named dst) (currentDir sh) = Some e" "attribute e = 0x10"
    and c: "entry_cluster e \<in> dirs (disk sh)"
    and stray: "user_area (entry_cluster e) 23" "apart (entry_cluster e) 23 (at_dir L) CLUSTER_SIZE"
      "fat32_read_directory (request_at (sys sh) (entry_cluster e)) (disk sh) = (2, disk sh)"
    and plain: "plain_request (disk sh) (dirs (disk sh)) (data_request L (padded nm) (currentDirCluster sh))"
    and f: "lookup (disk sh) (currentDirCluster sh) (padded nm, replicate 3 0) = Some (File bs)"
    and n: "length bs \<le> DATA_SIZE" and z: "0 \<in> set bs"
    and w_def: "w = user_request (at_data L) (padded nm) (entry_cluster e) (of_nat (length (c_string bs)))"
    and room: "\<not> name_taken (disk sh) w" "has_room (disk sh) w"
  obtains a c' where "mv L (line nm) (line dst) sh
      = (if code_rest L sh = [0, 0, 0] then mv_back L (line nm) a else Some (Inr a))"
    "shell_ok a" "currentDirCluster a = entry_cluster e" "buffer_index a = buffer_index sh + 1"
    "parent_clusters a = (parent_clusters sh)[unat (buffer_index sh) := currentDirCluster sh]"
    "name (currentDir a ! 0) ! 0 \<noteq> 0"
    "node_added (disk sh) (disk a) (entry_cluster e) (padded nm)
       (if c_string bs = [] then Folder c' else File (c_string bs))"
    "plain_request (disk a) (dirs (disk a)) (user_request 0 (padded nm) (currentDirCluster sh) 0)"
proof -
  have Lo: "layout_ok L" using L by (simp add: mv_layout_def)
  let ?r = "data_request L (padded nm) (currentDirCluster sh)" and ?c = "entry_cluster e"
  obtain t where t: "cdNoPrint L (line dst) sh = Some (Inr t)" "shell_ok t" "same_files (disk sh) (disk t)"
    "currentDirCluster t = ?c" "buffer_index t = buffer_index sh + 1"
    "parent_clusters t = (parent_clusters sh)[unat (buffer_index sh) := currentDirCluster sh]"
    "code_rest L t = code_rest L sh" "name (currentDir t ! 0) ! 0 \<noteq> 0"
    using mv_cd [OF L sh b dst find_folder_named [OF e] stray] by blast
  note same = same_files_view [OF t(3)]
  obtain s where s: "\<forall>rest. file_call L 0 ?r rest t = rest 0 s" "same_view t s" "take (length bs) (data_at L s) = bs"
    "\<forall>a. DATA_SIZE \<le> unat (a - at_data L) \<and> a \<noteq> at_code L \<longrightarrow> user_memory s a = user_memory (requested L ?r t) a"
    by (rule read_file_call [OF Lo t(2) refl _ _ n]) (use plain f same in simp_all)
  have oks: "shell_ok s" by (rule view.same_ok [OF s(2) t(2)])
  have vs: "currentDirCluster s = ?c" "buffer_index s = buffer_index t" "parent_clusters s = parent_clusters t"
    "currentDir s = currentDir t" "same_files (disk t) (disk s)"
    using s(2) t(4) by (simp_all add: same_view_def same_place_def)
  have "wf_request ?r" using nm by simp
  from rest_read [OF L this s(4)] have rs: "code_rest L s = code_rest L sh" using t(7) by simp
  have data: "c_string (data_at L s) = c_string bs" "0 \<in> set (data_at L s)"
    using c_string_take [OF s(3) z] by simp_all
  note d = same_files_trans [OF t(3) vs(5)]
  note same_s = same_files_view [OF d] before_same [OF d]
  obtain a c' where a: "data_length L s = Inr (of_nat (length (c_string bs)))"
    "\<And>rest. file_call L 2 w rest s = rest 0 a" "shell_ok a" "currentDirCluster a = currentDirCluster s"
    "buffer_index a = buffer_index s" "parent_clusters a = parent_clusters s" "currentDir a = currentDir s"
    "user_memory a (at_code L) = 0" "code_rest L a = code_rest L s"
    "node_added (disk s) (disk a) ?c (padded nm) (if c_string bs = [] then Folder c' else File (c_string bs))"
    "\<And>q. plain_request (disk s) (dirs (disk s)) q \<Longrightarrow> plain_request (disk a) (dirs (disk a)) q"
    by (rule mv_writes [OF L oks nm _ n data w_def]) (use c room same_s in auto)
  note code = retcode_zero [OF a(8), unfolded a(9) rs]
  have last: "bind_run x (block []) = x" for x :: "shell run"
    by (simp add: bind_run_def split: option.split sum.split)
  show thesis
  proof (rule that [of a c'])
    show "mv L (line nm) (line dst) sh = (if code_rest L sh = [0, 0, 0] then mv_back L (line nm) a else Some (Inr a))"
      unfolding mv_starts [OF sh nm dst(1,2) e] mv_file_def block.simps t(1) bind_run_simps s(1) [rule_format] a(1) with_value_simps
        last line_name [OF nm] vs(1) w_def [symmetric] a(2) code(1) using code(2) by simp
    have "plain_request (disk sh) (dirs (disk sh)) (user_request 0 (padded nm) (currentDirCluster sh) 0)"
      using plain by (simp add: plain_request_def)
    then show "plain_request (disk a) (dirs (disk a)) (user_request 0 (padded nm) (currentDirCluster sh) 0)"
      by (intro a(11)) (simp add: same_s)
    show "node_added (disk sh) (disk a) ?c (padded nm) (if c_string bs = [] then Folder c' else File (c_string bs))"
      using a(10) same_s by simp
  qed (use t vs a in simp_all)
qed


lemma mv_returns:
  assumes L: "mv_layout L" and sh: "shell_ok sh" and b: "unat (buffer_index sh) < 254" and nm: "length nm \<le> 8"
    and dst: "length dst \<le> 8" "0 \<notin> set dst" "dst \<noteq> dots"
    and e: "List.find (named dst) (currentDir sh) = Some e" "attribute e = 0x10"
    and c: "entry_cluster e \<in> dirs (disk sh)" "entry_cluster e \<noteq> ROOT_CLUSTER_NUMBER" "entry_cluster e \<noteq> currentDirCluster sh"
    and stray: "user_area (entry_cluster e) 23" "apart (entry_cluster e) 23 (at_dir L) CLUSTER_SIZE"
      "fat32_read_directory (request_at (sys sh) (entry_cluster e)) (disk sh) = (2, disk sh)"
    and plain: "plain_request (disk sh) (dirs (disk sh)) (data_request L (padded nm) (currentDirCluster sh))"
    and f: "lookup (disk sh) (currentDirCluster sh) (padded nm, replicate 3 0) = Some (File bs)"
    and n: "length bs \<le> DATA_SIZE" and z: "0 \<in> set bs"
    and w_def: "w = user_request (at_data L) (padded nm) (entry_cluster e) (of_nat (length (c_string bs)))"
    and room: "\<not> name_taken (disk sh) w" "has_room (disk sh) w"
  shows "returns (mv L (line nm) (line dst) sh) (\<lambda>t. shell_ok t \<and> (\<exists>st c'.
    node_added (disk sh) st (entry_cluster e) (padded nm) (if c_string bs = [] then Folder c' else File (c_string bs))
    \<and> (if code_rest L sh = [0, 0, 0]
       then node_removed st (disk t) (currentDirCluster sh) (padded nm) (File bs)
         \<and> currentDirCluster t = currentDirCluster sh \<and> buffer_index t = buffer_index sh
       else same_files st (disk t) \<and> currentDirCluster t = entry_cluster e \<and> buffer_index t = buffer_index sh + 1)))"
proof -
  obtain a c' where a: "mv L (line nm) (line dst) sh
      = (if code_rest L sh = [0, 0, 0] then mv_back L (line nm) a else Some (Inr a))"
    "shell_ok a" "currentDirCluster a = entry_cluster e" "buffer_index a = buffer_index sh + 1"
    "parent_clusters a = (parent_clusters sh)[unat (buffer_index sh) := currentDirCluster sh]"
    "name (currentDir a ! 0) ! 0 \<noteq> 0"
    "node_added (disk sh) (disk a) (entry_cluster e) (padded nm)
       (if c_string bs = [] then Folder c' else File (c_string bs))"
    "plain_request (disk a) (dirs (disk a)) (user_request 0 (padded nm) (currentDirCluster sh) 0)"
    by (rule mv_copied [OF L sh b nm dst e c(1) stray plain f n z w_def room])
  show ?thesis
  proof (cases "code_rest L sh = [0, 0, 0]")
    case False
    then show ?thesis unfolding a(1) using a(2-4,7) by (auto intro!: exI [of _ "disk a"] exI [of _ c'])
  next
    case True
    have d: "currentDirCluster sh \<in> dirs (disk sh)" using plain by (simp add: plain_request_def)
    have l: "lookup (disk a) (currentDirCluster sh) (padded nm, replicate 3 0) = Some (File bs)"
      using a(7) f d c(3) by (simp add: node_added_def)
    have "length (parent_clusters sh) = 256" using sh by (simp add: shell_ok_def)
    then have src: "currentDirCluster sh = parent_clusters a ! unat (buffer_index a - 1)" using b by (simp add: a(4,5))
    have "unat (buffer_index sh + 1) = Suc (unat (buffer_index sh))" using b by (simp add: unat_word_ariths)
    then have "buffer_index a \<noteq> 0" unfolding a(4) by (metis unat_0 nat.distinct(1))
    from mv_back_returns [OF a(2) _ this a(6) nm src a(8) l, of L] c(2) a(3)
    have "returns (mv_back L (line nm) a) (\<lambda>t. shell_ok t \<and> currentDirCluster t = currentDirCluster sh
      \<and> buffer_index t = buffer_index a - 1 \<and> parent_clusters t = parent_clusters a
      \<and> node_removed (disk a) (disk t) (currentDirCluster sh) (padded nm) (File bs))" by simp
    then have "returns (mv L (line nm) (line dst) sh) (\<lambda>t. shell_ok t \<and> currentDirCluster t = currentDirCluster sh
      \<and> buffer_index t = buffer_index a - 1 \<and> parent_clusters t = parent_clusters a
      \<and> node_removed (disk a) (disk t) (currentDirCluster sh) (padded nm) (File bs))" using True a(1) by simp
    then show ?thesis
      using True a(7) unfolding a(4) by (elim returns_mono) (auto intro!: exI [of _ "disk a"] exI [of _ c'])
  qed
qed

end
