(* ===== verification/Session_Properties.thy ===== *)
theory Session_Properties
  imports Shell_Properties Shell_Session Shell_Move
begin

unbundle bit_operations_syntax

text \<open>
  The properties of whole sessions at the keyboard: a typed command line is a step of the abstract
  tree, a session is a walk through it, and what \<open>ls\<close> and the prompt put on the screen; and \<open>mv\<close>,
  whose outcome hangs on three bytes that it never sets. The prompt is the path of the abstract tree.
\<close>

section \<open>Sessions walk the tree\<close>

text \<open>C9: At the prompt, typing the line of an acceptable command and the enter key always returns,
  with the shell at the prompt again, its invariant intact, the input buffer empty and the keyboard
  ready, and what has happened to the directory tree, the current folder and the folders above it
  is a step of that command on the abstract tree; \<open>mkdir\<close> and \<open>cp\<close> create their node exactly when the
  name is free in the directory and a slot and the clusters are left.\<close>

theorem typed_command_steps_the_tree:
  assumes "shell_area L" and "waiting (inp, sh)" and "acceptable cmd sh"
    and "list_all printable scs" and "map key_char scs = command_line cmd"
  shows "returns (session L (enter scs) (inp, sh)) (\<lambda>s. waiting s \<and> tree_step (can_create cmd sh) (tree_of sh) cmd (tree_of (snd s)))"
  using typed_command [OF assms] by (rule returns_mono) simp

lemma demo_area: "shell_area demo_layout"
  using demo_layout_ok by (simp add: shell_area_def) (simp add: text_area_def demo_layout_def user_area_def)

lemma shell_on_waiting: "consistent st \<Longrightarrow> waiting (stringBuff_create, shell_on st)"
  using shell_on_ok [of st] root_tree_ok [of st]
  by (simp add: waiting_def shell_inv_def at_home_def tree_of_def at_keyboard_def)

text \<open>The keys of \<open>mkdir docs\<close> and of \<open>find docs\<close>.\<close>

definition mkdir_docs :: "byte list" where
  "mkdir_docs = [0x32, 0x25, 0x20, 0x17, 0x13, 0x39, 0x20, 0x18, 0x2E, 0x1F]"

definition find_docs_keys :: "byte list" where
  "find_docs_keys = [0x21, 0x17, 0x31, 0x20, 0x39, 0x20, 0x18, 0x2E, 0x1F]"

lemma docs_keys:
  "list_all printable mkdir_docs" "map key_char mkdir_docs = command_line (Mkdir (str ''docs''))"
  "list_all printable find_docs_keys" "map key_char find_docs_keys = command_line (Find (str ''docs''))"
  "word (str ''docs'')"
  by code_simp+

lemma mkdir_docs_creates: "can_create (Mkdir (str ''docs'')) (shell_on demo_fs)"
proof -
  have n: "length (str ''docs'') \<le> 8" by code_simp
  have "\<not> name_taken demo_fs demo_docs \<and> has_room demo_fs demo_docs"
    by (rule fresh_room [OF demo_shell_root(2) demo_docs_def]) simp
  then show ?thesis using n by (simp add: demo_docs_def)
qed

theorem typed_command_steps_the_tree_witness:
  "returns (session demo_layout (enter mkdir_docs) (stringBuff_create, shell_on demo_fs))
     (\<lambda>s. waiting s \<and> (\<exists>c. nodes (tree_of (snd s)) ROOT_CLUSTER_NUMBER (padded (str ''docs''), replicate 3 0) = Some (Folder c)))"
proof -
  let ?t = "tree_of (shell_on demo_fs)"
  have t: "here ?t = ROOT_CLUSTER_NUMBER" "ROOT_CLUSTER_NUMBER \<in> folders ?t" by (simp_all add: tree_of_def tree_at_def)
  have made: "\<exists>c. nodes t' ROOT_CLUSTER_NUMBER (padded (str ''docs''), replicate 3 0) = Some (Folder c)"
    if "tree_step True ?t (Mkdir (str ''docs'')) t'" for t'
    using that t by cases (auto simp: put_node_sel)
  have "acceptable (Mkdir (str ''docs'')) (shell_on demo_fs)" by (simp add: docs_keys(5))
  from typed_command_steps_the_tree [OF demo_area shell_on_waiting [OF demo_consistent(1)] this docs_keys(1,2)]
  show ?thesis unfolding eqTrueI [OF mkdir_docs_creates] by (rule returns_mono) (use made in blast)
qed

text \<open>C10: A session of any number of such lines keeps the invariant of the shell and of its tree (the
  open folders lead from the root to the current one) and is a walk of the abstract tree.\<close>

theorem session_walks_the_tree:
  assumes "types L s cmds s'" and "shell_area L" and "waiting s"
  shows "waiting s' \<and> tree_ok (tree_of (snd s')) \<and> tree_steps (tree_of (snd s)) cmds (tree_of (snd s'))"
proof -
  have w: "waiting s' \<and> tree_steps (tree_of (snd s)) cmds (tree_of (snd s'))" using session_walks [OF assms] by simp
  then have "tree_ok (tree_of (snd s'))" by (simp add: waiting_def shell_inv_def)
  with w show ?thesis by simp
qed

theorem session_walks_the_tree_witness:
  "\<exists>s. types demo_layout (stringBuff_create, shell_on demo_fs) [(Mkdir (str ''docs''), True), (Find (str ''docs''), False)] s
    \<and> waiting s \<and> tree_ok (tree_of (snd s))
    \<and> tree_steps (tree_of (shell_on demo_fs)) [(Mkdir (str ''docs''), True), (Find (str ''docs''), False)] (tree_of (snd s))"
proof -
  let ?s = "(stringBuff_create, shell_on demo_fs)"
  note w = shell_on_waiting [OF demo_consistent(1)]
  have acc: "acceptable (Mkdir (str ''docs'')) sh" "acceptable (Find (str ''docs'')) sh" for sh
    by (simp_all add: docs_keys(5))
  obtain s1 where s1: "session demo_layout (enter mkdir_docs) ?s = Some (Inr s1)" "waiting s1"
    using typed_command [OF demo_area w acc(1) docs_keys(1,2)] by (auto elim: returnsE)
  then obtain inp sh where sh: "s1 = (inp, sh)" "waiting (inp, sh)" by (cases s1) simp
  obtain s2 where s2: "session demo_layout (enter find_docs_keys) s1 = Some (Inr s2)"
    using typed_command [OF demo_area sh(2) acc(2) docs_keys(3,4)] sh(1) by (auto elim: returnsE)
  have "types demo_layout s1 [(Find (str ''docs''), False)] s2"
    using types.line [OF acc(2) docs_keys(3,4) s2 types.stop] by simp
  then have t: "types demo_layout ?s [(Mkdir (str ''docs''), True), (Find (str ''docs''), False)] s2"
    using types.line [OF acc(1) docs_keys(1,2) s1(1)] unfolding snd_conv eqTrueI [OF mkdir_docs_creates] by simp
  from session_walks_the_tree [OF t demo_area w] t show ?thesis by (intro exI [of _ s2]) simp
qed

section \<open>What the screen shows\<close>

text \<open>C36: \<open>ls\<close> loads the table of the current cluster and prints, from the printer's position on and
  in green, one string per entry from the third on whose name is not empty, each followed by a
  blank, and a new line, and changes nothing else on the screen. The string is the bytes of the
  entry up to the first zero: a name of eight characters without an extension is followed by
  nothing, one with an extension by the extension.\<close>

theorem ls_shows_the_directory:
  assumes "text_area L" and "shell_ok sh"
    and "list_all printable_entry (drop 2 (dir_at (storage (disk sh)) (currentDirCluster sh)))"
  shows "returns (ls L sh) (\<lambda>t. same_place sh t \<and> at_home t
    \<and> screen t = fold write_on
        (concat (map (\<lambda>e. if name e ! 0 = 0 then [] else [(2, c_string (encode_dirent e)), (2, str '' '')])
           (drop 2 (dir_at (storage (disk sh)) (currentDirCluster sh)))) @ [(2, [10])]) (screen sh))"
  using ls_emits [OF assms] unfolding ls_text_def entry_text_def .

lemma one_entry:
  assumes "2 \<le> i" and "i < DIR_ENTRIES" and "f zero_dirent = []"
  shows "concat (map f (drop 2 (root_table[i := e]))) = f e"
proof -
  have one: "concat (map f ((replicate n zero_dirent)[k := e])) = f e" if "k < n" for k n
    using that
  proof (induction k arbitrary: n)
    case 0
    then show ?case using assms(3) by (cases n) simp_all
  next
    case (Suc k)
    then show ?case using assms(3) by (cases n) simp_all
  qed
  have "drop 2 (root_table[i := e]) = (drop 2 root_table)[i - 2 := e]" by (rule drop_update_swap [OF assms(1)])
  also have "drop 2 root_table = replicate 62 zero_dirent" by (rule nth_equalityI) (simp_all add: root_table_def)
  finally show ?thesis using assms(1,2) by (simp add: one)
qed

lemma c_string_zeros: "0 \<notin> set nm \<Longrightarrow> 0 < k \<Longrightarrow> c_string (nm @ replicate k 0 @ bs) = nm"
proof -
  assume nm: "0 \<notin> set nm" and "0 < k"
  then obtain m where "k = Suc m" by (cases k) simp_all
  moreover have "\<forall>b \<in> set nm. b \<noteq> 0" using nm by auto
  ultimately show ?thesis by (simp add: c_string_def takeWhile_append2)
qed

lemma docs_listed: "c_string (encode_dirent (new_entry demo_docs True c)) = str ''docs''"
proof -
  have "encode_dirent (new_entry demo_docs True c) = padded (str ''docs'') @ drop 8 (encode_dirent (new_entry demo_docs True c))"
    by (simp add: encode_dirent_def new_entry_def demo_docs_def user_request_def)
  moreover have "c_string (padded (str ''docs'') @ bs) = str ''docs''" for bs
  proof -
    have "0 \<notin> set (str ''docs'')" by code_simp
    from c_string_zeros [OF this, of 4 bs] show ?thesis by (simp add: padded_def)
  qed
  ultimately show ?thesis by metis
qed

theorem ls_shows_the_directory_witness:
  "\<exists>st. lookup st ROOT_CLUSTER_NUMBER \<noteq> Map.empty
    \<and> returns (ls demo_layout (shell_on st))
        (\<lambda>t. screen t = fold write_on [(2, str ''docs''), (2, str '' ''), (2, [10])] (screen (shell_on st)))"
proof -
  obtain st c slot slots where con: "consistent st"
    and t: "dir_at (storage st) ROOT_CLUSTER_NUMBER = root_table[slot := new_entry demo_docs True c]"
    and l: "lookup st ROOT_CLUSTER_NUMBER = [(padded (str ''docs''), replicate 3 0) \<mapsto> Folder c]"
    and sl: "2 \<le> slot" "slot < DIR_ENTRIES" by (rule docs_step) blast
  let ?e = "new_entry demo_docs True c"
  have nm: "name ?e ! 0 \<noteq> 0" using docs_entry by (simp add: folder_named_def)
  have "0 \<in> set (encode_dirent ?e)"
    by (simp add: encode_dirent_def new_entry_def demo_docs_def user_request_def padded_def)
  then have "printable_entry e" if "e \<in> insert ?e {zero_dirent}" for e using that by (auto simp: printable_entry_def)
  moreover have "set (drop 2 (root_table[slot := ?e])) \<subseteq> insert ?e {zero_dirent}"
    using sl by (auto simp: drop_update_swap [OF sl(1)] in_set_conv_nth root_table_def nth_list_update)
  ultimately have p: "list_all printable_entry (drop 2 (dir_at (storage st) ROOT_CLUSTER_NUMBER))"
    unfolding t list_all_iff by blast
  have "lookup st ROOT_CLUSTER_NUMBER \<noteq> Map.empty" by (simp add: l)
  with ls_shows_the_directory [of demo_layout "shell_on st"] shell_on_ok [OF con] p demo_area show ?thesis
    by (intro exI [of _ st] conjI)
      (auto simp: shell_area_def t one_entry [OF sl] nm docs_listed elim!: returns_mono)
qed

text \<open>The prompt loads the table of the current cluster, puts the name of its first entry into the
  row of the current depth, and prints the user and machine, then the rows of all depths up to
  the current one with slashes between them, and the dollar. A row ends at the first zero: a name
  of eight characters has none in its row, and the print runs on into the rows below.\<close>

theorem prompt_shows_the_path:
  assumes "text_area L" and "shell_ok sh"
  shows "returns (cetak_prompt L sh) (\<lambda>t. same_place sh t \<and> at_home t
    \<and> dir_buff t = set_dir_row (unat (buffer_index sh)) (name (dir_at (storage (disk sh)) (currentDirCluster sh) ! 0)) (dir_buff sh)
    \<and> screen t = fold write_on
        ([(5, str ''Istiqomah@OS-IF2230:''), (9, str ''/'')]
         @ concat (map (\<lambda>i. (9, c_string (drop (8 * i) (dir_buff t))) # (if i \<noteq> unat (buffer_index sh) then [(9, str ''/'')] else []))
             [0..<Suc (unat (buffer_index sh))])
         @ [(7, str ''$ '')]) (screen sh))"
  using prompt_emits [OF assms] unfolding prompt_text_def path_text_def row_text_def dir_row_def .

theorem prompt_shows_the_path_witness:
  "returns (cetak_prompt demo_layout (shell_on demo_fs)) (\<lambda>t. screen t
     = fold write_on [(5, str ''Istiqomah@OS-IF2230:''), (9, str ''/''), (9, str ''root''), (7, str ''$ '')] (screen (shell_on demo_fs)))"
proof -
  have "drop 0 (set_dir_row 0 root_name (dir_buff (shell_on demo_fs))) = root_name @ drop 8 (dir_buff (shell_on demo_fs))"
    using dir_row_set [of root_name 0 "dir_buff (shell_on demo_fs)"] by (simp add: dir_row_def shell_on_def root_name_def)
  moreover have "c_string (root_name @ bs) = str ''root''" for bs
  proof -
    have "0 \<notin> set (str ''root'')" by code_simp
    from c_string_zeros [OF this, of 4 bs] show ?thesis by (simp add: root_name_def)
  qed
  ultimately have "c_string (set_dir_row 0 root_name (dir_buff (shell_on demo_fs))) = str ''root''" by simp
  moreover have "name (dir_at (storage demo_fs) ROOT_CLUSTER_NUMBER ! 0) = root_name" by (simp add: fresh_table root_table_def)
  ultimately show ?thesis
    using prompt_shows_the_path [of demo_layout "shell_on demo_fs"] shell_on_ok [OF demo_consistent(1)] demo_area
    by (auto simp: shell_area_def elim!: returns_mono)
qed

text \<open>C11: From the start of the shell on a device whose directories carry the names of their entries,
  as every reachable one does, and after any session, the last thing that was printed is the user
  and machine, an absolute path and the dollar: the path starts with \<open>root\<close> and goes on with the names
  under which each open directory is found in the one above, down to where the user is. The names
  have to be shorter than eight characters.\<close>

theorem prompt_shows_the_way:
  assumes "shell_area L" and "kernel_inv k" and "keyboard_idle k" and "titled (files k)"
    and "shell_start L k = Some (Inr s)" and "types L s cmds s'"
  shows "\<exists>names before. spells (tree_of (snd s')) names
    \<and> ((\<forall>nm \<in> set names. length nm < 8) \<longrightarrow> screen (snd s') = fold write_on
         ([(5, str ''Istiqomah@OS-IF2230:'')] @ concat (map (\<lambda>nm. [(9, str ''/''), (9, nm)]) names) @ [(7, str ''$ '')]) before)"
proof -
  have s: "waiting s" "prompted (snd s)" using shell_start_returns [OF assms(1-3)] assms(4,5) by simp_all
  have "waiting s'" "prompted (snd s')" using session_walks [OF assms(6,1) s(1)] s(2) by simp_all
  then have "shows_way (snd s')" by (intro prompted_path) (simp_all add: waiting_def)
  then show ?thesis unfolding shows_way_def path_prompt_def .
qed

text \<open>The keys of \<open>cd docs\<close>.\<close>

definition cd_docs :: "byte list" where
  "cd_docs = [0x2E, 0x20, 0x39, 0x20, 0x18, 0x2E, 0x1F]"

lemma cd_docs_keys:
  "list_all printable cd_docs" "map key_char cd_docs = command_line (Cd (str ''docs''))"
  "str ''docs'' \<noteq> dots" "length (str ''docs'') < 8" "length (str ''root'') < 8" "c_string (padded (str ''docs'')) = str ''docs''"
  by code_simp+

text \<open>One step into \<open>docs\<close>.\<close>

lemma into_docs:
  assumes step: "tree_step able t (Cd (str ''docs'')) t'" and t: "here t = ROOT_CLUSTER_NUMBER" "above t = []"
    and n: "nodes t ROOT_CLUSTER_NUMBER = [(padded (str ''docs''), replicate 3 0) \<mapsto> Folder c]" and names: "spells t' names"
  shows "names = [str ''root'', str ''docs'']"
proof -
  have "path t' = [ROOT_CLUSTER_NUMBER, c] \<and> nodes t' = nodes t"
    using step
  proof cases
    case enter
    then show ?thesis using t n by (auto simp: path_def split: if_splits)
  next
    case no_entry
    then show ?thesis using t n cd_docs_keys(4,6) by auto
  qed (use cd_docs_keys(3) in simp_all)
  then have p: "path t' = [ROOT_CLUSTER_NUMBER, c]" "nodes t' ROOT_CLUSTER_NUMBER = nodes t ROOT_CLUSTER_NUMBER" by simp_all
  then have len: "length names = 2" "names ! 0 = str ''root''" using names by (simp_all add: spells_def)
  obtain k where k: "nodes t ROOT_CLUSTER_NUMBER k = Some (Folder c)" "names ! 1 = c_string (fst k)"
    using names len(1) p unfolding spells_def by (auto dest: spec [of _ 0])
  then have "names ! 1 = str ''docs''" using n cd_docs_keys(6) by (auto split: if_splits)
  with len show ?thesis by (intro nth_equalityI) (auto simp: less_2_cases_iff)
qed

text \<open>The shell starts on a device with \<open>docs\<close>, and that line is typed.\<close>

lemma docs_session:
  obtains st s s' where "kernel_inv \<lparr>files = st, tty = demo_console\<rparr>" "keyboard_idle \<lparr>files = st, tty = demo_console\<rparr>" "titled st"
    "shell_start demo_layout \<lparr>files = st, tty = demo_console\<rparr> = Some (Inr s)"
    "types demo_layout s [(Cd (str ''docs''), False)] s'"
    "\<And>names. spells (tree_of (snd s')) names \<Longrightarrow> names = [str ''root'', str ''docs'']"
proof -
  obtain st e where d: "consistent st" "List.find (folder_named (str ''docs'')) (dir_at (storage st) ROOT_CLUSTER_NUMBER) = Some e"
    "attribute e = 0x10" "lookup st ROOT_CLUSTER_NUMBER = [(padded (str ''docs''), replicate 3 0) \<mapsto> Folder (entry_cluster e)]"
    "titled st" "\<not> folder_named (str ''docs'') (dir_at (storage st) ROOT_CLUSTER_NUMBER ! 0)"
    "\<not> folder_named (str ''docs'') (dir_at (storage st) ROOT_CLUSTER_NUMBER ! 1)" by (rule docs_written) blast
  let ?k = "\<lparr>files = st, tty = demo_console\<rparr>"
  have k: "kernel_inv ?k" using d(1) by (simp add: kernel_inv_def)
  have idle: "keyboard_idle ?k" by (simp add: keyboard_idle_def demo_console_def initial_keyboard_def)
  obtain s where s: "shell_start demo_layout ?k = Some (Inr s)" "waiting s"
    "tree_of (snd s) = tree_at st ROOT_CLUSTER_NUMBER []" "same_files st (disk (snd s))"
    using shell_start_returns [OF demo_area k idle] by (auto elim: returnsE)
  obtain inp sh where sh: "s = (inp, sh)" by (cases s)
  have inv: "shell_inv sh" using s(2) by (simp add: sh waiting_def)
  have t: "here (tree_of sh) = ROOT_CLUSTER_NUMBER" "above (tree_of sh) = []"
    "nodes (tree_of sh) ROOT_CLUSTER_NUMBER = [(padded (str ''docs''), replicate 3 0) \<mapsto> Folder (entry_cluster e)]"
    using s(3) d(4) dirs.root by (simp_all add: sh tree_at_def)
  have "unat (buffer_index sh) = 0" using above_depth [of sh] inv t(2) by (simp add: shell_inv_def)
  moreover have "currentDir sh = dir_at (storage st) ROOT_CLUSTER_NUMBER"
    using inv t(1) s(4) by (simp add: shell_inv_def at_home_def tree_of_sel same_files_def sh)
  ultimately have acc: "acceptable (Cd (str ''docs'')) sh"
    using d(2,3,6,7) docs_keys(5) cd_docs_keys(3) by simp
  obtain s' where s': "session demo_layout (enter cd_docs) s = Some (Inr s')"
      "tree_step False (tree_of sh) (Cd (str ''docs'')) (tree_of (snd s'))"
    using typed_command [OF demo_area s(2) [unfolded sh] acc cd_docs_keys(1,2)] by (auto simp: sh elim: returnsE)
  have "types demo_layout s [(Cd (str ''docs''), can_create (Cd (str ''docs'')) (snd s))] s'"
    by (rule types.line [OF _ cd_docs_keys(1,2) s'(1) types.stop]) (use acc in \<open>simp only: sh snd_conv\<close>)
  then have ty: "types demo_layout s [(Cd (str ''docs''), False)] s'" by simp
  from that [OF k idle d(5) s(1) ty into_docs [OF s'(2) t]] show thesis .
qed

theorem prompt_shows_the_way_witness:
  "\<exists>st s s'. shell_start demo_layout \<lparr>files = st, tty = demo_console\<rparr> = Some (Inr s)
    \<and> types demo_layout s [(Cd (str ''docs''), False)] s'
    \<and> (\<exists>before. screen (snd s') = fold write_on
         [(5, str ''Istiqomah@OS-IF2230:''), (9, str ''/''), (9, str ''root''), (9, str ''/''), (9, str ''docs''), (7, str ''$ '')] before)"
proof -
  obtain st s s' where k: "kernel_inv \<lparr>files = st, tty = demo_console\<rparr>" "keyboard_idle \<lparr>files = st, tty = demo_console\<rparr>" "titled st"
    and s: "shell_start demo_layout \<lparr>files = st, tty = demo_console\<rparr> = Some (Inr s)"
      "types demo_layout s [(Cd (str ''docs''), False)] s'"
    and names: "\<And>names. spells (tree_of (snd s')) names \<Longrightarrow> names = [str ''root'', str ''docs'']"
    by (rule docs_session) blast
  obtain names before where n: "spells (tree_of (snd s')) names"
    "(\<forall>nm \<in> set names. length nm < 8) \<longrightarrow> screen (snd s') = fold write_on
       ([(5, str ''Istiqomah@OS-IF2230:'')] @ concat (map (\<lambda>nm. [(9, str ''/''), (9, nm)]) names) @ [(7, str ''$ '')]) before"
    using prompt_shows_the_way [OF demo_area k(1,2) _ s] k(3) by auto
  have "screen (snd s') = fold write_on
      [(5, str ''Istiqomah@OS-IF2230:''), (9, str ''/''), (9, str ''root''), (9, str ''/''), (9, str ''docs''), (7, str ''$ '')] before"
    using n(2) names [OF n(1)] cd_docs_keys(4,5) by simp
  with s show ?thesis by blast
qed

section \<open>mv\<close>

text \<open>C35: \<open>mv\<close> of a file of at most ten clusters with a zero byte into a folder of the current
  directory that has room for it and no entry of that name. The bytes before the first zero are
  written into the folder under the file's name. Then the code tests an \<open>int\<close> of which only the
  first byte was set: when the other three bytes are zero the shell comes back and the file is
  removed from the old directory; otherwise the shell is left in the folder and the file is in
  both places. Loading the folder calls \<open>read_directory\<close> with the cluster number for an address; the
  hypothesis says that the bytes there ask for a directory that has none.\<close>

theorem mv_command:
  assumes "mv_layout L" and "shell_ok sh" and "unat (buffer_index sh) < 254" and "length nm \<le> 8"
    and "length dst \<le> 8" and "0 \<notin> set dst" and "dst \<noteq> dots"
    and "List.find (named dst) (currentDir sh) = Some e" and "attribute e = 0x10"
    and "entry_cluster e \<in> dirs (disk sh)" and "entry_cluster e \<noteq> ROOT_CLUSTER_NUMBER" and "entry_cluster e \<noteq> currentDirCluster sh"
    and "user_area (entry_cluster e) 23" and "apart (entry_cluster e) 23 (at_dir L) CLUSTER_SIZE"
    and "fat32_read_directory (request_at (sys sh) (entry_cluster e)) (disk sh) = (2, disk sh)"
    and "plain_request (disk sh) (dirs (disk sh)) (data_request L (padded nm) (currentDirCluster sh))"
    and "lookup (disk sh) (currentDirCluster sh) (padded nm, replicate 3 0) = Some (File bs)"
    and "length bs \<le> DATA_SIZE" and "0 \<in> set bs"
    and "w = user_request (at_data L) (padded nm) (entry_cluster e) (of_nat (length (c_string bs)))"
    and "\<not> name_taken (disk sh) w" and "has_room (disk sh) w"
  shows "returns (mv L (line nm) (line dst) sh) (\<lambda>t. shell_ok t \<and> (\<exists>st c'.
    node_added (disk sh) st (entry_cluster e) (padded nm) (if c_string bs = [] then Folder c' else File (c_string bs))
    \<and> (if mem_read (memory (disk sh)) (at_code L + 1) 3 = [0, 0, 0]
       then node_removed st (disk t) (currentDirCluster sh) (padded nm) (File bs)
         \<and> currentDirCluster t = currentDirCluster sh \<and> buffer_index t = buffer_index sh
       else same_files st (disk t) \<and> currentDirCluster t = entry_cluster e \<and> buffer_index t = buffer_index sh + 1)))"
  using mv_returns [OF assms] unfolding code_rest_def user_memory_def .

lemma demo_mv_layout: "mv_layout demo_layout"
  using demo_layout_ok by (simp add: mv_layout_def) (simp add: demo_layout_def user_area_def apart_def)

text \<open>The device of \<open>tree_written\<close> below an empty memory, on which the hypotheses hold.\<close>

lemma mv_device:
  obtains st e where "consistent st" "dirs st = {ROOT_CLUSTER_NUMBER, entry_cluster e}"
    "List.find (named (str ''docs'')) (dir_at (storage st) ROOT_CLUSTER_NUMBER) = Some e" "attribute e = 0x10"
    "entry_cluster e \<noteq> ROOT_CLUSTER_NUMBER" "unat (entry_cluster e) < CLUSTER_MAP_SIZE"
    "lookup st ROOT_CLUSTER_NUMBER = [(padded (str ''docs''), replicate 3 0) \<mapsto> Folder (entry_cluster e),
       (padded (str ''notes''), replicate 3 0) \<mapsto> File note_bytes]"
    "lookup st (entry_cluster e) = Map.empty" "memory st = (\<lambda>_. 0)"
    "fat32_read_directory (request_at (sys (shell_on st)) (entry_cluster e)) st = (2, st)"
    "plain_request st (dirs st) (data_request demo_layout (padded (str ''notes'')) ROOT_CLUSTER_NUMBER)"
    "\<And>q. wf_request q \<Longrightarrow> rname q = padded (str ''notes'') \<Longrightarrow> parent_cluster_number q = entry_cluster e \<Longrightarrow>
      unat (buffer_size q) \<le> CLUSTER_SIZE \<Longrightarrow> \<not> name_taken st q \<and> has_room st q"
proof -
  obtain st0 e where old: "consistent st0" "dirs st0 = {ROOT_CLUSTER_NUMBER, entry_cluster e}"
    "List.find (named (str ''docs'')) (dir_at (storage st0) ROOT_CLUSTER_NUMBER) = Some e" "attribute e = 0x10"
    "entry_cluster e \<noteq> ROOT_CLUSTER_NUMBER" "unat (entry_cluster e) < CLUSTER_MAP_SIZE"
    "lookup st0 ROOT_CLUSTER_NUMBER = [(padded (str ''docs''), replicate 3 0) \<mapsto> Folder (entry_cluster e),
       (padded (str ''notes''), replicate 3 0) \<mapsto> File note_bytes]"
    "lookup st0 (entry_cluster e) = Map.empty"
    and plain: "\<And>q. request_key q = request_key demo_note \<Longrightarrow> wf_request q \<Longrightarrow> parent_cluster_number q = ROOT_CLUSTER_NUMBER \<Longrightarrow>
      plain_request st0 (dirs st0) q"
    and room: "\<And>q. wf_request q \<Longrightarrow> rname q = padded (str ''notes'') \<Longrightarrow> parent_cluster_number q = entry_cluster e \<Longrightarrow>
      unat (buffer_size q) \<le> CLUSTER_SIZE \<Longrightarrow> \<not> name_taken st0 q \<and> has_room st0 q"
    and rd0: "rd (storage st0) 0 = rd (storage demo_fs) 0"
    by (rule tree_written) blast
  define st where "st = st0\<lparr>memory := \<lambda>_. 0\<rparr>"
  have same: "same_files st0 st" by (simp add: st_def)
  note v = same_files_view [OF same] and b = before_same [OF same]
  have m: "memory (files (sys (shell_on st))) = (\<lambda>_. 0)" "memory st = (\<lambda>_. 0)" by (simp_all add: shell_on_def st_def)
  have "mem_read (\<lambda>_. 0) p k = replicate k 0" for p k by (rule nth_equalityI) simp_all
  moreover have "parent_cluster_number (decode_request (replicate 23 0)) = 0" by code_simp
  ultimately have "parent_cluster_number (request_at (sys (shell_on st)) (entry_cluster e)) = 0" by (simp add: request_at_def m)
  then have stray: "fat32_read_directory (request_at (sys (shell_on st)) (entry_cluster e)) st = (2, st)"
    using rd0 v by (intro boot_answers_nothing) simp_all
  have "plain_request st0 (dirs st0) (data_request demo_layout (padded (str ''notes'')) ROOT_CLUSTER_NUMBER)"
    by (rule plain) (simp_all add: demo_note_def)
  then show thesis using old m(2) stray room v b by (intro that [of st e]) simp_all
qed

theorem mv_command_witness:
  "\<exists>st c. lookup st ROOT_CLUSTER_NUMBER = [(padded (str ''docs''), replicate 3 0) \<mapsto> Folder c,
      (padded (str ''notes''), replicate 3 0) \<mapsto> File note_bytes]
    \<and> returns (mv demo_layout (line (str ''notes'')) (line (str ''docs'')) (shell_on st))
        (\<lambda>t. lookup (disk t) ROOT_CLUSTER_NUMBER = [(padded (str ''docs''), replicate 3 0) \<mapsto> Folder c]
          \<and> lookup (disk t) c = [(padded (str ''notes''), replicate 3 0) \<mapsto> File (c_string note_bytes)])"
proof -
  obtain st e where con: "consistent st" and d: "dirs st = {ROOT_CLUSTER_NUMBER, entry_cluster e}"
    and f: "List.find (named (str ''docs'')) (dir_at (storage st) ROOT_CLUSTER_NUMBER) = Some e" and a: "attribute e = 0x10"
    and c: "entry_cluster e \<noteq> ROOT_CLUSTER_NUMBER" "unat (entry_cluster e) < CLUSTER_MAP_SIZE"
    and l: "lookup st ROOT_CLUSTER_NUMBER = [(padded (str ''docs''), replicate 3 0) \<mapsto> Folder (entry_cluster e),
       (padded (str ''notes''), replicate 3 0) \<mapsto> File note_bytes]" "lookup st (entry_cluster e) = Map.empty"
    and m: "memory st = (\<lambda>_. 0)"
    and stray: "fat32_read_directory (request_at (sys (shell_on st)) (entry_cluster e)) st = (2, st)"
    and plain: "plain_request st (dirs st) (data_request demo_layout (padded (str ''notes'')) ROOT_CLUSTER_NUMBER)"
    and room: "\<And>q. wf_request q \<Longrightarrow> rname q = padded (str ''notes'') \<Longrightarrow> parent_cluster_number q = entry_cluster e \<Longrightarrow>
      unat (buffer_size q) \<le> CLUSTER_SIZE \<Longrightarrow> \<not> name_taken st q \<and> has_room st q"
    by (rule mv_device) blast
  let ?w = "user_request (at_data demo_layout) (padded (str ''notes'')) (entry_cluster e) (of_nat (length (c_string note_bytes)))"
  have n: "length (str ''notes'') \<le> 8" "length (str ''docs'') \<le> 8" "0 \<notin> set (str ''docs'')" "str ''docs'' \<noteq> dots"
    by code_simp+
  have area: "user_area (entry_cluster e) 23" "apart (entry_cluster e) 23 (at_dir demo_layout) CLUSTER_SIZE"
    using c(2) by (simp_all add: user_area_def apart_def demo_layout_def)
  have w: "\<not> name_taken st ?w \<and> has_room st ?w" 
    by (rule room) (simp_all add: note_string, simp_all add: user_request_def)
  have rest: "mem_read (memory st) (at_code demo_layout + 1) 3 = [0, 0, 0]" by (simp add: m mem_read_def numeral_3_eq_3)
  have nz: "c_string note_bytes \<noteq> []" using note_string by auto
  have "returns (mv demo_layout (line (str ''notes'')) (line (str ''docs'')) (shell_on st)) (\<lambda>t. \<exists>s.
    node_added st s (entry_cluster e) (padded (str ''notes'')) (File (c_string note_bytes))
    \<and> node_removed s (disk t) ROOT_CLUSTER_NUMBER (padded (str ''notes'')) (File note_bytes))"
    using mv_command [OF demo_mv_layout shell_on_ok [OF con] _ n, of e note_bytes ?w] f a c d area stray plain l note_zero w rest nz
      docs_names(3)
    by (auto elim!: returns_mono)
  then have "returns (mv demo_layout (line (str ''notes'')) (line (str ''docs'')) (shell_on st))
      (\<lambda>t. lookup (disk t) ROOT_CLUSTER_NUMBER = [(padded (str ''docs''), replicate 3 0) \<mapsto> Folder (entry_cluster e)]
        \<and> lookup (disk t) (entry_cluster e) = [(padded (str ''notes''), replicate 3 0) \<mapsto> File (c_string note_bytes)])"
    using l d c docs_names(3) by (elim returns_mono) (auto simp: node_added_def node_removed_def)
  then show ?thesis using l by auto
qed

end
