(* ===== verification/Inserter.thy ===== *)
theory Inserter
  imports Fat32_Titles
begin

text \<open>
  The host tool that copies a file into a storage image (\<open>main\<close> of
  \<open>src/external-inserter.c\<close>): mount the image or format it, then one \<open>write\<close>. A missing
  input file has size zero. \<open>file_buffer\<close> is a heap address; the bytes behind the file in it
  are whatever the memory held.
\<close>

datatype message = Write_success | Name_exists | Invalid_parent | Unknown_error

definition message_of :: "i8 \<Rightarrow> message" where
  "message_of retcode =
     (if retcode = 0 then Write_success else if retcode = 1 then Name_exists
      else if retcode = 2 then Invalid_parent else Unknown_error)"

text \<open>\<open>sscanf(argv[1], "%8s", request.name)\<close>: the first word, at most eight characters.\<close>

definition is_space :: "byte \<Rightarrow> bool" where
  "is_space b \<longleftrightarrow> b \<in> {32, 9, 10, 11, 12, 13}"

definition scan_name :: "byte list \<Rightarrow> byte list" where
  "scan_name s =
     (let t = take 8 (takeWhile (\<lambda>b. \<not> is_space b) (dropWhile is_space s))
      in t @ replicate (8 - length t) 0)"

definition inserter_main :: "u32 \<Rightarrow> byte list \<Rightarrow> byte list option \<Rightarrow> u32 \<Rightarrow> fs \<Rightarrow> (message \<times> fs) outcome" where
  "inserter_main file_buffer argv1 file parent st =
     (let contents = (case file of None \<Rightarrow> [] | Some bs \<Rightarrow> bs);
          st1 = st\<lparr>memory := mem_write (memory st) file_buffer (take (4*1024*1024) contents)\<rparr>;
          st2 = initialize_filesystem_fat32 st1;
          r = \<lparr>buf = file_buffer, rname = scan_name argv1, rext = replicate 3 0,
               parent_cluster_number = parent, buffer_size = of_nat (length contents)\<rparr>
      in map_sum id (\<lambda>(retcode, st'). (message_of retcode, st')) (fat32_write r st2))"

lemma length_scan_name [simp]: "length (scan_name s) = 8"
  by (simp add: scan_name_def Let_def)

definition insert_request :: "u32 \<Rightarrow> byte list \<Rightarrow> nat \<Rightarrow> u32 \<Rightarrow> request" where
  "insert_request fb argv1 n parent = \<lparr>buf = fb, rname = scan_name argv1, rext = replicate 3 0,
     parent_cluster_number = parent, buffer_size = of_nat n\<rparr>"

lemma wf_insert_request [simp]: "wf_request (insert_request fb argv1 n parent)"
  by (simp add: insert_request_def wf_request_def)

lemma inserter_main_eq:
  "inserter_main fb argv1 file parent st =
     (let contents = (case file of None \<Rightarrow> [] | Some bs \<Rightarrow> bs)
      in map_sum id (\<lambda>(c, st'). (message_of c, st'))
           (fat32_write (insert_request fb argv1 (length contents) parent)
             (initialize_filesystem_fat32
               (st\<lparr>memory := mem_write (memory st) fb (take (4*1024*1024) contents)\<rparr>))))"
  by (simp add: inserter_main_def insert_request_def Let_def)

text \<open>A name that the root directory of a fresh image can take.\<close>

definition fresh_name :: "byte list \<Rightarrow> bool" where
  "fresh_name argv1 \<longleftrightarrow> scan_name argv1 \<noteq> replicate 8 0 \<and> scan_name argv1 \<noteq> root_name"

lemma insert_root_request:
  "fresh_name argv1 \<Longrightarrow> root_request (insert_request fb argv1 n ROOT_CLUSTER_NUMBER)"
  by (auto simp: root_request_def fresh_name_def request_key_def insert_request_def wf_request_def)

lemma insert_fits: "n \<le> MAX_FILE \<Longrightarrow> fits (insert_request fb argv1 n parent)"
  by (simp add: fits_def insert_request_def MAX_FILE_def)

lemma insert_fresh:
  assumes un: "\<not> signed (storage st)" and name: "fresh_name argv1"
    and len: "0 < length bs" "length bs \<le> MAX_FILE"
  shows "\<exists>st'. inserter_main fb argv1 (Some bs) ROOT_CLUSTER_NUMBER st = Inr (Write_success, st')
    \<and> fs_inv st' {ROOT_CLUSTER_NUMBER}
    \<and> lookup st' ROOT_CLUSTER_NUMBER = [(scan_name argv1, replicate 3 0) \<mapsto> File bs]
    \<and> (\<forall>q. root_request q \<longrightarrow> plain_request st' (dirs st') q) \<and> titled st'"
proof -
  let ?r = "insert_request fb argv1 (length bs) ROOT_CLUSTER_NUMBER"
  let ?st = "st\<lparr>memory := mem_write (memory st) fb (take (4*1024*1024) bs)\<rparr>"
  have small: "length bs < 2 ^ 32" using len(2) by (simp add: MAX_FILE_def)
  have t: "take 4194304 bs = bs" using len(2) by (simp add: MAX_FILE_def)
  have size: "unat (buffer_size ?r) = length bs" using small by (simp add: insert_request_def)
  have nz: "buffer_size ?r \<noteq> 0" using size len(1) by (metis unat_0 not_less_zero)
  from fresh_write [where r = ?r and st = ?st, OF insert_root_request [OF name] insert_fits [OF len(2)]] obtain st' slot slots where
    w: "fat32_write ?r (create_fat32 ?st) = Inr (0, st')"
    and ws: "write_step (create_fat32 ?st) st' {ROOT_CLUSTER_NUMBER} ?r slot slots" by blast
  have "initialize_filesystem_fat32 ?st = create_fat32 ?st"
    using un by (intro mount_unsigned) simp
  with w have "inserter_main fb argv1 (Some bs) ROOT_CLUSTER_NUMBER st = Inr (Write_success, st')"
    by (simp add: inserter_main_eq Let_def message_of_def)
  moreover have "fs_inv st' {ROOT_CLUSTER_NUMBER}"
    using ws_preserved [OF ws] nz by (simp add: dirs_after_def)
  moreover have "mem_read (memory (create_fat32 ?st)) fb (length bs) = bs"
    using small by (simp add: create_fat32_memory t mem_read_write)
  then have "lookup st' ROOT_CLUSTER_NUMBER = [(scan_name argv1, replicate 3 0) \<mapsto> File bs]"
    using written_lookup [OF ws nz] fresh_lookup [of ?st] size
    by (simp add: insert_request_def request_key_def)
  moreover have "plain_request st' (dirs st') q" if "root_request q" for q
    by (rule ws_plain [where st = "create_fat32 ?st"]) (use ws fresh_plain [OF that] in \<open>simp_all add: dirs_format\<close>)
  moreover have "titled st'"
  proof (rule titled_write [OF fresh_consistent _ w titled_format])
    show "call_ok (create_fat32 ?st) (Write ?r)"
      using insert_root_request [OF name, of fb "length bs"] insert_fits [OF len(2)] by (simp add: call_ok_def root_request_def dirs_format)
  qed
  ultimately show ?thesis by blast
qed

text \<open>A missing file becomes a directory.\<close>

lemma insert_missing:
  assumes un: "\<not> signed (storage st)" and name: "fresh_name argv1"
  shows "\<exists>st' c. inserter_main fb argv1 None ROOT_CLUSTER_NUMBER st = Inr (Write_success, st')
    \<and> lookup st' ROOT_CLUSTER_NUMBER = [(scan_name argv1, replicate 3 0) \<mapsto> Folder c]"
proof -
  let ?r = "insert_request fb argv1 0 ROOT_CLUSTER_NUMBER"
  let ?st = "st\<lparr>memory := mem_write (memory st) fb []\<rparr>"
  from fresh_write [where r = ?r and st = ?st, OF insert_root_request [OF name] insert_fits [OF le0]] obtain st' slot slots where
    w: "fat32_write ?r (create_fat32 ?st) = Inr (0, st')"
    and ws: "write_step (create_fat32 ?st) st' {ROOT_CLUSTER_NUMBER} ?r slot slots" by auto
  have "initialize_filesystem_fat32 ?st = create_fat32 ?st"
    using un by (intro mount_unsigned) simp
  with w have "inserter_main fb argv1 None ROOT_CLUSTER_NUMBER st = Inr (Write_success, st')"
    by (simp add: inserter_main_eq Let_def message_of_def)
  moreover have "lookup st' ROOT_CLUSTER_NUMBER = [(scan_name argv1, replicate 3 0) \<mapsto> Folder (hd slots)]"
    using ws_lookup [OF ws, of ROOT_CLUSTER_NUMBER] fresh_lookup [of ?st]
    by (simp add: insert_request_def request_key_def written_node_def)
  ultimately show ?thesis by blast
qed

end
