(* ===== verification/Kernel.thy ===== *)
theory Kernel
  imports Syscall Fat32_Titles Idt Paging
begin

unbundle bit_operations_syntax

text \<open>
  The boot sequence (\<open>kernel_setup\<close> of \<open>src/kernel.c\<close>). The machine joins the kernel state with
  the descriptor tables, the page manager and the task state. \<open>load_gdt\<close>, \<open>set_tss_register\<close>
  and the \<open>lidt\<close> and \<open>sti\<close> of \<open>initialize_idt\<close> load processor registers that the model does not
  keep; \<open>kernel_execute_user_program\<close> is the context that its \<open>iret\<close> loads. Addresses that the
  linker chooses (the stubs, the task state, the string literal) are parameters.
\<close>

record machine =
  core :: kernel
  gdt_table :: "segment_descriptor list"
  idt_table :: idt
  pages :: paging_state
  tss :: tss_entry

record user_context =
  user_eip :: u32
  user_cs :: u16
  user_esp :: u32
  user_ss :: u16

definition kernel_execute_user_program :: "u32 \<Rightarrow> user_context" where
  "kernel_execute_user_program virtual_addr =
     \<lparr>user_eip = virtual_addr, user_cs = 0x18 OR 0x3, user_esp = virtual_addr + (0x400000 - 4), user_ss = 0x20 OR 0x3\<rparr>"

definition shell_request :: request where
  "shell_request = \<lparr>buf = 0, rname = str ''shell'' @ replicate 3 0, rext = replicate 3 0,
     parent_cluster_number = ROOT_CLUSTER_NUMBER, buffer_size = 0x100000\<rparr>"

definition ikanaide_request :: "u32 \<Rightarrow> request" where
  "ikanaide_request literal = \<lparr>buf = literal, rname = str ''ikanaide'', rext = replicate 3 0,
     parent_cluster_number = ROOT_CLUSTER_NUMBER, buffer_size = 21\<rparr>"

definition hallo :: "byte list" where
  "hallo = str ''HALLO TEMAN TEMANNNNN''"

text \<open>The steps before the first use of the file system.\<close>

definition early_setup :: "device \<Rightarrow> u32 list \<Rightarrow> machine \<Rightarrow> machine" where
  "early_setup dev stubs m =
     m\<lparr>idt_table := initialize_idt stubs (idt_table m),
       core := with_console (\<lambda>c. c\<lparr>video := framebuffer_clear (video c),
           ports := framebuffer_set_cursor 0 0 (activate_keyboard_interrupt dev (pic_remap (ports c)))\<rparr>) (core m)\<rparr>"

definition kernel_setup ::
    "device \<Rightarrow> u32 list \<Rightarrow> u32 \<Rightarrow> u32 \<Rightarrow> u32 \<Rightarrow> machine \<Rightarrow> (user_context \<times> machine) run" where
  "kernel_setup dev stubs tss_addr ebp literal m0 =
     (let m = early_setup dev stubs m0;
          st = initialize_filesystem_fat32 (files (core m));
          gdt = gdt_install_tss tss_addr (gdt_table m);
          pg = snd (map_page 0 (pages m))
      in case fat32_read shell_request st of
           None \<Rightarrow> None
         | Some (Inl e) \<Rightarrow> Some (Inl e)
         | Some (Inr (_, st1)) \<Rightarrow>
             (case fat32_write (ikanaide_request literal) st1 of
                Inl e \<Rightarrow> Some (Inl e)
              | Inr (_, st2) \<Rightarrow>
                  Some (Inr (kernel_execute_user_program 0,
                    m\<lparr>core := (core m)\<lparr>files := st2\<rparr>, gdt_table := gdt, pages := pg,
                      tss := set_tss_kernel_current_stack ebp (tss m)\<rparr>))))"

section \<open>Facts about the requests and the early steps\<close>

lemma shell_request_simps [simp]:
  "parent_cluster_number shell_request = ROOT_CLUSTER_NUMBER" "buf shell_request = 0"
  "unat (buffer_size shell_request) = 2048 * 512" "wf_request shell_request"
  by (simp_all add: shell_request_def wf_request_def)

lemma ikanaide_request_simps [simp]:
  "parent_cluster_number (ikanaide_request l) = ROOT_CLUSTER_NUMBER" "buf (ikanaide_request l) = l"
  "buffer_size (ikanaide_request l) = 21" "wf_request (ikanaide_request l)" "fits (ikanaide_request l)"
  by (simp_all add: ikanaide_request_def wf_request_def fits_def MAX_FILE_def)

lemma request_names:
  "str ''shell'' @ replicate 3 0 \<noteq> root_name" "str ''ikanaide'' \<noteq> root_name"
  "str ''shell'' @ replicate 3 0 \<noteq> replicate 8 0" "str ''ikanaide'' \<noteq> replicate 8 0"
  "str ''shell'' @ replicate 3 0 \<noteq> str ''ikanaide''"
  by code_simp+

lemma shell_root: "root_request shell_request"
  using request_names by (auto simp: root_request_def request_key_def shell_request_def wf_request_def)

lemma ikanaide_root: "root_request (ikanaide_request l)"
  using request_names by (auto simp: root_request_def request_key_def ikanaide_request_def wf_request_def)

lemma early_setup_files:
  "storage (files (core (early_setup dev stubs m))) = storage (files (core m))"
  "fat_table (files (core (early_setup dev stubs m))) = fat_table (files (core m))"
  "memory (files (core (early_setup dev stubs m))) = framebuffer_clear (memory (files (core m)))"
  by (simp_all add: early_setup_def with_console_def Let_def)

lemma clear_off_screen: "off_screen a \<Longrightarrow> framebuffer_clear m a = m a"
  using clear_loop_outside [of 0 4000 a m] by (simp add: framebuffer_clear_def off_screen_def)

lemma early_hallo:
  assumes "mem_read (memory (files (core m))) l 21 = hallo" and "\<forall>i < 21. off_screen (l + of_nat i)"
  shows "mem_read (memory (files (core (early_setup dev stubs m)))) l 21 = hallo"
proof -
  have "mem_read (framebuffer_clear (memory (files (core m)))) l 21 = mem_read (memory (files (core m))) l 21"
    using assms(2) by (simp add: mem_read_def clear_off_screen)
  with assms(1) show ?thesis by (simp add: early_setup_files)
qed

lemma kernel_setup_eq:
  assumes "fat32_read shell_request (initialize_filesystem_fat32 (files (core (early_setup dev stubs m)))) = Some (Inr (c, st1))"
    and "fat32_write (ikanaide_request literal) st1 = Inr (c', st2)"
  shows "\<exists>m'. kernel_setup dev stubs tss_addr ebp literal m = Some (Inr (kernel_execute_user_program 0, m'))
    \<and> files (core m') = st2 \<and> pages m' = snd (map_page 0 (pages m))
    \<and> gdt_table m' = gdt_install_tss tss_addr (gdt_table m) \<and> idt_table m' = initialize_idt stubs (idt_table m)"
  using assms by (simp add: kernel_setup_def Let_def early_setup_def with_console_def)

lemma kernel_setup_console:
  assumes "kernel_setup dev stubs tss_addr ebp literal m = Some (Inr (u, m'))"
  shows "kbd (tty (core m')) = kbd (tty (core m))"
    and "cursor_row (tty (core m')) = cursor_row (tty (core m))" and "cursor_col (tty (core m')) = cursor_col (tty (core m))"
  using assms by (auto simp: kernel_setup_def Let_def early_setup_def with_console_def split: option.splits sum.splits prod.splits)

text \<open>A blank disk: the boot formats it, finds no shell, and writes the greeting.\<close>

lemma boot_blank:
  assumes un: "\<not> signed (storage (files (core m)))"
    and lit: "mem_read (memory (files (core m))) l 21 = hallo" "\<forall>i < 21. off_screen (l + of_nat i)"
  shows "\<exists>m'. kernel_setup dev stubs tss_addr ebp l m = Some (Inr (kernel_execute_user_program 0, m'))
    \<and> consistent (files (core m')) \<and> dirs (files (core m')) = {ROOT_CLUSTER_NUMBER}
    \<and> lookup (files (core m')) ROOT_CLUSTER_NUMBER = [request_key (ikanaide_request l) \<mapsto> File hallo]"
proof -
  let ?e = "files (core (early_setup dev stubs m))" let ?st = "create_fat32 ?e"
  have init: "initialize_filesystem_fat32 ?e = ?st"
    using un by (intro mount_unsigned) (simp add: early_setup_files)
  have inv: "fs_inv ?st {ROOT_CLUSTER_NUMBER}" by (rule fresh_inv)
  have rd: "fat32_read shell_request ?st = Some (Inr (2, ?st))"
    by (rule read_missing [OF inv fresh_plain [OF shell_root]]) (simp add: fresh_lookup)
  obtain st' slot slots where w: "fat32_write (ikanaide_request l) ?st = Inr (0, st')"
    and ws: "write_step ?st st' {ROOT_CLUSTER_NUMBER} (ikanaide_request l) slot slots"
    using fresh_write [OF ikanaide_root, of l ?e] by auto
  have "mem_read (memory ?st) l 21 = hallo"
    using early_hallo [OF lit] by (simp add: create_fat32_memory)
  then have "lookup st' ROOT_CLUSTER_NUMBER = [request_key (ikanaide_request l) \<mapsto> File hallo]"
    using written_lookup [OF ws] fresh_lookup [of ?e] by simp
  moreover have "dirs st' = {ROOT_CLUSTER_NUMBER}"
    using ws_dirs_eq [of ?st st'] ws by (simp add: dirs_format dirs_after_def)
  moreover have "consistent st'" by (rule fs_inv_consistent [OF ws_preserved [OF ws]])
  ultimately show ?thesis using kernel_setup_eq [of dev stubs m 2 ?st l 0 st' tss_addr ebp] rd w init by auto
qed

text \<open>A disk with a shell: its bytes are at address 0 when user mode starts.\<close>

lemma boot_shell:
  assumes con: "consistent st0" and disk: "storage (files (core m)) = storage st0"
    and plain: "plain_request st0 (dirs st0) shell_request"
    and shell: "lookup st0 ROOT_CLUSTER_NUMBER (request_key shell_request) = Some (File bs)"
  shows "\<exists>m'. kernel_setup dev stubs tss_addr ebp l m = Some (Inr (kernel_execute_user_program 0, m'))
    \<and> mem_read (memory (files (core m'))) 0 (length bs) = bs
    \<and> consistent (files (core m'))
    \<and> lookup (files (core m')) ROOT_CLUSTER_NUMBER (request_key shell_request) = Some (File bs)
    \<and> (titled st0 \<longrightarrow> titled (files (core m')))"
proof -
  let ?e = "files (core (early_setup dev stubs m))"
  let ?st = "?e\<lparr>fat_table := fat_table st0\<rparr>"
  have "driver_ok st0" using con by (simp add: consistent_def fs_inv_def)
  from mount_recovers [OF this, of ?e] have init: "initialize_filesystem_fat32 ?e = ?st"
    using disk by (simp add: early_setup_files)
  have same: "same_files st0 ?st" using disk by (simp add: same_files_def early_setup_files)
  have st: "storage ?st = storage st0" "fat_table ?st = fat_table st0" using same by (simp_all add: same_files_def)
  have con': "consistent ?st" using same_files_consistent [OF same] con by blast
  have inv: "fs_inv ?st (dirs ?st)" using con' by (simp only: consistent_def)
  have p: "plain_request ?st (dirs ?st) shell_request"
    using plain plain_request_cong [OF st(1)] dirs_cong [OF st(1)] by simp
  have look: "lookup ?st ROOT_CLUSTER_NUMBER (request_key shell_request) = Some (File bs)"
    using lookup_cong [OF st] shell by simp
  have len: "length bs \<le> MAX_FILE" by (rule file_length [OF con [unfolded consistent_def] plain]) (simp add: shell)
  have "cluster_count (length bs) \<le> 512"
    using div_le_mono [of "length bs + 2047" "MAX_FILE + 2047" CLUSTER_SIZE] len
    by (simp add: cluster_count_def MAX_FILE_def)
  then obtain pad where pad: "length (bs @ pad) = CLUSTER_SIZE * cluster_count (length bs)"
    and rd: "fat32_read shell_request ?st = Some (Inr (0, ?st\<lparr>memory := mem_write (memory ?st) 0 (bs @ pad)\<rparr>))"
    using read_file [OF inv p] look by fastforce
  let ?st1 = "?st\<lparr>memory := mem_write (memory ?st) 0 (bs @ pad)\<rparr>"
  have same1: "same_files ?st ?st1" by (simp add: same_files_def)
  have con1: "consistent ?st1" using same_files_consistent [OF same1] con' by blast
  have inv1: "fs_inv ?st1 (dirs ?st1)" using con1 by (simp only: consistent_def)
  have root: "parent_cluster_number (ikanaide_request l) \<in> dirs ?st1" using dirs.root by simp
  obtain c' st2 where w: "fat32_write (ikanaide_request l) ?st1 = Inr (c', st2)" and con2: "consistent st2"
    by (rule write_consistent [OF inv1 root]) simp_all
  have "lookup ?st1 ROOT_CLUSTER_NUMBER (request_key shell_request) = Some (File bs)"
    using lookup_cong [of ?st1 ?st] look by simp
  from write_keeps [OF inv1 root _ _ w dirs.root this] have
    l2: "lookup st2 ROOT_CLUSTER_NUMBER (request_key shell_request) = Some (File bs)" by simp
  have "memory st2 = memory ?st1" by (rule write_memory [OF inv1 root _ _ w]) simp_all
  moreover have "mem_read (mem_write (memory ?st) 0 (bs @ pad)) 0 (length bs) = bs"
    using pad cluster_count_small [OF len] by (simp add: mem_read_write)
  ultimately have "mem_read (memory st2) 0 (length bs) = bs" by simp
  moreover have "titled st2" if "titled st0"
  proof -
    have ok: "call_ok ?st1 (Write (ikanaide_request l))" using root by (simp add: call_ok_def)
    have "titled ?st1" using that titled_same [OF same] titled_same [OF same1] by simp
    then show ?thesis by (rule titled_step [OF con1 ok fs_step.do_write [OF w]])
  qed
  ultimately show ?thesis using kernel_setup_eq [of dev stubs m 0 ?st1 l c' st2 tss_addr ebp] rd w init con2 l2 by auto
qed

end
