(* ===== verification/Spec2Isabelle.thy ===== *)
theory Spec2Isabelle
  imports Fat32_Properties Fat32_Limits Machine_Properties Shell_Properties Session_Properties Inserter Kernel
begin

unbundle bit_operations_syntax

text \<open>
  A verification development for a small teaching operating system: a 32-bit x86 kernel in C with a
  FAT32-like file system on an ATA disk, a text terminal, a user shell, and a host tool that fills
  the disk image. All sources are under \<open>src/src\<close>; paths below are relative to it.

  \<^bold>\<open>The program.\<close> The host tool (\<open>external-inserter.c\<close>) mounts an image and writes a file into it. The
  kernel (\<open>kernel.c\<close>) installs its segment and interrupt tables, mounts the disk, loads the file
  \<open>shell\<close> to address 0 and jumps there. From then on it only reacts: to keyboard interrupts, which
  put a character into a one-byte buffer and echo it, and to \<open>int 0x30\<close>, whose registers select a
  file operation, a print or a fetch of the character. The shell (\<open>user-shell.c\<close>) collects a line
  and turns it into such calls. The file system sees the disk as 512-byte blocks.

  \<^bold>\<open>Theories and sources.\<close> Each theory opens with what it holds.
  \<^item> \<open>Prelude\<close>, \<open>Statements\<close>, \<open>Bytes\<close>: machine integers, faults, outcomes; C statements in sequence
    (\<open>block\<close>), total correctness (\<open>returns\<close>) and the locale \<open>kept_relation\<close>; the 32-bit memory, little-endian
    layout and the locale \<open>fixed_codec\<close> of structures with a fixed layout.
  \<^item> \<open>String_C\<close>: \<open>stdlib/string.c\<close>, on memory.
  \<^item> \<open>Block_Store\<close>: \<open>read_blocks\<close> and \<open>write_blocks\<close> of \<open>external-inserter.c\<close> on an image, and the
    locale \<open>sector_store\<close>. \<open>Port_IO\<close>, \<open>Disk\<close>: \<open>portio.c\<close> and the ATA driver \<open>disk.c\<close> as port traces.
  \<^item> \<open>Fat_Layout\<close>, \<open>Fat_Chain\<close>, \<open>Fat32\<close>: \<open>header/filesystem/fat32.h\<close> and all of \<open>fat32.c\<close>. The record
    \<open>fs\<close> is the driver state with the disk and the memory that requests point into.
  \<^item> \<open>Fat32_Scans\<close>, \<open>_Loops\<close>, \<open>_Mount\<close>, \<open>_Effects\<close>: the loops and operations of \<open>Fat32\<close> in closed form.
    \<open>Fat32_Inv\<close>, \<open>_Write\<close>, \<open>_Delete\<close>: the invariant \<open>fs_inv\<close> and its preservation. \<open>Fat32_Spec\<close>,
    \<open>_System\<close>, \<open>_Dirs\<close>: the abstract maps \<open>lookup\<close>, the tree \<open>dirs\<close>, reachable states and the
    refinement of each call. \<open>Fat32_Fresh\<close>, \<open>_Demo\<close>, \<open>_Runs\<close>, \<open>_Calls\<close>: a formatted device, sequences of
    calls, one lemma per call. \<open>Fat32_Properties\<close>, \<open>Fat32_Limits\<close>: the properties, inside and outside
    the range the code is made for. \<open>Fat32_Titles\<close>: the own names that directories carry in their first entries.
  \<^item> \<open>Inserter\<close>: \<open>main\<close> of \<open>external-inserter.c\<close>.
  \<^item> \<open>Framebuffer\<close>, \<open>Pic\<close>, \<open>Keyboard\<close>, \<open>Terminal\<close>: \<open>framebuffer.c\<close>, the PIC routines and \<open>puts\<close> of
    \<open>interrupt.c\<close>, \<open>keyboard.c\<close>. The screen is the memory at 0xC00B8000, seen as 2000 cells with a text
    position; a \<open>console\<close> is the keyboard driver with the printer's position.
  \<^item> \<open>Paging\<close>, \<open>Gdt\<close>, \<open>Idt\<close>: \<open>paging.c\<close>, \<open>header/cpu/gdt.c\<close>, \<open>idt.c\<close> with the bit layouts.
  \<^item> \<open>Syscall\<close>, \<open>Kernel\<close>: the stub of \<open>intsetup.s\<close>, dispatch and system calls of \<open>interrupt.c\<close> over the
    record \<open>kernel\<close> of file system and console; \<open>kernel_setup\<close> of \<open>kernel.c\<close>.
    \<open>Machine_Properties\<close>: the properties of the devices and tables.
  \<^item> \<open>Shell_Strings\<close>, \<open>Shell\<close>: all of \<open>user-shell.c\<close>. \<open>Shell_Frame\<close>, \<open>_Calls\<close>, \<open>_Commands\<close>, \<open>_Copy\<close>,
    \<open>_Move\<close>: what printing and the prompt leave alone, system calls as file operations, the commands
    one by one. \<open>Shell_Screen\<close>, \<open>_Keys\<close>, \<open>_Typing\<close>: what commands put on the screen, the parts of the state
    that they all leave alone (locale \<open>quiet_value\<close>), and how keys become a line. \<open>Shell_Tree\<close>, \<open>_Steps\<close>,
    \<open>_Path\<close>, \<open>_Session\<close>: an abstract directory tree with its steps and invariant, the simulation of each
    command, the prompt as the path of the tree, and typed sessions.
    \<open>Shell_Demo\<close>: concrete devices. \<open>Shell_Properties\<close>, \<open>Session_Properties\<close>: the properties.
  \<^item> This theory: the running kernel, system calls from registers to effect, boot and installation.

  \<^bold>\<open>What is shown.\<close> Every state the file system reaches by acceptable calls and remounts satisfies the
  invariant, every such call returns, and write, delete and read are update, removal and lookup in
  the abstract maps, with each return code characterised; what was written is read back after any
  run of other calls and remounts; delete undoes write. The ATA routines implement the block store, on drives that do not show RDY before their data.
  The kernel keeps the invariant through every interleaving of interrupts and user code. What the
  host tool inserts as \<open>shell\<close> is in memory at address 0 when user mode starts. Printing and typing are
  equal to simple functions on the cells of the screen. A typed line runs exactly one command of
  the shell; the shell refines a directory tree with a current folder: every acceptable line
  returns to the prompt and is a step of the tree, which says exactly when a node is created, so
  every session is a walk of it that keeps the invariant, from the first prompt after installation
  and boot on, and the prompt on the screen shows the names that lead from the root to where the
  walk is: every directory carries the name of its entry (\<open>titled\<close>), which every call keeps, and the
  rows that the prompt prints are these names. \<open>acceptable\<close> (theory \<open>Shell_Steps\<close>) excludes what the code does not handle, such as names longer than a request's field; \<open>mv\<close> is
  treated on its own. What \<open>ls\<close>, \<open>find\<close> and the prompt print is a list of strings with their inks.
  Several properties show what the code does outside its range: files of 256 clusters, cyclic
  tables, \<open>root\<close> in the root directory, page entries, the cursor after a wrap, files with zero bytes.

  \<^bold>\<open>Conventions.\<close> A fault of C (index past an array, uninitialised read) is \<open>Inl\<close>; a loop that may not
  end is a \<open>partial_function (option)\<close>, \<open>None\<close> being no return, and the theorems prove \<open>Some (Inr _)\<close>; there
  is no fuel. Pointers are 32-bit addresses, arithmetic wraps. The bounds of the theorems come from
  the code: \<open>MAX_FILE\<close> is the largest file whose cluster count fits \<open>uint8_t\<close>, 512 clusters fill the
  table, \<open>cluster_valid\<close> clusters have image offsets below 2^32, 254 open directories keep the
  prompt's \<open>uint8_t\<close> loop finite. Parameters: the answers of devices, the addresses of literals
  and of the shell's variables (\<open>shell_layout\<close>; \<open>layout_ok\<close>, \<open>shell_area\<close> and \<open>mv_layout\<close> say that
  they lie in the user page and do not overlap), the stubs. A disk drive is known by the PIO protocol, an
  automaton over port accesses (\<open>ata_state\<close> of theory \<open>Disk\<close>): \<open>ata_drive\<close> says that a drive keeps it, opening
  its data port only after a status without BSY and with DRQ. The driver waits for RDY where DRQ is
  needed, so its theorems also assume \<open>settled_status\<close>, RDY only with data while a command runs. The simulated
  drive \<open>steady\<close>, with delays, meets both; \<open>hasty\<close> keeps the protocol only, and the driver reads it too early.

  \<^bold>\<open>Modelling decisions.\<close> The variables of the kernel and of the shell are values: a user pointer that
  aims at kernel variables, or at other variables of the shell, is not seen to change them; an
  object whose address a system call gets is stored there before the call and read back after it.
  The shell's commands run without a keyboard interrupt in between; interrupts come between passes
  of its loop. Memory is not translated by the page tables.

  \<^bold>\<open>Not modelled.\<close> The effect of \<open>lgdt\<close>, \<open>ltr\<close>, \<open>lidt\<close>, \<open>sti\<close> and \<open>invlpg\<close> on processor registers; the boot
  assembly (\<open>kernel-entrypoint.s\<close> before \<open>kernel_setup\<close>, \<open>crt0.s\<close>), linker scripts and the boot menu;
  the two fields of \<open>FAT32DirectoryTable\<close> behind its entries inside the driver, where nothing reads
  them (the shell's are modelled); \<open>stdio\<close> of the host tool. That the bytes at address 0 are a compiled
  shell is outside the model: the kernel's part ends at the jump, the shell's begins at its \<open>main\<close>.
\<close>

section \<open>The running kernel\<close>

text \<open>C12: From power-on on, through any interleaving of keyboard interrupts, acceptable system calls
  and user code that rewrites memory, the kernel's file system is consistent and the printer's
  position is on the screen; and every further interrupt is handled to its end.\<close>

theorem kernel_stays_consistent:
  assumes "kernel_reachable k"
  shows "consistent (files k) \<and> cursor_ok (tty k)
    \<and> (\<forall>dev frame. interrupt_ok k frame \<longrightarrow> (\<exists>k'. main_interrupt_handler dev frame k = Some (Inr k')))"
  using reachable_kernel_inv [OF assms] interrupt_keeps [of k] by (fastforce simp: kernel_inv_def)

definition demo_kernel :: kernel where
  "demo_kernel = \<lparr>files = demo_fs, tty = demo_console\<rparr>"

lemma demo_kernel_reachable: "kernel_reachable demo_kernel"
  by (rule kernel_reachable.power_on [of _ blank_fs]) (simp_all add: demo_kernel_def demo_fs_def)

definition key_frame :: interrupt_frame where
  "key_frame = frame_of_stack [0, 0, 0, 0, 0, 0, 0, 0, 0, 0, 0, 0, 0x21, 0, 0, 0, 0]"

theorem kernel_stays_consistent_witness:
  "\<exists>k. main_interrupt_handler (delivering 0x1E) key_frame demo_kernel = Some (Inr k)"
proof -
  have "interrupt_ok demo_kernel key_frame" by (simp add: interrupt_ok_def key_frame_def frame_of_stack_def)
  then show ?thesis using kernel_stays_consistent [OF demo_kernel_reachable] by blast
qed

text \<open>C13: A system call from its registers to its effect: the stub's pushes on \<open>int 0x30\<close> form a frame
  with the caller's \<open>eax\<close>, \<open>ebx\<close> and \<open>ecx\<close>, the dispatcher decodes the packed request at \<open>ebx\<close>,
  runs the file operation that \<open>eax\<close> selects, and stores its code at \<open>ecx\<close>.\<close>

theorem system_call_reaches_the_file_system:
  assumes "wf_request r" and "mem_read (memory (files k)) (cpu_ebx regs) 23 = encode_request r"
    and "cpu_eax regs \<in> {0, 2, 8}"
  shows "main_interrupt_handler dev (frame_of_stack (interrupt_handler 0x30 None regs (eip # sel # flags # s))) k
    = return_code (cpu_ecx regs) k
        (if cpu_eax regs = 0 then fat32_read r (files k)
         else if cpu_eax regs = 2 then Some (fat32_write r (files k)) else fat32_delete r (files k))"
proof -
  define fr where "fr = frame_of_stack (interrupt_handler 0x30 None regs (eip # sel # flags # s))"
  have f: "reg_eax fr = cpu_eax regs" "reg_ebx fr = cpu_ebx regs" "reg_ecx fr = cpu_ecx regs" "int_number fr = 0x30"
    by (simp_all add: fr_def stub_frame)
  have "main_interrupt_handler dev fr k = syscall fr k" by (simp add: main_interrupt_handler_def f)
  with syscall_files [OF assms(1), of k fr] assms(2,3) show ?thesis unfolding fr_def [symmetric] by (auto simp: f)
qed

definition demo_regs :: cpu where
  "demo_regs = \<lparr>cpu_eax = 2, cpu_ebx = 0x5000, cpu_ecx = 0x6000, cpu_edx = 0, cpu_esi = 0, cpu_edi = 0,
     cpu_ebp = 0, cpu_esp = 0, cpu_ds = 0, cpu_es = 0, cpu_fs = 0, cpu_gs = 0\<rparr>"

definition calling_kernel :: kernel where
  "calling_kernel = demo_kernel\<lparr>files := demo_fs\<lparr>memory := mem_write (\<lambda>_. 0) 0x5000 (encode_request demo_folder)\<rparr>\<rparr>"

theorem system_call_reaches_the_file_system_witness:
  "main_interrupt_handler (delivering 0) (frame_of_stack (interrupt_handler 0x30 None demo_regs [0, 0, 0])) calling_kernel
    = return_code 0x6000 calling_kernel (Some (fat32_write demo_folder (files calling_kernel)))"
proof -
  have "mem_read (memory (files calling_kernel)) (cpu_ebx demo_regs) 23 = encode_request demo_folder"
    using requests.len_enc [of demo_folder] by (simp add: calling_kernel_def demo_regs_def mem_read_write)
  from system_call_reaches_the_file_system [OF _ this, of "delivering 0" 0 0 0 "[]"]
  show ?thesis by (simp add: demo_regs_def)
qed

text \<open>Every other system call number, 5 among them, and every vector but the keyboard's and 0x30
  returns without any effect on the kernel.\<close>

theorem unknown_interrupts_have_no_effect:
  assumes "int_number frame \<noteq> 0x21" and "int_number frame = 0x30 \<longrightarrow> reg_eax frame \<notin> {0, 1, 2, 3, 4, 6, 7, 8}"
  shows "main_interrupt_handler dev frame k = Some (Inr k)"
  using assms by (auto simp: main_interrupt_handler_def syscall_def Let_def)

theorem unknown_interrupts_have_no_effect_witness:
  "main_interrupt_handler (delivering 0) (frame_of_stack (interrupt_handler 0x30 None (demo_regs\<lparr>cpu_eax := 5\<rparr>) [0, 0, 0])) demo_kernel
    = Some (Inr demo_kernel)"
  by (rule unknown_interrupts_have_no_effect) (simp_all add: stub_frame demo_regs_def)

section \<open>Boot and installation\<close>

text \<open>C17: Booting a blank disk formats it, survives the missing shell, creates the greeting file with
  its 21 bytes as the only entry of the root, and jumps to user mode at address 0.\<close>

theorem boot_formats_a_blank_disk:
  assumes "\<not> signed (storage (files (core m)))"
    and "mem_read (memory (files (core m))) literal 21 = hallo" and "\<forall>i < 21. off_screen (literal + of_nat i)"
  shows "\<exists>m'. kernel_setup dev stubs tss_addr ebp literal m = Some (Inr (kernel_execute_user_program 0, m'))
    \<and> consistent (files (core m')) \<and> dirs (files (core m')) = {ROOT_CLUSTER_NUMBER}
    \<and> lookup (files (core m')) ROOT_CLUSTER_NUMBER = [request_key (ikanaide_request literal) \<mapsto> File hallo]"
  by (rule boot_blank [OF assms])

definition demo_machine :: machine where
  "demo_machine = \<lparr>core = \<lparr>files = blank_fs\<lparr>memory := mem_write (\<lambda>_. 0) 0xC0200000 hallo\<rparr>, tty = demo_console\<rparr>,
     gdt_table = global_descriptor_table, idt_table = interrupt_descriptor_table, pages = boot_state,
     tss = interrupt_tss_entry\<rparr>"

lemma length_hallo: "length hallo = 21"
  by (simp add: hallo_def length_str)

lemma literal_off_screen: "\<forall>i < 21. off_screen (0xC0200000 + of_nat i)"
proof (intro allI impI)
  fix i :: nat assume i: "i < 21"
  have "0xC0200000 + of_nat i - FRAMEBUFFER_MEMORY_OFFSET = (of_nat (0x148000 + i) :: u32)" by simp
  moreover have "unat (of_nat (0x148000 + i) :: u32) = 0x148000 + i" using i by (subst unat_of_nat) simp
  ultimately show "off_screen (0xC0200000 + of_nat i)" unfolding off_screen_def by simp
qed

lemma blank_unsigned: "\<not> signed (storage blank_fs)"
proof -
  have "rd (storage blank_fs) 0 = replicate CLUSTER_SIZE 0"
    by (intro nth_equalityI) (simp_all add: blank_fs_def read_cluster_image cluster_valid_def image_read_def)
  moreover have "fs_signature ! 0 \<noteq> 0" by code_simp
  ultimately show ?thesis by (auto simp: signed_def dest: arg_cong [where f = "\<lambda>xs. xs ! 0"])
qed

theorem boot_formats_a_blank_disk_witness:
  "\<exists>m'. kernel_setup (delivering 0) (replicate 64 0) 0 0 0xC0200000 demo_machine
      = Some (Inr (kernel_execute_user_program 0, m')) \<and> consistent (files (core m'))"
  using boot_formats_a_blank_disk [of demo_machine "0xC0200000" "delivering 0" "replicate 64 0" 0 0]
    blank_unsigned literal_off_screen
  by (auto simp: demo_machine_def mem_read_write length_hallo)

text \<open>The inserted file on the device that the kernel boots from.\<close>

lemma insert_then_boot:
  assumes "\<not> signed (storage st)" and "0 < length bs" and "length bs \<le> MAX_FILE"
  obtains st' where "inserter_main fb (str ''shell'') (Some bs) ROOT_CLUSTER_NUMBER st = Inr (Write_success, st')"
    "\<And>m. storage (files (core m)) = storage st' \<Longrightarrow>
        \<exists>m'. kernel_setup dev stubs tss_addr ebp literal m = Some (Inr (kernel_execute_user_program 0, m'))
          \<and> mem_read (memory (files (core m'))) 0 (length bs) = bs
          \<and> consistent (files (core m')) \<and> titled (files (core m'))
          \<and> lookup (files (core m')) ROOT_CLUSTER_NUMBER (request_key shell_request) = Some (File bs)"
proof -
  have nm: "scan_name (str ''shell'') = str ''shell'' @ replicate 3 0" by code_simp
  have fresh: "fresh_name (str ''shell'')" using request_names by (simp add: fresh_name_def nm)
  obtain st' where i: "inserter_main fb (str ''shell'') (Some bs) ROOT_CLUSTER_NUMBER st = Inr (Write_success, st')"
    and inv: "fs_inv st' {ROOT_CLUSTER_NUMBER}"
    and l: "lookup st' ROOT_CLUSTER_NUMBER = [(scan_name (str ''shell''), replicate 3 0) \<mapsto> File bs]"
    and p: "plain_request st' (dirs st') shell_request" and t: "titled st'"
    using insert_fresh [OF assms(1) fresh assms(2,3)] shell_root by blast
  have k: "request_key shell_request = (scan_name (str ''shell''), replicate 3 0)"
    by (simp add: request_key_def shell_request_def nm)
  have "lookup st' ROOT_CLUSTER_NUMBER (request_key shell_request) = Some (File bs)" unfolding l k by simp
  note boot = boot_shell [OF fs_inv_consistent [OF inv] _ p this]
  show thesis by (rule that [OF i]) (use boot t in blast)
qed

text \<open>Installation and boot: the bytes that the host tool inserts under the name \<open>shell\<close> into a
  blank image are, after the kernel has booted from that image, the bytes at address 0, where user
  mode starts; the file is still in the file system.\<close>

theorem inserted_shell_is_booted:
  assumes "\<not> signed (storage st)" and "0 < length bs" and "length bs \<le> MAX_FILE"
  shows "\<exists>st'. inserter_main fb (str ''shell'') (Some bs) ROOT_CLUSTER_NUMBER st = Inr (Write_success, st')
    \<and> (\<forall>m. storage (files (core m)) = storage st' \<longrightarrow>
        (\<exists>m'. kernel_setup dev stubs tss_addr ebp literal m = Some (Inr (kernel_execute_user_program 0, m'))
          \<and> mem_read (memory (files (core m'))) 0 (length bs) = bs
          \<and> lookup (files (core m')) ROOT_CLUSTER_NUMBER (request_key shell_request) = Some (File bs)))"
  by (rule insert_then_boot [OF assms]) blast

theorem inserted_shell_is_booted_witness:
  "\<exists>st'. inserter_main 0x1000 (str ''shell'') (Some [0xEB, 0xFE]) ROOT_CLUSTER_NUMBER blank_fs = Inr (Write_success, st')
    \<and> (\<exists>m'. kernel_setup (delivering 0) (replicate 64 0) 0 0 0xC0200000
          (demo_machine\<lparr>core := (core demo_machine)\<lparr>files := st'\<rparr>\<rparr>) = Some (Inr (kernel_execute_user_program 0, m'))
        \<and> mem_read (memory (files (core m'))) 0 2 = [0xEB, 0xFE])"
proof -
  obtain st' where i: "inserter_main 0x1000 (str ''shell'') (Some [0xEB, 0xFE]) ROOT_CLUSTER_NUMBER blank_fs = Inr (Write_success, st')"
    and b: "\<And>m. storage (files (core m)) = storage st' \<Longrightarrow>
      \<exists>m'. kernel_setup (delivering 0) (replicate 64 0) 0 0 0xC0200000 m = Some (Inr (kernel_execute_user_program 0, m'))
        \<and> mem_read (memory (files (core m'))) 0 2 = [0xEB, 0xFE]"
  proof -
    have "\<exists>st'. inserter_main 0x1000 (str ''shell'') (Some [0xEB, 0xFE]) ROOT_CLUSTER_NUMBER blank_fs = Inr (Write_success, st')
        \<and> (\<forall>m. storage (files (core m)) = storage st' \<longrightarrow>
          (\<exists>m'. kernel_setup (delivering 0) (replicate 64 0) 0 0 0xC0200000 m = Some (Inr (kernel_execute_user_program 0, m'))
            \<and> mem_read (memory (files (core m'))) 0 (length [0xEB, 0xFE :: byte]) = [0xEB, 0xFE]
            \<and> lookup (files (core m')) ROOT_CLUSTER_NUMBER (request_key shell_request) = Some (File [0xEB, 0xFE])))"
      by (rule inserted_shell_is_booted [OF blank_unsigned]) (simp_all add: MAX_FILE_def)
    moreover have "length [0xEB, 0xFE :: byte] = 2" by simp
    ultimately show thesis using that by (simp only:) blast
  qed
  have "\<exists>m'. kernel_setup (delivering 0) (replicate 64 0) 0 0 0xC0200000
        (demo_machine\<lparr>core := (core demo_machine)\<lparr>files := st'\<rparr>\<rparr>) = Some (Inr (kernel_execute_user_program 0, m'))
      \<and> mem_read (memory (files (core m'))) 0 2 = [0xEB, 0xFE]"
    by (rule b) simp
  with i show ?thesis by blast
qed

text \<open>The shell on a kernel that has booted.\<close>

lemma booted_shell_starts:
  assumes boot: "kernel_setup dev stubs tss_addr ebp literal m = Some (Inr (u, m'))" and con: "consistent (files (core m'))"
    and titles: "titled (files (core m'))"
    and on: "cursor_ok (tty (core m))" "keyboard_idle (core m)" and L: "shell_area L"
  shows "\<exists>s. shell_start L (core m') = Some (Inr s) \<and> waiting s
    \<and> tree_of (snd s) = tree_at (files (core m')) ROOT_CLUSTER_NUMBER []
    \<and> (\<forall>cmds s'. types L s cmds s' \<longrightarrow>
        waiting s' \<and> tree_steps (tree_of (snd s)) cmds (tree_of (snd s')) \<and> shows_way (snd s'))"
proof -
  have "kernel_inv (core m')" using con on(1) kernel_setup_console(2,3) [OF boot] by (simp add: kernel_inv_def cursor_ok_def)
  moreover have "keyboard_idle (core m')" using on(2) kernel_setup_console(1) [OF boot] by (simp add: keyboard_idle_def)
  ultimately obtain s where s: "shell_start L (core m') = Some (Inr s)" "waiting s" "prompted (snd s)"
    "tree_of (snd s) = tree_at (files (core m')) ROOT_CLUSTER_NUMBER []"
    using shell_start_returns [OF L] titles by (blast elim: returnsE)
  have "waiting s' \<and> tree_steps (tree_of (snd s)) cmds (tree_of (snd s')) \<and> shows_way (snd s')" if "types L s cmds s'" for cmds s'
    using session_walks [OF that L s(2)] s(3) prompted_path [of "snd s'"] by (simp add: waiting_def)
  with s show ?thesis by blast
qed

text \<open>C8: The system end to end. The host tool inserts the shell's bytes into a blank image; the kernel
  boots from that image with no key down and has those bytes at address 0, where user mode starts;
  the shell's \<open>main\<close> reaches its prompt, in a root that has the file; and every session of acceptable
  lines typed from there keeps all invariants, is a walk of the abstract tree, and leaves the prompt
  on the screen that shows the way from the root to where the walk ended.\<close>

theorem installed_system_runs_sessions:
  assumes "\<not> signed (storage st)" and "0 < length bs" and "length bs \<le> MAX_FILE" and "shell_area L"
  shows "\<exists>st'. inserter_main fb (str ''shell'') (Some bs) ROOT_CLUSTER_NUMBER st = Inr (Write_success, st')
    \<and> (\<forall>m. storage (files (core m)) = storage st' \<and> cursor_ok (tty (core m)) \<and> keyboard_idle (core m) \<longrightarrow>
        (\<exists>m' s. kernel_setup dev stubs tss_addr ebp literal m = Some (Inr (kernel_execute_user_program 0, m'))
          \<and> mem_read (memory (files (core m'))) 0 (length bs) = bs
          \<and> shell_start L (core m') = Some (Inr s) \<and> waiting s
          \<and> here (tree_of (snd s)) = ROOT_CLUSTER_NUMBER \<and> above (tree_of (snd s)) = []
          \<and> nodes (tree_of (snd s)) ROOT_CLUSTER_NUMBER (request_key shell_request) = Some (File bs)
          \<and> (\<forall>cmds s'. types L s cmds s' \<longrightarrow>
              waiting s' \<and> tree_steps (tree_of (snd s)) cmds (tree_of (snd s')) \<and> shows_way (snd s'))))"
proof -
  obtain st' where i: "inserter_main fb (str ''shell'') (Some bs) ROOT_CLUSTER_NUMBER st = Inr (Write_success, st')"
    and b: "\<And>m. storage (files (core m)) = storage st' \<Longrightarrow>
        \<exists>m'. kernel_setup dev stubs tss_addr ebp literal m = Some (Inr (kernel_execute_user_program 0, m'))
          \<and> mem_read (memory (files (core m'))) 0 (length bs) = bs
          \<and> consistent (files (core m')) \<and> titled (files (core m'))
          \<and> lookup (files (core m')) ROOT_CLUSTER_NUMBER (request_key shell_request) = Some (File bs)"
    by (rule insert_then_boot [OF assms(1-3)]) blast
  show ?thesis
  proof (intro exI [of _ st'] conjI allI impI i)
    fix m :: machine assume m: "storage (files (core m)) = storage st' \<and> cursor_ok (tty (core m)) \<and> keyboard_idle (core m)"
    then obtain m' where m': "kernel_setup dev stubs tss_addr ebp literal m = Some (Inr (kernel_execute_user_program 0, m'))"
      "mem_read (memory (files (core m'))) 0 (length bs) = bs" "consistent (files (core m'))" "titled (files (core m'))"
      "lookup (files (core m')) ROOT_CLUSTER_NUMBER (request_key shell_request) = Some (File bs)" using b by blast
    obtain s where s: "shell_start L (core m') = Some (Inr s)" "waiting s"
      "tree_of (snd s) = tree_at (files (core m')) ROOT_CLUSTER_NUMBER []"
      "\<forall>cmds s'. types L s cmds s' \<longrightarrow>
         waiting s' \<and> tree_steps (tree_of (snd s)) cmds (tree_of (snd s')) \<and> shows_way (snd s')"
      using booted_shell_starts [OF m'(1,3,4) _ _ assms(4)] m by blast
    have "here (tree_of (snd s)) = ROOT_CLUSTER_NUMBER \<and> above (tree_of (snd s)) = []
      \<and> nodes (tree_of (snd s)) ROOT_CLUSTER_NUMBER (request_key shell_request) = Some (File bs)"
      using m'(5) dirs.root by (simp add: s(3) tree_at_def)
    with m' s(1,2,4) show "\<exists>m' s. kernel_setup dev stubs tss_addr ebp literal m = Some (Inr (kernel_execute_user_program 0, m'))
          \<and> mem_read (memory (files (core m'))) 0 (length bs) = bs
          \<and> shell_start L (core m') = Some (Inr s) \<and> waiting s
          \<and> here (tree_of (snd s)) = ROOT_CLUSTER_NUMBER \<and> above (tree_of (snd s)) = []
          \<and> nodes (tree_of (snd s)) ROOT_CLUSTER_NUMBER (request_key shell_request) = Some (File bs)
          \<and> (\<forall>cmds s'. types L s cmds s' \<longrightarrow>
              waiting s' \<and> tree_steps (tree_of (snd s)) cmds (tree_of (snd s')) \<and> shows_way (snd s'))"
      by blast
  qed
qed

theorem installed_system_runs_sessions_witness:
  "\<exists>st' m' s. inserter_main 0x1000 (str ''shell'') (Some [0xEB, 0xFE]) ROOT_CLUSTER_NUMBER blank_fs = Inr (Write_success, st')
    \<and> kernel_setup (delivering 0) (replicate 64 0) 0 0 0xC0200000
        (demo_machine\<lparr>core := (core demo_machine)\<lparr>files := st'\<rparr>\<rparr>) = Some (Inr (kernel_execute_user_program 0, m'))
    \<and> shell_start demo_layout (core m') = Some (Inr s) \<and> waiting s \<and> shows_way (snd s)"
proof -
  let ?m = "\<lambda>st'. demo_machine\<lparr>core := (core demo_machine)\<lparr>files := st'\<rparr>\<rparr>"
  have on: "cursor_ok (tty (core (?m st'))) \<and> keyboard_idle (core (?m st'))" for st'
    by (simp add: demo_machine_def cursor_ok_def on_screen_def keyboard_idle_def demo_console_def initial_keyboard_def)
  have "(0 :: nat) < length [0xEB, 0xFE :: byte]" "length [0xEB, 0xFE :: byte] \<le> MAX_FILE" by (simp_all add: MAX_FILE_def)
  from installed_system_runs_sessions [OF blank_unsigned this demo_area, of "0x1000" "delivering 0" "replicate 64 0" 0 0 "0xC0200000"]
  obtain st' where i: "inserter_main 0x1000 (str ''shell'') (Some [0xEB, 0xFE]) ROOT_CLUSTER_NUMBER blank_fs = Inr (Write_success, st')"
    and b: "\<And>m. storage (files (core m)) = storage st' \<and> cursor_ok (tty (core m)) \<and> keyboard_idle (core m) \<Longrightarrow>
      \<exists>m' s. kernel_setup (delivering 0) (replicate 64 0) 0 0 0xC0200000 m = Some (Inr (kernel_execute_user_program 0, m'))
        \<and> shell_start demo_layout (core m') = Some (Inr s) \<and> waiting s \<and> shows_way (snd s)"
    using types.stop by blast
  have "storage (files (core (?m st'))) = storage st'" by simp
  with b [of "?m st'"] on i show ?thesis by blast
qed

text \<open>C40: The inserter cannot tell a missing input file from an empty one: it takes size zero, and
  \<open>write\<close> then creates a directory with the file's name and reports success.\<close>

theorem missing_file_becomes_directory:
  assumes "\<not> signed (storage st)" and "fresh_name argv1"
  shows "\<exists>st' c. inserter_main fb argv1 None ROOT_CLUSTER_NUMBER st = Inr (Write_success, st')
    \<and> lookup st' ROOT_CLUSTER_NUMBER = [(scan_name argv1, replicate 3 0) \<mapsto> Folder c]"
  by (rule insert_missing [OF assms])

theorem missing_file_becomes_directory_witness:
  "\<exists>st' c. inserter_main 0x1000 (str ''shell'') None ROOT_CLUSTER_NUMBER blank_fs = Inr (Write_success, st')
    \<and> lookup st' ROOT_CLUSTER_NUMBER = [(str ''shell'' @ replicate 3 0, replicate 3 0) \<mapsto> Folder c]"
proof -
  have nm: "scan_name (str ''shell'') = str ''shell'' @ replicate 3 0" by code_simp
  have "fresh_name (str ''shell'')" using request_names by (simp add: fresh_name_def nm)
  from missing_file_becomes_directory [OF blank_unsigned this] show ?thesis by (simp add: nm)
qed

end
